(* ===== verification/Sgx_Prelude.thy ===== *)
theory Sgx_Prelude
  imports Main "HOL-Library.Word"
begin

text \<open>
  Shared vocabulary of the development: the machine-integer types of the Rust sources, the two
  result shapes Rust code produces (\<open>Result\<close> as a sum, and the outcome of code that may
  panic or touch memory outside the buffer it was given), little-endian byte images of integers,
  reads and writes inside a byte buffer, and the invariant rule for step relations.
\<close>

unbundle bit_operations_syntax

section \<open>Machine types\<close>

type_synonym u8 = "8 word"
type_synonym u16 = "16 word"
type_synonym u32 = "32 word"
type_synonym u64 = "64 word"
type_synonym usize = "64 word"
type_synonym u128 = "128 word"
type_synonym bytes = "u8 list"

abbreviation u32_MAX :: u32 where
  "u32_MAX \<equiv> 0xFFFFFFFF"

text \<open>\<open>u32::MAX as usize\<close>.\<close>

abbreviation MAX32 :: nat where
  "MAX32 \<equiv> 4294967295"

named_theorems rust_simps \<open>unfolding rules for the result combinators\<close>
named_theorems buf_simps \<open>reads and writes inside byte buffers\<close>

section \<open>Results\<close>

text \<open>
  \<open>Result<T, E>\<close> is \<open>'e + 'a\<close>: \<open>Inl e\<close> for \<open>Err(e)\<close>, \<open>Inr a\<close> for \<open>Ok(a)\<close>.
  \<open>res_bind\<close> is the question-mark operator, \<open>map_err\<close> and \<open>map_ok\<close> are the methods of the
  standard library.
\<close>

definition res_bind :: "'e + 'a \<Rightarrow> ('a \<Rightarrow> 'e + 'b) \<Rightarrow> 'e + 'b" where
  "res_bind r f = (case r of Inl e \<Rightarrow> Inl e | Inr a \<Rightarrow> f a)"

definition map_err :: "('e \<Rightarrow> 'f) \<Rightarrow> 'e + 'a \<Rightarrow> 'f + 'a" where
  "map_err g r = (case r of Inl e \<Rightarrow> Inl (g e) | Inr a \<Rightarrow> Inr a)"

definition map_ok :: "('a \<Rightarrow> 'b) \<Rightarrow> 'e + 'a \<Rightarrow> 'e + 'b" where
  "map_ok g r = (case r of Inl e \<Rightarrow> Inl e | Inr a \<Rightarrow> Inr (g a))"

lemma res_bind_simps [simp, rust_simps]:
  "res_bind (Inl e) f = Inl e" "res_bind (Inr a) f = f a"
  by (simp_all add: res_bind_def)

lemma map_err_simps [simp, rust_simps]:
  "map_err g (Inl e) = Inl (g e)" "map_err g (Inr a) = Inr a"
  by (simp_all add: map_err_def)

lemma map_ok_simps [simp, rust_simps]:
  "map_ok g (Inl e) = Inl e" "map_ok g (Inr a) = Inr (g a)"
  by (simp_all add: map_ok_def)

lemma res_bind_Inr_iff: "res_bind r f = Inr b \<longleftrightarrow> (\<exists>a. r = Inr a \<and> f a = Inr b)"
  by (cases r) auto

lemma map_ok_Inr_iff: "map_ok g r = Inr b \<longleftrightarrow> (\<exists>a. r = Inr a \<and> g a = b)"
  by (cases r) auto

lemma map_ok_Inl_iff: "map_ok g r = Inl e \<longleftrightarrow> r = Inl e"
  by (cases r) auto

lemma map_err_Inr_iff: "map_err g r = Inr a \<longleftrightarrow> r = Inr a"
  by (cases r) auto

lemma map_err_Inl_iff: "map_err g r = Inl e \<longleftrightarrow> (\<exists>e'. r = Inl e' \<and> e = g e')"
  by (cases r) auto

text \<open>
  Code that indexes slices can panic, and unsafe code can read or write outside the buffer a
  caller described.  \<open>Done\<close> is a normal return, \<open>Panic\<close> a Rust panic, \<open>Ub\<close> an access outside
  the described memory.
\<close>

datatype 'a outcome = Done 'a | Panic | Ub

section \<open>32-bit sizes\<close>

lemma unat_u32_less: "unat (a :: u32) \<le> MAX32"
proof -
  have "unat a < 2 ^ LENGTH(32)" by (rule unsigned_less)
  then show ?thesis by simp
qed

lemma unat_u32_MAX_minus [simp]: "unat (u32_MAX - e) = MAX32 - unat (e :: u32)"
proof -
  have "e \<le> u32_MAX"
    using unat_u32_less [of e] by (simp add: word_le_nat_alt)
  then show ?thesis by (simp add: unat_sub)
qed

lemma unat_add_u32: "unat a + unat b \<le> MAX32 \<Longrightarrow> unat (a + b :: u32) = unat a + unat b"
  by (simp add: unat_word_ariths)

lemma unat_of_nat_u32: "n \<le> MAX32 \<Longrightarrow> unat (of_nat n :: u32) = n"
  by (simp add: unat_of_nat)

section \<open>Little-endian images of integers\<close>

definition le_bytes :: "nat \<Rightarrow> 'a::len word \<Rightarrow> bytes" where
  "le_bytes n w = map (\<lambda>i. ucast (drop_bit (8 * i) w)) [0..<n]"

fun le_word :: "bytes \<Rightarrow> 'a::len word" where
  "le_word [] = 0"
| "le_word (b # bs) = ucast b OR push_bit 8 (le_word bs)"

lemma length_le_bytes [simp]: "length (le_bytes n w) = n"
  by (simp add: le_bytes_def)

lemma bit_le_word:
  "bit (le_word bs :: 'a::len word) i \<longleftrightarrow>
     i < LENGTH('a) \<and> i div 8 < length bs \<and> bit (bs ! (i div 8)) (i mod 8)"
proof (induction bs arbitrary: i)
  case Nil
  then show ?case by simp
next
  case (Cons b bs)
  show ?case
  proof (cases "i < 8")
    case True
    then show ?thesis by (auto simp: bit_simps)
  next
    case False
    then obtain j where j: "i = j + 8" by (metis add.commute le_Suc_ex not_less)
    have "\<not> bit b (j + 8)"
      using bit_imp_le_length [of b "j + 8"] by auto
    moreover have "(j + 8) div 8 = Suc (j div 8)" by simp
    ultimately show ?thesis
      using Cons.IH [of j] by (auto simp: j bit_simps)
  qed
qed

lemma nth_le_bytes: "i < n \<Longrightarrow> le_bytes n w ! i = ucast (drop_bit (8 * i) w)"
  by (simp add: le_bytes_def)

lemma le_word_le_bytes [simp]:
  fixes w :: "'a::len word"
  assumes "LENGTH('a) = 8 * n"
  shows "le_word (le_bytes n w) = w"
proof (rule bit_word_eqI)
  fix i
  assume i: "i < LENGTH('a)"
  have "8 * (i div 8) + i mod 8 = i" by simp
  then show "bit (le_word (le_bytes n w) :: 'a word) i = bit w i"
    using i assms by (auto simp: bit_le_word nth_le_bytes bit_simps add.commute)
qed

lemma le_bytes_le_word [simp]:
  assumes "length bs = n" and "LENGTH('a) = 8 * n"
  shows "le_bytes n (le_word bs :: 'a::len word) = bs"
proof (rule nth_equalityI)
  fix i
  assume "i < length (le_bytes n (le_word bs :: 'a word))"
  then have i: "i < n" by simp
  show "le_bytes n (le_word bs :: 'a word) ! i = bs ! i"
  proof (rule bit_word_eqI)
    fix j
    assume "j < LENGTH(8)"
    then have j: "j < 8" by simp
    then have "(8 * i + j) div 8 = i" "(8 * i + j) mod 8 = j" "8 * i + j < 8 * n"
      using i by simp_all
    then show "bit (le_bytes n (le_word bs :: 'a word) ! i) j = bit (bs ! i) j"
      using i j assms by (simp add: nth_le_bytes bit_simps bit_le_word)
  qed
qed (simp add: assms)

section \<open>Byte buffers\<close>

text \<open>
  \<open>read_at\<close> is a read of \<open>n\<close> bytes at an offset and \<open>write_at\<close> a store of some bytes at an
  offset, both as raw-pointer code performs them; \<open>in_buf\<close> says that such an access stays inside
  the buffer.  Outside \<open>in_buf\<close> the callers report \<open>Ub\<close> and never use the value.
\<close>

definition in_buf :: "nat \<Rightarrow> nat \<Rightarrow> bytes \<Rightarrow> bool" where
  "in_buf off n buf \<longleftrightarrow> off + n \<le> length buf"

definition read_at :: "nat \<Rightarrow> nat \<Rightarrow> bytes \<Rightarrow> bytes" where
  "read_at off n buf = take n (drop off buf)"

definition write_at :: "nat \<Rightarrow> bytes \<Rightarrow> bytes \<Rightarrow> bytes" where
  "write_at off bs buf = take off buf @ bs @ drop (off + length bs) buf"

lemma length_read_at [buf_simps]: "in_buf off n buf \<Longrightarrow> length (read_at off n buf) = n"
  by (simp add: in_buf_def read_at_def)

lemma length_write_at [buf_simps]:
  "in_buf off (length bs) buf \<Longrightarrow> length (write_at off bs buf) = length buf"
  by (simp add: in_buf_def write_at_def)

lemma read_write_same [buf_simps]:
  "in_buf off (length bs) buf \<Longrightarrow> n = length bs \<Longrightarrow> read_at off n (write_at off bs buf) = bs"
  by (simp add: in_buf_def read_at_def write_at_def)

lemma read_write_before [buf_simps]:
  assumes "in_buf off (length bs) buf" and "off' + n \<le> off"
  shows "read_at off' n (write_at off bs buf) = read_at off' n buf"
  using assms
  by (auto simp: in_buf_def read_at_def write_at_def drop_take min_def)

lemma read_write_after [buf_simps]:
  assumes "in_buf off (length bs) buf" and "off + length bs \<le> off'"
  shows "read_at off' n (write_at off bs buf) = read_at off' n buf"
  using assms
  by (simp add: in_buf_def read_at_def write_at_def)

lemma read_at_read_at:
  "off + n \<le> m \<Longrightarrow> read_at off n (read_at base m buf) = read_at (base + off) n buf"
  by (simp add: read_at_def drop_take min_def add.commute)

lemma read_at_append1: "off + n \<le> length xs \<Longrightarrow> read_at off n (xs @ ys) = read_at off n xs"
  by (simp add: read_at_def)

lemma read_at_append2: "length xs \<le> off \<Longrightarrow> read_at off n (xs @ ys) = read_at (off - length xs) n ys"
  by (simp add: read_at_def)

lemma read_at_all: "n = length xs \<Longrightarrow> read_at 0 n xs = xs"
  by (simp add: read_at_def)

section \<open>Reachable states\<close>

text \<open>
  \<open>reach init step s\<close>: some run of the step relation leads from an initial state to \<open>s\<close>.  The
  locale is the proof rule of every state machine of the development: two local obligations give
  the invariant in all reachable states.
\<close>

inductive reach :: "('s \<Rightarrow> bool) \<Rightarrow> ('s \<Rightarrow> 's \<Rightarrow> bool) \<Rightarrow> 's \<Rightarrow> bool" for init step where
  reach_init: "init s \<Longrightarrow> reach init step s"
| reach_step: "reach init step s \<Longrightarrow> step s t \<Longrightarrow> reach init step t"

locale invariant_machine =
  fixes init :: "'s \<Rightarrow> bool"
    and step :: "'s \<Rightarrow> 's \<Rightarrow> bool"
    and inv :: "'s \<Rightarrow> bool"
  assumes init_inv: "init s \<Longrightarrow> inv s"
    and step_inv: "step s t \<Longrightarrow> inv s \<Longrightarrow> inv t"
begin

lemma reach_inv: "reach init step s \<Longrightarrow> inv s"
  by (induction rule: reach.induct) (auto intro: init_inv step_inv)

end

end
