(* ===== verification/Leb128.thy ===== *)
theory Leb128
  imports Sgx_Prelude
begin

unbundle bit_operations_syntax

text \<open>
  \<open>sgx_serialize\<close>, leb128.rs: the variable-length encoding of integers.  The loops follow the source:
  the writers call back with a position and a byte, the readers index the data.  \<open>None\<close> is a panic (an
  index out of range).  Shifts of a \<open>u128\<close> or \<open>i128\<close> by 128 or more use the shift modulo 128, as the
  release build does.
\<close>

section \<open>Bits of a byte\<close>

lemma and_7F_take_bit: "b AND 0x7F = take_bit 7 b" for b :: "'a :: len word"
proof -
  have "(0x7F :: 'a word) = mask 7" by (simp add: mask_eq_exp_minus_1)
  then show ?thesis by (simp add: take_bit_eq_mask)
qed

lemma and_40_bit: "b AND 0x40 = 0 \<longleftrightarrow> \<not> bit b 6" for b :: u8
  using and_exp_eq_0_iff_not_bit [of b 6] by simp

lemma and_80_bit: "b AND 0x80 = 0 \<longleftrightarrow> \<not> bit b 7" for b :: u8
  using and_exp_eq_0_iff_not_bit [of b 7] by simp

lemma bit_80: "bit (0x80 :: u8) i \<longleftrightarrow> i = 7"
proof -
  have "(0x80 :: u8) = 2 ^ 7" by simp
  then show ?thesis by (simp only: bit_exp_iff) auto
qed

lemma bit_ucast_low7 [simp]:
  "bit ((ucast v :: u8) AND 0x7F) i \<longleftrightarrow> i < 7 \<and> bit v i" for v :: u128
  by (auto simp: and_7F_take_bit bit_simps)

lemma bit_low7_ucast [simp]:
  "bit (ucast (v AND 0x7F) :: u8) i \<longleftrightarrow> i < 7 \<and> bit v i" for v :: u128
  by (auto simp: and_7F_take_bit bit_simps)

section \<open>Writers\<close>

definition write_to_vec :: "nat \<Rightarrow> u8 \<Rightarrow> bytes \<Rightarrow> bytes option" where
  "write_to_vec position byte vec =
     (if position = length vec then Some (vec @ [byte])
      else if position < length vec then Some (vec[position := byte]) else None)"

text \<open>
  The loop of the unsigned writer: \<open>write\<close> is the callback and \<open>st\<close> the state it works on.  The result
  is the position after the last byte with the state.
\<close>

lemma drop_bit_7_decreases:
  fixes v :: u128
  assumes "drop_bit 7 v \<noteq> 0"
  shows "unat (drop_bit 7 v) < unat v"
proof -
  have "v \<noteq> 0" using assms by auto
  then have "unat v > 0" by (simp add: unat_gt_0)
  moreover have "unat (drop_bit 7 v) = unat v div 128"
    by (simp add: drop_bit_eq_div unat_div)
  ultimately show ?thesis by simp
qed

function write_unsigned_loop ::
  "u128 \<Rightarrow> nat \<Rightarrow> (nat \<Rightarrow> u8 \<Rightarrow> 's \<Rightarrow> 's option) \<Rightarrow> 's \<Rightarrow> (nat \<times> 's) option" where
  "write_unsigned_loop v position write st =
     (let byte = ucast (v AND 0x7F) :: u8;
          v' = drop_bit 7 v;
          byte' = (if v' \<noteq> 0 then byte OR 0x80 else byte)
      in case write position byte' st of
           None \<Rightarrow> None
         | Some st' \<Rightarrow>
             if v' = 0 then Some (position + 1, st')
             else write_unsigned_loop v' (position + 1) write st')"
  by auto
termination
  by (relation "measure (\<lambda>(v, _). unat v)") (auto simp: drop_bit_7_decreases)

declare write_unsigned_loop.simps [simp del]

definition write_unsigned_leb128_to ::
  "u128 \<Rightarrow> (nat \<Rightarrow> u8 \<Rightarrow> 's \<Rightarrow> 's option) \<Rightarrow> 's \<Rightarrow> (nat \<times> 's) option" where
  "write_unsigned_leb128_to v write st = write_unsigned_loop v 0 write st"

definition write_unsigned_leb128 :: "bytes \<Rightarrow> nat \<Rightarrow> u128 \<Rightarrow> (nat \<times> bytes) option" where
  "write_unsigned_leb128 out start_position v =
     write_unsigned_leb128_to v (\<lambda>i b. write_to_vec (start_position + i) b) out"

text \<open>
  The signed writer: the shift is arithmetic, and the loop stops when the rest of the number is the
  sign bit of the byte just written.
\<close>

definition signed_more :: "u128 \<Rightarrow> u8 \<Rightarrow> bool" where
  "signed_more v byte \<longleftrightarrow> \<not> (v = 0 \<and> byte AND 0x40 = 0 \<or> v = - 1 \<and> byte AND 0x40 \<noteq> 0)"

definition signed_rank :: "u128 \<Rightarrow> nat" where
  "signed_rank v = (if v = 0 \<or> v = - 1 then 0 else nat \<bar>sint v\<bar> + 1)"

lemma div_128_shrinks: "x \<noteq> 0 \<Longrightarrow> x \<noteq> - 1 \<Longrightarrow> \<bar>x div 128\<bar> < \<bar>x\<bar>" for x :: int
  using div_mult_mod_eq [of x 128] pos_mod_bound [of 128 x] pos_mod_sign [of 128 x] by linarith

lemma signed_more_decreases:
  fixes v :: u128
  assumes "signed_more (signed_drop_bit 7 v) (ucast v AND 0x7F)"
  shows "signed_rank (signed_drop_bit 7 v) < signed_rank v"
proof -
  have v: "v \<noteq> 0" "v \<noteq> - 1"
    using assms by (auto simp: signed_more_def and_40_bit)
  have d: "sint (signed_drop_bit 7 v) = sint v div 128"
    by (simp add: sint_signed_drop_bit_eq drop_bit_eq_div)
  have m: "sint (- 1 :: u128) = - 1" by simp
  have "sint v \<noteq> 0" using v(1) by (simp only: signed_eq_0_iff not_False_eq_True)
  moreover have "sint v \<noteq> - 1" using v(2) m by (metis signed_word_eqI)
  ultimately have "\<bar>sint v div 128\<bar> < \<bar>sint v\<bar>" by (rule div_128_shrinks)
  then have "nat \<bar>sint (signed_drop_bit 7 v)\<bar> < nat \<bar>sint v\<bar>" unfolding d by linarith
  then show ?thesis using v by (simp add: signed_rank_def)
qed

function write_signed_loop ::
  "u128 \<Rightarrow> nat \<Rightarrow> (nat \<Rightarrow> u8 \<Rightarrow> 's \<Rightarrow> 's option) \<Rightarrow> 's \<Rightarrow> (nat \<times> 's) option" where
  "write_signed_loop v position write st =
     (let byte = ucast v AND 0x7F :: u8;
          v' = signed_drop_bit 7 v;
          more = signed_more v' byte;
          byte' = (if more then byte OR 0x80 else byte)
      in case write position byte' st of
           None \<Rightarrow> None
         | Some st' \<Rightarrow>
             if \<not> more then Some (position + 1, st')
             else write_signed_loop v' (position + 1) write st')"
  by auto
termination
  by (relation "measure (\<lambda>(v, _). signed_rank v)") (simp_all only: in_measure prod.case not_not signed_more_decreases wf_measure)

declare write_signed_loop.simps [simp del]

definition write_signed_leb128_to ::
  "u128 \<Rightarrow> (nat \<Rightarrow> u8 \<Rightarrow> 's \<Rightarrow> 's option) \<Rightarrow> 's \<Rightarrow> (nat \<times> 's) option" where
  "write_signed_leb128_to v write st = write_signed_loop v 0 write st"

definition write_signed_leb128 :: "bytes \<Rightarrow> nat \<Rightarrow> u128 \<Rightarrow> (nat \<times> bytes) option" where
  "write_signed_leb128 out start_position v =
     write_signed_leb128_to v (\<lambda>i b. write_to_vec (start_position + i) b) out"

section \<open>Readers\<close>

text \<open>The result of the loops: the number read so far with the position after the last byte.\<close>

function read_unsigned_loop :: "bytes \<Rightarrow> nat \<Rightarrow> u128 \<Rightarrow> nat \<Rightarrow> (u128 \<times> nat) option" where
  "read_unsigned_loop data position result shift =
     (if position < length data then
        let byte = data ! position;
            result' = result OR push_bit (shift mod 128) (ucast (byte AND 0x7F))
        in if byte AND 0x80 = 0 then Some (result', position + 1)
           else read_unsigned_loop data (position + 1) result' (shift + 7)
      else None)"
  by auto
termination
  by (relation "measure (\<lambda>(data, position, _). length data - position)") auto

declare read_unsigned_loop.simps [simp del]

definition read_unsigned_leb128 :: "bytes \<Rightarrow> nat \<Rightarrow> (u128 \<times> nat) option" where
  "read_unsigned_leb128 data start_position =
     (case read_unsigned_loop data start_position 0 0 of
        None \<Rightarrow> None
      | Some (result, position) \<Rightarrow> Some (result, position - start_position))"

function read_signed_loop :: "bytes \<Rightarrow> nat \<Rightarrow> u128 \<Rightarrow> nat \<Rightarrow> (u128 \<times> nat \<times> u8 \<times> nat) option" where
  "read_signed_loop data position result shift =
     (if position < length data then
        let byte = data ! position;
            result' = result OR push_bit (shift mod 128) (ucast (byte AND 0x7F));
            shift' = shift + 7
        in if byte AND 0x80 = 0 then Some (result', shift', byte, position + 1)
           else read_signed_loop data (position + 1) result' shift'
      else None)"
  by auto
termination
  by (relation "measure (\<lambda>(data, position, _). length data - position)") auto

declare read_signed_loop.simps [simp del]

definition read_signed_leb128 :: "bytes \<Rightarrow> nat \<Rightarrow> (u128 \<times> nat) option" where
  "read_signed_leb128 data start_position =
     (case read_signed_loop data start_position 0 0 of
        None \<Rightarrow> None
      | Some (result, shift, byte, position) \<Rightarrow>
          let result' = (if shift < 64 \<and> byte AND 0x40 \<noteq> 0 then result OR - push_bit shift 1 else result)
          in Some (result', position - start_position))"

section \<open>The byte strings\<close>

text \<open>Reference definitions: the bytes of a number, without positions, callbacks or a vector.\<close>

function uleb :: "u128 \<Rightarrow> bytes" where
  "uleb v = (if drop_bit 7 v = 0 then [ucast (v AND 0x7F)]
             else (ucast (v AND 0x7F) OR 0x80) # uleb (drop_bit 7 v))"
  by auto
termination
  by (relation "measure unat") (auto simp: drop_bit_7_decreases)

function sleb :: "u128 \<Rightarrow> bytes" where
  "sleb v = (if signed_more (signed_drop_bit 7 v) (ucast v AND 0x7F)
             then (ucast v AND 0x7F OR 0x80) # sleb (signed_drop_bit 7 v)
             else [ucast v AND 0x7F])"
  by auto
termination
  by (relation "measure signed_rank") (simp_all only: in_measure signed_more_decreases wf_measure)

declare uleb.simps [simp del] sleb.simps [simp del]

lemma uleb_nonempty [simp]: "uleb v \<noteq> []" by (simp add: uleb.simps [of v])
lemma sleb_nonempty [simp]: "sleb v \<noteq> []" by (simp add: sleb.simps [of v])

subsection \<open>The writers append the byte strings\<close>

lemma write_to_vec_end [simp]: "write_to_vec (length out) b out = Some (out @ [b])"
  by (simp add: write_to_vec_def)

lemma write_unsigned_loop_appends:
  "start + i = length out \<Longrightarrow>
   write_unsigned_loop v i (\<lambda>i b. write_to_vec (start + i) b) out = Some (i + length (uleb v), out @ uleb v)"
proof (induction v arbitrary: i out rule: uleb.induct)
  case (1 v)
  show ?case
    using 1 by (simp add: write_unsigned_loop.simps [of v] uleb.simps [of v] Let_def)
qed

lemma write_unsigned_leb128_appends [simp]:
  "write_unsigned_leb128 out (length out) v = Some (length (uleb v), out @ uleb v)"
  by (simp add: write_unsigned_leb128_def write_unsigned_leb128_to_def write_unsigned_loop_appends)

lemma write_signed_loop_appends:
  "start + i = length out \<Longrightarrow>
   write_signed_loop v i (\<lambda>i b. write_to_vec (start + i) b) out = Some (i + length (sleb v), out @ sleb v)"
proof (induction v arbitrary: i out rule: sleb.induct)
  case (1 v)
  show ?case
    using 1 by (simp add: write_signed_loop.simps [of v] sleb.simps [of v] Let_def)
qed

lemma write_signed_leb128_appends [simp]:
  "write_signed_leb128 out (length out) v = Some (length (sleb v), out @ sleb v)"
  by (simp add: write_signed_leb128_def write_signed_leb128_to_def write_signed_loop_appends)

subsection \<open>The readers read them back\<close>

lemma payload_unsigned:
  "ucast ((ucast (v AND 0x7F) :: u8) AND 0x7F) = take_bit 7 v"
  "ucast ((ucast (v AND 0x7F) OR 0x80 :: u8) AND 0x7F) = take_bit 7 v" for v :: u128
  by (rule bit_word_eqI, auto simp: and_7F_take_bit bit_simps bit_80)+

lemma payload_signed:
  "ucast (((ucast v :: u8) AND 0x7F) AND 0x7F) = take_bit 7 v"
  "ucast (((ucast v :: u8) AND 0x7F OR 0x80) AND 0x7F) = take_bit 7 v" for v :: u128
  by (rule bit_word_eqI, auto simp: and_7F_take_bit bit_simps bit_80)+

lemma continuation_bit:
  "\<not> bit (ucast (v AND 0x7F) :: u8) 7"
  "bit (ucast (v AND 0x7F) OR 0x80 :: u8) 7"
  "\<not> bit ((ucast v :: u8) AND 0x7F) 7"
  "bit ((ucast v :: u8) AND 0x7F OR 0x80) 7" for v :: u128
  by (simp_all add: bit_or_iff bit_80)

lemma read_unsigned_last:
  "\<not> bit b 7 \<Longrightarrow> read_unsigned_loop (pre @ b # xs) (length pre) result s =
     Some (result OR push_bit (s mod 128) (ucast (b AND 0x7F)), length pre + 1)"
  by (simp add: read_unsigned_loop.simps [of _ "length pre"] and_80_bit Let_def)

lemma read_unsigned_more:
  "bit b 7 \<Longrightarrow> read_unsigned_loop (pre @ b # xs) (length pre) result s =
     read_unsigned_loop ((pre @ [b]) @ xs) (length (pre @ [b]))
       (result OR push_bit (s mod 128) (ucast (b AND 0x7F))) (s + 7)"
  by (simp add: read_unsigned_loop.simps [of _ "length pre"] and_80_bit Let_def)

lemma read_signed_last:
  "\<not> bit b 7 \<Longrightarrow> read_signed_loop (pre @ b # xs) (length pre) result s =
     Some (result OR push_bit (s mod 128) (ucast (b AND 0x7F)), s + 7, b, length pre + 1)"
  by (simp add: read_signed_loop.simps [of _ "length pre"] and_80_bit Let_def)

lemma read_signed_more:
  "bit b 7 \<Longrightarrow> read_signed_loop (pre @ b # xs) (length pre) result s =
     read_signed_loop ((pre @ [b]) @ xs) (length (pre @ [b]))
       (result OR push_bit (s mod 128) (ucast (b AND 0x7F))) (s + 7)"
  by (simp add: read_signed_loop.simps [of _ "length pre"] and_80_bit Let_def)

lemma push_bit_split_unsigned:
  "push_bit s (take_bit 7 v) OR push_bit (s + 7) (drop_bit 7 v) = push_bit s v" for v :: u128
proof (rule bit_word_eqI)
  fix i assume "i < LENGTH(128)"
  then show "bit (push_bit s (take_bit 7 v) OR push_bit (s + 7) (drop_bit 7 v)) i = bit (push_bit s v) i"
    by (cases "s + 7 \<le> i") (auto simp: bit_simps not_le)
qed

lemma drop_bit_zero_bits: "drop_bit n v = 0 \<longleftrightarrow> (\<forall>i \<ge> n. \<not> bit v i)" for v :: "'a :: len word"
proof
  assume "drop_bit n v = 0"
  then have "\<not> bit v (n + j)" for j using bit_drop_bit_eq [of n v] by (auto simp: fun_eq_iff)
  then show "\<forall>i \<ge> n. \<not> bit v i" by (metis le_add_diff_inverse)
qed (auto intro: bit_word_eqI simp: bit_drop_bit_eq)

lemma read_unsigned_loop_uleb:
  assumes "drop_bit (128 - s) v = 0" "s < 128"
  shows "read_unsigned_loop (pre @ uleb v @ rest) (length pre) result s =
           Some (result OR push_bit s v, length pre + length (uleb v))"
  using assms
proof (induction v arbitrary: pre result s rule: uleb.induct)
  case (1 v)
  show ?case
  proof (cases "drop_bit 7 v = 0")
    case True
    then have "take_bit 7 v = v"
      using not_less by (intro bit_word_eqI) (auto simp: drop_bit_zero_bits bit_take_bit_iff)
    then show ?thesis
      using True 1(3) read_unsigned_last [OF continuation_bit(1)]
      by (simp add: uleb.simps [of v] payload_unsigned)
  next
    case False
    define b where "b = (ucast (v AND 0x7F) OR 0x80 :: u8)"
    obtain i where i: "7 \<le> i" "bit v i" using False by (auto simp: drop_bit_zero_bits)
    then have "\<not> 128 - s \<le> i" using 1(2) by (auto simp: drop_bit_zero_bits)
    then have s: "s + 7 < 128" using i by linarith
    have "drop_bit (128 - (s + 7)) (drop_bit 7 v) = 0"
      using 1(2) s by (simp add: drop_bit_zero_bits bit_drop_bit_eq)
    then have "read_unsigned_loop ((pre @ [b]) @ uleb (drop_bit 7 v) @ rest) (length (pre @ [b]))
        (result OR push_bit s (take_bit 7 v)) (s + 7) =
      Some ((result OR push_bit s (take_bit 7 v)) OR push_bit (s + 7) (drop_bit 7 v),
        length (pre @ [b]) + length (uleb (drop_bit 7 v)))"
      using False s by (intro 1(1)) auto
    moreover have "uleb v = b # uleb (drop_bit 7 v)"
      using False by (simp add: uleb.simps [of v] b_def)
    moreover have "bit b 7" "ucast (b AND 0x7F) = take_bit 7 v"
      unfolding b_def by (rule continuation_bit payload_unsigned)+
    ultimately show ?thesis
      using s by (simp add: read_unsigned_more or.assoc push_bit_split_unsigned)
  qed
qed

lemma bit_sdb7:
  "bit (signed_drop_bit 7 v) i \<longleftrightarrow> i < 128 \<and> bit v (if 121 \<le> i then 127 else i + 7)" for v :: u128
proof -
  have l: "LENGTH(128) = (128 :: nat)" by simp
  have "i < 128" if "bit (signed_drop_bit 7 v) i" using bit_imp_le_length [OF that] l by simp
  moreover have "bit (signed_drop_bit 7 v) i = bit v (if 121 \<le> i then 127 else i + 7)" if "i < 128"
    using that by (simp only: bit_signed_drop_bit_iff l) (simp add: add.commute)
  ultimately show ?thesis by blast
qed

text \<open>The loop stops exactly when bit 6 and all the bits above it are the same.\<close>

lemma sdb7_const_iff:
  "signed_drop_bit 7 v = 0 \<longleftrightarrow> (\<forall>i. 7 \<le> i \<longrightarrow> i < 128 \<longrightarrow> \<not> bit v i)"
  "signed_drop_bit 7 v = - 1 \<longleftrightarrow> (\<forall>i. 7 \<le> i \<longrightarrow> i < 128 \<longrightarrow> bit v i)" for v :: u128
proof -
  have l: "LENGTH(128) = (128 :: nat)" by simp
  have down: "bit (signed_drop_bit 7 v) (i - 7) = bit v i" if "7 \<le> i" "i < 128" for i
  proof -
    have "i - 7 < 121" "i - 7 + 7 = i" using that by linarith+
    then show ?thesis by (simp add: bit_sdb7)
  qed
  show "signed_drop_bit 7 v = 0 \<longleftrightarrow> (\<forall>i. 7 \<le> i \<longrightarrow> i < 128 \<longrightarrow> \<not> bit v i)"
  proof
    assume "signed_drop_bit 7 v = 0"
    then show "\<forall>i. 7 \<le> i \<longrightarrow> i < 128 \<longrightarrow> \<not> bit v i" using down by fastforce
  next
    assume "\<forall>i. 7 \<le> i \<longrightarrow> i < 128 \<longrightarrow> \<not> bit v i"
    then show "signed_drop_bit 7 v = 0" by (intro bit_word_eqI) (simp add: bit_sdb7)
  qed
  show "signed_drop_bit 7 v = - 1 \<longleftrightarrow> (\<forall>i. 7 \<le> i \<longrightarrow> i < 128 \<longrightarrow> bit v i)"
  proof
    assume m: "signed_drop_bit 7 v = - 1"
    show "\<forall>i. 7 \<le> i \<longrightarrow> i < 128 \<longrightarrow> bit v i"
    proof (intro allI impI)
      fix i :: nat assume "7 \<le> i" "i < 128"
      then have "bit (- 1 :: u128) (i - 7) = bit v i" using down m by metis
      then show "bit v i" using \<open>i < 128\<close> by (simp add: less_imp_diff_less)
    qed
  next
    assume "\<forall>i. 7 \<le> i \<longrightarrow> i < 128 \<longrightarrow> bit v i"
    then show "signed_drop_bit 7 v = - 1" by (intro bit_word_eqI) (simp add: bit_sdb7)
  qed
qed

lemma signed_more_bits:
  "signed_more (signed_drop_bit 7 v) (ucast v AND 0x7F) \<longleftrightarrow> (\<exists>i. 6 \<le> i \<and> i < 128 \<and> bit v i \<noteq> bit v 127)"
  for v :: u128
proof -
  have six: "(\<forall>i. 6 \<le> i \<longrightarrow> i < 128 \<longrightarrow> P i) \<longleftrightarrow> P 6 \<and> (\<forall>i. 7 \<le> i \<longrightarrow> i < 128 \<longrightarrow> P i)"
    for P :: "nat \<Rightarrow> bool"
  proof -
    have "(6 \<le> i) = (i = 6 \<or> 7 \<le> i)" for i :: nat by linarith
    then show ?thesis by auto
  qed
  have top: "\<not> P 127 \<Longrightarrow> \<not> (\<forall>i. 7 \<le> i \<longrightarrow> i < 128 \<longrightarrow> P i)" for P :: "nat \<Rightarrow> bool"
    by (rule notI, drule spec [of _ 127]) simp
  have "\<not> signed_more (signed_drop_bit 7 v) (ucast v AND 0x7F) \<longleftrightarrow>
      (\<forall>i. 6 \<le> i \<longrightarrow> i < 128 \<longrightarrow> bit v i = bit v 127)"
  proof (cases "bit v 127")
    case True
    then show ?thesis
      using top [of "\<lambda>i. \<not> bit v i"]
      by (simp add: signed_more_def and_40_bit sdb7_const_iff six [of "bit v"]; blast)
  next
    case False
    then show ?thesis
      using top [of "bit v"]
      by (simp add: signed_more_def and_40_bit sdb7_const_iff six [of "\<lambda>i. \<not> bit v i"]; blast)
  qed
  then show ?thesis by blast
qed

lemma bit_sdb7_down: "7 \<le> i \<Longrightarrow> i < 128 \<Longrightarrow> bit (signed_drop_bit 7 v) (i - 7) = bit v i" for v :: u128
proof -
  assume "7 \<le> i" "i < 128"
  then have "i - 7 < 121" "i - 7 + 7 = i" by linarith+
  then show ?thesis by (simp add: bit_sdb7)
qed

lemma sleb_last_sign: "bit (last (sleb v)) 6 = bit v 127"
proof (induction v rule: sleb.induct)
  case (1 v)
  show ?case
  proof (cases "signed_more (signed_drop_bit 7 v) (ucast v AND 0x7F)")
    case False
    then have "\<not> (6 \<le> (6 :: nat) \<and> 6 < (128 :: nat) \<and> bit v 6 \<noteq> bit v 127)"
      unfolding signed_more_bits by blast
    then have "bit v 6 = bit v 127" by simp
    then show ?thesis using False by (simp add: sleb.simps [of v])
  next
    case True
    then have "last (sleb v) = last (sleb (signed_drop_bit 7 v))" by (simp add: sleb.simps [of v])
    then show ?thesis using 1 [OF True] by (simp add: bit_sdb7)
  qed
qed

lemma sleb_bits_above: "7 * length (sleb v) \<le> i + 1 \<Longrightarrow> i < 128 \<Longrightarrow> bit v i = bit v 127"
proof (induction v arbitrary: i rule: sleb.induct)
  case (1 v)
  show ?case
  proof (cases "signed_more (signed_drop_bit 7 v) (ucast v AND 0x7F)")
    case False
    then have "length (sleb v) = 1" by (simp add: sleb.simps [of v])
    then have "6 \<le> i" using 1(2) by linarith
    then show ?thesis using False 1(3) unfolding signed_more_bits by blast
  next
    case True
    then have "length (sleb v) = length (sleb (signed_drop_bit 7 v)) + 1" by (simp add: sleb.simps [of v])
    moreover from this have "7 \<le> i" using 1(2) by (cases "sleb (signed_drop_bit 7 v)") auto
    ultimately have "7 * length (sleb (signed_drop_bit 7 v)) \<le> i - 7 + 1" "i - 7 < 128" "7 \<le> i"
      using 1(2,3) by linarith+
    then have "bit (signed_drop_bit 7 v) (i - 7) = bit (signed_drop_bit 7 v) 127" using 1(1) [OF True] by blast
    then show ?thesis using \<open>7 \<le> i\<close> 1(3) bit_sdb7_down bit_sdb7 [of v 127] by simp
  qed
qed

lemma push_bit_split_signed:
  "push_bit s (take_bit 7 v) OR push_bit (s + 7) (take_bit (7 * n) (signed_drop_bit 7 v)) =
   push_bit s (take_bit (7 * Suc n) v)" for v :: u128
proof (rule bit_word_eqI)
  fix i assume "i < LENGTH(128)"
  then have i: "i < 128" by simp
  show "bit (push_bit s (take_bit 7 v) OR push_bit (s + 7) (take_bit (7 * n) (signed_drop_bit 7 v))) i =
        bit (push_bit s (take_bit (7 * Suc n) v)) i"
  proof (cases "s + 7 \<le> i")
    case True
    then have "i - (s + 7) < 121" "i - (s + 7) + 7 = i - s" using i by linarith+
    moreover have "i - (s + 7) < 7 * n \<longleftrightarrow> i - s < 7 * Suc n" using True by auto
    ultimately have "bit (take_bit (7 * n) (signed_drop_bit 7 v)) (i - (s + 7)) = bit (take_bit (7 * Suc n) v) (i - s)"
      by (simp add: bit_take_bit_iff bit_sdb7)
    then show ?thesis using True i by (auto simp: bit_or_iff bit_push_bit_iff bit_take_bit_iff)
  qed (use i in \<open>auto simp: bit_or_iff bit_push_bit_iff bit_take_bit_iff\<close>)
qed

lemma read_signed_loop_sleb:
  assumes "\<forall>i. 127 - s \<le> i \<longrightarrow> i < 128 \<longrightarrow> bit v i = bit v 127" "s < 128"
  shows "read_signed_loop (pre @ sleb v @ rest) (length pre) result s =
           Some (result OR push_bit s (take_bit (7 * length (sleb v)) v), s + 7 * length (sleb v),
                 last (sleb v), length pre + length (sleb v))"
  using assms
proof (induction v arbitrary: pre result s rule: sleb.induct)
  case (1 v)
  show ?case
  proof (cases "signed_more (signed_drop_bit 7 v) (ucast v AND 0x7F)")
    case False
    define b where "b = (ucast v AND 0x7F :: u8)"
    have "bit b 7 = False" "ucast (b AND 0x7F) = take_bit 7 v"
      unfolding b_def using continuation_bit(3) payload_signed(1) by blast+
    moreover have "sleb v = [b]" using False by (simp add: sleb.simps [of v] b_def)
    ultimately show ?thesis using 1(3) by (simp add: read_signed_last)
  next
    case True
    define b where "b = (ucast v AND 0x7F OR 0x80 :: u8)"
    obtain i where i: "6 \<le> i" "i < 128" "bit v i \<noteq> bit v 127" using True signed_more_bits by blast
    have "i < 127 - s" using 1(2) [rule_format, of i] i by linarith
    then have s: "s + 7 < 128" using i(1) by linarith
    have "\<forall>i. 127 - (s + 7) \<le> i \<longrightarrow> i < 128 \<longrightarrow> bit (signed_drop_bit 7 v) i = bit (signed_drop_bit 7 v) 127"
    proof (intro allI impI)
      fix i :: nat assume i: "127 - (s + 7) \<le> i" "i < 128"
      have "bit v (i + 7) = bit v 127" if "i < 121" using 1(2) [rule_format, of "i + 7"] i that by linarith
      then show "bit (signed_drop_bit 7 v) i = bit (signed_drop_bit 7 v) 127" using i by (simp add: bit_sdb7)
    qed
    then have "read_signed_loop ((pre @ [b]) @ sleb (signed_drop_bit 7 v) @ rest) (length (pre @ [b]))
        (result OR push_bit s (take_bit 7 v)) (s + 7) =
      Some ((result OR push_bit s (take_bit 7 v)) OR
              push_bit (s + 7) (take_bit (7 * length (sleb (signed_drop_bit 7 v))) (signed_drop_bit 7 v)),
            s + 7 + 7 * length (sleb (signed_drop_bit 7 v)), last (sleb (signed_drop_bit 7 v)),
            length (pre @ [b]) + length (sleb (signed_drop_bit 7 v)))"
      using s by (intro 1(1) [OF True])
    moreover have "sleb v = b # sleb (signed_drop_bit 7 v)"
      using True by (simp add: sleb.simps [of v] b_def)
    moreover have "bit b 7" "ucast (b AND 0x7F) = take_bit 7 v"
      unfolding b_def by (rule continuation_bit payload_signed)+
    ultimately show ?thesis
      using s push_bit_split_signed [of s v "length (sleb (signed_drop_bit 7 v))"]
      by (simp add: read_signed_more or.assoc)
  qed
qed

subsection \<open>What the signed reader gives back\<close>

lemma take_bit_above_sign:
  fixes v :: u128
  assumes "\<forall>i. n \<le> i + 1 \<longrightarrow> i < 128 \<longrightarrow> bit v i = bit v 127"
  shows "\<not> bit v 127 \<Longrightarrow> take_bit n v = v"
    and "bit v 127 \<Longrightarrow> take_bit n v OR - push_bit n 1 = v"
proof -
  have l: "LENGTH(128) = (128 :: nat)" by simp
  show "take_bit n v = v" if "\<not> bit v 127"
  proof (rule bit_word_eqI)
    fix i assume "i < LENGTH(128)"
    then show "bit (take_bit n v) i = bit v i" using assms that by (cases "i < n") (auto simp: bit_take_bit_iff)
  qed
  have m: "- push_bit n 1 = (NOT (mask n) :: u128)"
    by (simp add: mask_eq_exp_minus_1 push_bit_eq_mult not_eq_complement)
  show "take_bit n v OR - push_bit n 1 = v" if "bit v 127"
  proof (rule bit_word_eqI)
    fix i assume "i < LENGTH(128)"
    then show "bit (take_bit n v OR - push_bit n 1) i = bit v i"
      using assms that unfolding m by (cases "i < n") (auto simp: bit_or_iff bit_take_bit_iff bit_not_iff bit_mask_iff)
  qed
qed

text \<open>The number the reader returns for the bytes of \<open>v\<close>: \<open>v\<close> itself, cut off when the sign is not extended.\<close>

lemma read_signed_leb128_sleb:
  "read_signed_leb128 (pre @ sleb v @ rest) (length pre) =
     Some (if bit v 127 \<and> 64 \<le> 7 * length (sleb v) then take_bit (7 * length (sleb v)) v else v,
           length (sleb v))"
proof -
  have "\<forall>i. 127 - 0 \<le> i \<longrightarrow> i < 128 \<longrightarrow> bit v i = bit v 127"
  proof (intro allI impI)
    fix i :: nat assume "127 - 0 \<le> i" "i < 128"
    then have "i = 127" by linarith
    then show "bit v i = bit v 127" by simp
  qed
  from read_signed_loop_sleb [OF this, of pre rest 0]
  have r: "read_signed_loop (pre @ sleb v @ rest) (length pre) 0 0 =
      Some (take_bit (7 * length (sleb v)) v, 7 * length (sleb v), last (sleb v), length pre + length (sleb v))"
    by simp
  have "\<forall>i. 7 * length (sleb v) \<le> i + 1 \<longrightarrow> i < 128 \<longrightarrow> bit v i = bit v 127"
    using sleb_bits_above by blast
  note t = take_bit_above_sign [OF this]
  show ?thesis
  proof (cases "bit v 127")
    case True
    then show ?thesis
      using sleb_last_sign [of v] t(2) [OF True] by (simp add: read_signed_leb128_def r and_40_bit Let_def)
  next
    case False
    then show ?thesis
      using sleb_last_sign [of v] t(1) [OF False] by (simp add: read_signed_leb128_def r and_40_bit Let_def)
  qed
qed

section \<open>Round trips\<close>

lemma read_unsigned_leb128_uleb [simp]:
  "read_unsigned_leb128 (pre @ uleb v @ rest) (length pre) = Some (v, length (uleb v))"
  by (simp add: read_unsigned_leb128_def read_unsigned_loop_uleb)

text \<open>
  \<open>read_unsigned_leb128\<close> inverts \<open>write_unsigned_leb128\<close> for every \<open>u128\<close>: a number written at the
  end of a vector leaves the vector's bytes in place, and reading at the old end, whatever follows,
  returns that number and the number of bytes written, without a panic.
\<close>
theorem unsigned_leb128_roundtrip:
  "\<exists>n out'. write_unsigned_leb128 out (length out) v = Some (n, out') \<and> take (length out) out' = out
     \<and> length out' = length out + n
     \<and> read_unsigned_leb128 (out' @ rest) (length out) = Some (v, n)"
  by simp

lemma signed_narrow_roundtrip:
  fixes w :: "'a :: len word"
  assumes "LENGTH('a) \<le> 64"
  shows "\<exists>r. read_signed_leb128 (pre @ sleb (scast w) @ rest) (length pre) = Some (r, length (sleb (scast w)))
           \<and> ucast r = w"
proof -
  have w: "ucast (scast w :: u128) = w"
    using assms by (intro bit_word_eqI) (auto simp: bit_simps)
  have "ucast (take_bit n (scast w :: u128)) = w" if "64 \<le> n" for n
  proof (rule bit_word_eqI)
    fix i assume "i < LENGTH('a)"
    moreover have "i < n" using calculation assms that by linarith
    ultimately show "bit (ucast (take_bit n (scast w :: u128)) :: 'a word) i = bit w i"
      using w by (metis bit_take_bit_iff bit_unsigned_iff)
  qed
  then show ?thesis using w by (simp add: read_signed_leb128_sleb)
qed

text \<open>
  \<open>read_signed_leb128\<close> inverts \<open>write_signed_leb128\<close> for every \<open>i64\<close>: after the cast back to \<open>i64\<close>
  the number read is the number written, whatever follows it.
\<close>
theorem signed_leb128_i64_roundtrip:
  "\<exists>n out' r. write_signed_leb128 out (length out) (scast (v :: 64 word)) = Some (n, out')
     \<and> take (length out) out' = out
     \<and> read_signed_leb128 (out' @ rest) (length out) = Some (r, n) \<and> ucast r = v"
  using signed_narrow_roundtrip [of out v rest] by auto

lemma i128_read_back_iff:
  "read_signed_leb128 (pre @ sleb v @ rest) (length pre) = Some (v, length (sleb v)) \<longleftrightarrow>
     \<not> (v <s 0 \<and> 10 \<le> length (sleb v) \<and> length (sleb v) \<le> 18)"
proof -
  let ?n = "length (sleb v)"
  have l: "LENGTH(128) = (128 :: nat)" by simp
  have neg: "v <s 0 \<longleftrightarrow> bit v 127"
    using bit_last_iff [of v] by (simp add: word_sless_alt)
  have "take_bit (7 * ?n) v = v \<longleftrightarrow> 18 < ?n" if "bit v 127"
  proof
    assume "take_bit (7 * ?n) v = v"
    then have "127 < 7 * ?n" using that by (metis bit_take_bit_iff)
    then show "18 < ?n" by linarith
  next
    assume "18 < ?n"
    then have "127 < 7 * ?n" by linarith
    then show "take_bit (7 * ?n) v = v" using l
      by (intro bit_word_eqI) (auto simp: bit_take_bit_iff)
  qed
  then show ?thesis unfolding neg by (auto simp: read_signed_leb128_sleb)
qed

text \<open>
  C38. For \<open>i128\<close> the reader does not invert the writer: it extends the sign only below a shift of 64, so
  the number comes back exactly when it is not a negative number of 10 to 18 bytes.
\<close>
theorem signed_leb128_i128_roundtrip_iff:
  "\<exists>n out'. write_signed_leb128 out (length out) v = Some (n, out')
     \<and> (read_signed_leb128 (out' @ rest) (length out) = Some (v, n) \<longleftrightarrow> \<not> (v <s 0 \<and> 10 \<le> n \<and> n \<le> 18))"
  using i128_read_back_iff [of out v rest] by simp

subsection \<open>Truncated numbers\<close>

text \<open>A number whose last byte is missing makes the readers index past the end of the data.\<close>

lemma uleb_continued: "n < length (uleb v) \<Longrightarrow> b \<in> set (take n (uleb v)) \<Longrightarrow> bit b 7"
proof (induction v arbitrary: n rule: uleb.induct)
  case (1 v)
  then show ?case
    by (cases n) (auto simp: uleb.simps [of v] bit_simps split: if_splits)
qed

lemma sleb_continued: "n < length (sleb v) \<Longrightarrow> b \<in> set (take n (sleb v)) \<Longrightarrow> bit b 7"
proof (induction v arbitrary: n rule: sleb.induct)
  case (1 v)
  then show ?case
    by (cases n) (auto simp: sleb.simps [of v] bit_simps split: if_splits)
qed

lemma continued_byte: "bit b 7 \<Longrightarrow> b AND 0x80 \<noteq> 0" for b :: u8
proof
  assume "bit b 7" "b AND 0x80 = 0"
  moreover have "bit (0x80 :: u8) 7" by simp
  ultimately show False by (metis bit_and_iff bit_0_eq bot_apply bot_bool_def)
qed

lemma read_unsigned_loop_truncated:
  "\<forall>b \<in> set (drop position data). bit b 7 \<Longrightarrow> read_unsigned_loop data position result shift = None"
proof (induction data position result shift rule: read_unsigned_loop.induct)
  case (1 data position result shift)
  show ?case
  proof (cases "position < length data")
    case True
    then have d: "drop position data = data ! position # drop (position + 1) data" by (simp add: Cons_nth_drop_Suc)
    then have "data ! position AND 0x80 \<noteq> 0" using 1(2) by (auto intro!: continued_byte)
    then show ?thesis using 1 True d by (simp add: read_unsigned_loop.simps [of data position] Let_def)
  qed (simp add: read_unsigned_loop.simps)
qed

lemma read_signed_loop_truncated:
  "\<forall>b \<in> set (drop position data). bit b 7 \<Longrightarrow> read_signed_loop data position result shift = None"
proof (induction data position result shift rule: read_signed_loop.induct)
  case (1 data position result shift)
  show ?case
  proof (cases "position < length data")
    case True
    then have d: "drop position data = data ! position # drop (position + 1) data" by (simp add: Cons_nth_drop_Suc)
    then have "data ! position AND 0x80 \<noteq> 0" using 1(2) by (auto intro!: continued_byte)
    then show ?thesis using 1 True d by (simp add: read_signed_loop.simps [of data position] Let_def)
  qed (simp add: read_signed_loop.simps)
qed

lemma read_unsigned_leb128_truncated: "n < length (uleb v) \<Longrightarrow> read_unsigned_leb128 (pre @ take n (uleb v)) (length pre) = None"
  using read_unsigned_loop_truncated [of "length pre" "pre @ take n (uleb v)"] uleb_continued [of n v]
  by (simp add: read_unsigned_leb128_def)

lemma read_signed_leb128_truncated: "n < length (sleb v) \<Longrightarrow> read_signed_leb128 (pre @ take n (sleb v)) (length pre) = None"
  using read_signed_loop_truncated [of "length pre" "pre @ take n (sleb v)"] sleb_continued [of n v]
  by (simp add: read_signed_leb128_def)

end
