(* ===== verification/Sgx_Types.thy ===== *)
theory Sgx_Types
  imports Sgx_Prelude
begin

text \<open>
  The data of \<open>sgx_types\<close>: the status codes with the two conversions that \<open>impl_enum!\<close> generates,
  the key request, the report and the sealed-data header with their \<open>repr(C)\<close> byte images, and the
  constants that sealing and the session protocol use.
\<close>

section \<open>Status codes\<close>

text \<open>\<open>sgx_status_t\<close> (error.rs), every variant in the order of the source.\<close>

datatype (plugins only: code size) sgx_status_t =
    SGX_SUCCESS
  | SGX_ERROR_UNEXPECTED
  | SGX_ERROR_INVALID_PARAMETER
  | SGX_ERROR_OUT_OF_MEMORY
  | SGX_ERROR_ENCLAVE_LOST
  | SGX_ERROR_INVALID_STATE
  | SGX_ERROR_FEATURE_NOT_SUPPORTED
  | SGX_PTHREAD_EXIT
  | SGX_ERROR_MEMORY_MAP_FAILURE
  | SGX_ERROR_INVALID_FUNCTION
  | SGX_ERROR_OUT_OF_TCS
  | SGX_ERROR_ENCLAVE_CRASHED
  | SGX_ERROR_ECALL_NOT_ALLOWED
  | SGX_ERROR_OCALL_NOT_ALLOWED
  | SGX_ERROR_STACK_OVERRUN
  | SGX_ERROR_UNDEFINED_SYMBOL
  | SGX_ERROR_INVALID_ENCLAVE
  | SGX_ERROR_INVALID_ENCLAVE_ID
  | SGX_ERROR_INVALID_SIGNATURE
  | SGX_ERROR_NDEBUG_ENCLAVE
  | SGX_ERROR_OUT_OF_EPC
  | SGX_ERROR_NO_DEVICE
  | SGX_ERROR_MEMORY_MAP_CONFLICT
  | SGX_ERROR_INVALID_METADATA
  | SGX_ERROR_DEVICE_BUSY
  | SGX_ERROR_INVALID_VERSION
  | SGX_ERROR_MODE_INCOMPATIBLE
  | SGX_ERROR_ENCLAVE_FILE_ACCESS
  | SGX_ERROR_INVALID_MISC
  | SGX_ERROR_INVALID_LAUNCH_TOKEN
  | SGX_ERROR_MAC_MISMATCH
  | SGX_ERROR_INVALID_ATTRIBUTE
  | SGX_ERROR_INVALID_CPUSVN
  | SGX_ERROR_INVALID_ISVSVN
  | SGX_ERROR_INVALID_KEYNAME
  | SGX_ERROR_SERVICE_UNAVAILABLE
  | SGX_ERROR_SERVICE_TIMEOUT
  | SGX_ERROR_AE_INVALID_EPIDBLOB
  | SGX_ERROR_SERVICE_INVALID_PRIVILEGE
  | SGX_ERROR_EPID_MEMBER_REVOKED
  | SGX_ERROR_UPDATE_NEEDED
  | SGX_ERROR_NETWORK_FAILURE
  | SGX_ERROR_AE_SESSION_INVALID
  | SGX_ERROR_BUSY
  | SGX_ERROR_MC_NOT_FOUND
  | SGX_ERROR_MC_NO_ACCESS_RIGHT
  | SGX_ERROR_MC_USED_UP
  | SGX_ERROR_MC_OVER_QUOTA
  | SGX_ERROR_KDF_MISMATCH
  | SGX_ERROR_UNRECOGNIZED_PLATFORM
  | SGX_ERROR_UNSUPPORTED_CONFIG
  | SGX_ERROR_NO_PRIVILEGE
  | SGX_ERROR_PCL_ENCRYPTED
  | SGX_ERROR_PCL_NOT_ENCRYPTED
  | SGX_ERROR_PCL_MAC_MISMATCH
  | SGX_ERROR_PCL_SHA_MISMATCH
  | SGX_ERROR_PCL_GUID_MISMATCH
  | SGX_ERROR_FILE_BAD_STATUS
  | SGX_ERROR_FILE_NO_KEY_ID
  | SGX_ERROR_FILE_NAME_MISMATCH
  | SGX_ERROR_FILE_NOT_SGX_FILE
  | SGX_ERROR_FILE_CANT_OPEN_RECOVERY_FILE
  | SGX_ERROR_FILE_CANT_WRITE_RECOVERY_FILE
  | SGX_ERROR_FILE_RECOVERY_NEEDED
  | SGX_ERROR_FILE_FLUSH_FAILED
  | SGX_ERROR_FILE_CLOSE_FAILED
  | SGX_ERROR_UNSUPPORTED_ATT_KEY_ID
  | SGX_ERROR_ATT_KEY_CERTIFICATION_FAILURE
  | SGX_ERROR_ATT_KEY_UNINITIALIZED
  | SGX_ERROR_INVALID_ATT_KEY_CERT_DATA
  | SGX_ERROR_PLATFORM_CERT_UNAVAILABLE
  | SGX_INTERNAL_ERROR_ENCLAVE_CREATE_INTERRUPTED
  | SGX_ERROR_WASM_BUFFER_TOO_SHORT
  | SGX_ERROR_WASM_INTERPRETER_ERROR
  | SGX_ERROR_WASM_LOAD_MODULE_ERROR
  | SGX_ERROR_WASM_TRY_LOAD_ERROR
  | SGX_ERROR_WASM_REGISTER_ERROR
  | SGX_ERROR_FAAS_BUFFER_TOO_SHORT
  | SGX_ERROR_FAAS_INTERNAL_ERROR

text \<open>\<open>sgx_status_t::from_key\<close>, the numeric value of a variant (macros.rs, \<open>impl_enum!\<close>).\<close>

primrec from_key :: "sgx_status_t \<Rightarrow> u32" where
  "from_key SGX_SUCCESS = 0x0"
| "from_key SGX_ERROR_UNEXPECTED = 0x1"
| "from_key SGX_ERROR_INVALID_PARAMETER = 0x2"
| "from_key SGX_ERROR_OUT_OF_MEMORY = 0x3"
| "from_key SGX_ERROR_ENCLAVE_LOST = 0x4"
| "from_key SGX_ERROR_INVALID_STATE = 0x5"
| "from_key SGX_ERROR_FEATURE_NOT_SUPPORTED = 0x8"
| "from_key SGX_PTHREAD_EXIT = 0x9"
| "from_key SGX_ERROR_MEMORY_MAP_FAILURE = 0xA"
| "from_key SGX_ERROR_INVALID_FUNCTION = 0x1001"
| "from_key SGX_ERROR_OUT_OF_TCS = 0x1003"
| "from_key SGX_ERROR_ENCLAVE_CRASHED = 0x1006"
| "from_key SGX_ERROR_ECALL_NOT_ALLOWED = 0x1007"
| "from_key SGX_ERROR_OCALL_NOT_ALLOWED = 0x1008"
| "from_key SGX_ERROR_STACK_OVERRUN = 0x1009"
| "from_key SGX_ERROR_UNDEFINED_SYMBOL = 0x2000"
| "from_key SGX_ERROR_INVALID_ENCLAVE = 0x2001"
| "from_key SGX_ERROR_INVALID_ENCLAVE_ID = 0x2002"
| "from_key SGX_ERROR_INVALID_SIGNATURE = 0x2003"
| "from_key SGX_ERROR_NDEBUG_ENCLAVE = 0x2004"
| "from_key SGX_ERROR_OUT_OF_EPC = 0x2005"
| "from_key SGX_ERROR_NO_DEVICE = 0x2006"
| "from_key SGX_ERROR_MEMORY_MAP_CONFLICT = 0x2007"
| "from_key SGX_ERROR_INVALID_METADATA = 0x2009"
| "from_key SGX_ERROR_DEVICE_BUSY = 0x200C"
| "from_key SGX_ERROR_INVALID_VERSION = 0x200D"
| "from_key SGX_ERROR_MODE_INCOMPATIBLE = 0x200E"
| "from_key SGX_ERROR_ENCLAVE_FILE_ACCESS = 0x200F"
| "from_key SGX_ERROR_INVALID_MISC = 0x2010"
| "from_key SGX_ERROR_INVALID_LAUNCH_TOKEN = 0x2011"
| "from_key SGX_ERROR_MAC_MISMATCH = 0x3001"
| "from_key SGX_ERROR_INVALID_ATTRIBUTE = 0x3002"
| "from_key SGX_ERROR_INVALID_CPUSVN = 0x3003"
| "from_key SGX_ERROR_INVALID_ISVSVN = 0x3004"
| "from_key SGX_ERROR_INVALID_KEYNAME = 0x3005"
| "from_key SGX_ERROR_SERVICE_UNAVAILABLE = 0x4001"
| "from_key SGX_ERROR_SERVICE_TIMEOUT = 0x4002"
| "from_key SGX_ERROR_AE_INVALID_EPIDBLOB = 0x4003"
| "from_key SGX_ERROR_SERVICE_INVALID_PRIVILEGE = 0x4004"
| "from_key SGX_ERROR_EPID_MEMBER_REVOKED = 0x4005"
| "from_key SGX_ERROR_UPDATE_NEEDED = 0x4006"
| "from_key SGX_ERROR_NETWORK_FAILURE = 0x4007"
| "from_key SGX_ERROR_AE_SESSION_INVALID = 0x4008"
| "from_key SGX_ERROR_BUSY = 0x400A"
| "from_key SGX_ERROR_MC_NOT_FOUND = 0x400C"
| "from_key SGX_ERROR_MC_NO_ACCESS_RIGHT = 0x400D"
| "from_key SGX_ERROR_MC_USED_UP = 0x400E"
| "from_key SGX_ERROR_MC_OVER_QUOTA = 0x400F"
| "from_key SGX_ERROR_KDF_MISMATCH = 0x4011"
| "from_key SGX_ERROR_UNRECOGNIZED_PLATFORM = 0x4012"
| "from_key SGX_ERROR_UNSUPPORTED_CONFIG = 0x4013"
| "from_key SGX_ERROR_NO_PRIVILEGE = 0x5002"
| "from_key SGX_ERROR_PCL_ENCRYPTED = 0x6001"
| "from_key SGX_ERROR_PCL_NOT_ENCRYPTED = 0x6002"
| "from_key SGX_ERROR_PCL_MAC_MISMATCH = 0x6003"
| "from_key SGX_ERROR_PCL_SHA_MISMATCH = 0x6004"
| "from_key SGX_ERROR_PCL_GUID_MISMATCH = 0x6005"
| "from_key SGX_ERROR_FILE_BAD_STATUS = 0x7001"
| "from_key SGX_ERROR_FILE_NO_KEY_ID = 0x7002"
| "from_key SGX_ERROR_FILE_NAME_MISMATCH = 0x7003"
| "from_key SGX_ERROR_FILE_NOT_SGX_FILE = 0x7004"
| "from_key SGX_ERROR_FILE_CANT_OPEN_RECOVERY_FILE = 0x7005"
| "from_key SGX_ERROR_FILE_CANT_WRITE_RECOVERY_FILE = 0x7006"
| "from_key SGX_ERROR_FILE_RECOVERY_NEEDED = 0x7007"
| "from_key SGX_ERROR_FILE_FLUSH_FAILED = 0x7008"
| "from_key SGX_ERROR_FILE_CLOSE_FAILED = 0x7009"
| "from_key SGX_ERROR_UNSUPPORTED_ATT_KEY_ID = 0x8001"
| "from_key SGX_ERROR_ATT_KEY_CERTIFICATION_FAILURE = 0x8002"
| "from_key SGX_ERROR_ATT_KEY_UNINITIALIZED = 0x8003"
| "from_key SGX_ERROR_INVALID_ATT_KEY_CERT_DATA = 0x8004"
| "from_key SGX_ERROR_PLATFORM_CERT_UNAVAILABLE = 0x8005"
| "from_key SGX_INTERNAL_ERROR_ENCLAVE_CREATE_INTERRUPTED = 0xF001"
| "from_key SGX_ERROR_WASM_BUFFER_TOO_SHORT = 0xF00F001"
| "from_key SGX_ERROR_WASM_INTERPRETER_ERROR = 0xF00F002"
| "from_key SGX_ERROR_WASM_LOAD_MODULE_ERROR = 0xF00F003"
| "from_key SGX_ERROR_WASM_TRY_LOAD_ERROR = 0xF00F004"
| "from_key SGX_ERROR_WASM_REGISTER_ERROR = 0xF00F005"
| "from_key SGX_ERROR_FAAS_BUFFER_TOO_SHORT = 0xF00E001"
| "from_key SGX_ERROR_FAAS_INTERNAL_ERROR = 0xF00E002"

text \<open>
  \<open>sgx_status_t::from_repr\<close>: the generated \<open>match\<close> tests the codes from top to bottom, so it is a
  lookup in the list of its arms.
\<close>

definition status_arms :: "(u32 \<times> sgx_status_t) list" where
  "status_arms = [
     (0x0, SGX_SUCCESS),
     (0x1, SGX_ERROR_UNEXPECTED),
     (0x2, SGX_ERROR_INVALID_PARAMETER),
     (0x3, SGX_ERROR_OUT_OF_MEMORY),
     (0x4, SGX_ERROR_ENCLAVE_LOST),
     (0x5, SGX_ERROR_INVALID_STATE),
     (0x8, SGX_ERROR_FEATURE_NOT_SUPPORTED),
     (0x9, SGX_PTHREAD_EXIT),
     (0xA, SGX_ERROR_MEMORY_MAP_FAILURE),
     (0x1001, SGX_ERROR_INVALID_FUNCTION),
     (0x1003, SGX_ERROR_OUT_OF_TCS),
     (0x1006, SGX_ERROR_ENCLAVE_CRASHED),
     (0x1007, SGX_ERROR_ECALL_NOT_ALLOWED),
     (0x1008, SGX_ERROR_OCALL_NOT_ALLOWED),
     (0x1009, SGX_ERROR_STACK_OVERRUN),
     (0x2000, SGX_ERROR_UNDEFINED_SYMBOL),
     (0x2001, SGX_ERROR_INVALID_ENCLAVE),
     (0x2002, SGX_ERROR_INVALID_ENCLAVE_ID),
     (0x2003, SGX_ERROR_INVALID_SIGNATURE),
     (0x2004, SGX_ERROR_NDEBUG_ENCLAVE),
     (0x2005, SGX_ERROR_OUT_OF_EPC),
     (0x2006, SGX_ERROR_NO_DEVICE),
     (0x2007, SGX_ERROR_MEMORY_MAP_CONFLICT),
     (0x2009, SGX_ERROR_INVALID_METADATA),
     (0x200C, SGX_ERROR_DEVICE_BUSY),
     (0x200D, SGX_ERROR_INVALID_VERSION),
     (0x200E, SGX_ERROR_MODE_INCOMPATIBLE),
     (0x200F, SGX_ERROR_ENCLAVE_FILE_ACCESS),
     (0x2010, SGX_ERROR_INVALID_MISC),
     (0x2011, SGX_ERROR_INVALID_LAUNCH_TOKEN),
     (0x3001, SGX_ERROR_MAC_MISMATCH),
     (0x3002, SGX_ERROR_INVALID_ATTRIBUTE),
     (0x3003, SGX_ERROR_INVALID_CPUSVN),
     (0x3004, SGX_ERROR_INVALID_ISVSVN),
     (0x3005, SGX_ERROR_INVALID_KEYNAME),
     (0x4001, SGX_ERROR_SERVICE_UNAVAILABLE),
     (0x4002, SGX_ERROR_SERVICE_TIMEOUT),
     (0x4003, SGX_ERROR_AE_INVALID_EPIDBLOB),
     (0x4004, SGX_ERROR_SERVICE_INVALID_PRIVILEGE),
     (0x4005, SGX_ERROR_EPID_MEMBER_REVOKED),
     (0x4006, SGX_ERROR_UPDATE_NEEDED),
     (0x4007, SGX_ERROR_NETWORK_FAILURE),
     (0x4008, SGX_ERROR_AE_SESSION_INVALID),
     (0x400A, SGX_ERROR_BUSY),
     (0x400C, SGX_ERROR_MC_NOT_FOUND),
     (0x400D, SGX_ERROR_MC_NO_ACCESS_RIGHT),
     (0x400E, SGX_ERROR_MC_USED_UP),
     (0x400F, SGX_ERROR_MC_OVER_QUOTA),
     (0x4011, SGX_ERROR_KDF_MISMATCH),
     (0x4012, SGX_ERROR_UNRECOGNIZED_PLATFORM),
     (0x4013, SGX_ERROR_UNSUPPORTED_CONFIG),
     (0x5002, SGX_ERROR_NO_PRIVILEGE),
     (0x6001, SGX_ERROR_PCL_ENCRYPTED),
     (0x6002, SGX_ERROR_PCL_NOT_ENCRYPTED),
     (0x6003, SGX_ERROR_PCL_MAC_MISMATCH),
     (0x6004, SGX_ERROR_PCL_SHA_MISMATCH),
     (0x6005, SGX_ERROR_PCL_GUID_MISMATCH),
     (0x7001, SGX_ERROR_FILE_BAD_STATUS),
     (0x7002, SGX_ERROR_FILE_NO_KEY_ID),
     (0x7003, SGX_ERROR_FILE_NAME_MISMATCH),
     (0x7004, SGX_ERROR_FILE_NOT_SGX_FILE),
     (0x7005, SGX_ERROR_FILE_CANT_OPEN_RECOVERY_FILE),
     (0x7006, SGX_ERROR_FILE_CANT_WRITE_RECOVERY_FILE),
     (0x7007, SGX_ERROR_FILE_RECOVERY_NEEDED),
     (0x7008, SGX_ERROR_FILE_FLUSH_FAILED),
     (0x7009, SGX_ERROR_FILE_CLOSE_FAILED),
     (0x8001, SGX_ERROR_UNSUPPORTED_ATT_KEY_ID),
     (0x8002, SGX_ERROR_ATT_KEY_CERTIFICATION_FAILURE),
     (0x8003, SGX_ERROR_ATT_KEY_UNINITIALIZED),
     (0x8004, SGX_ERROR_INVALID_ATT_KEY_CERT_DATA),
     (0x8005, SGX_ERROR_PLATFORM_CERT_UNAVAILABLE),
     (0xF001, SGX_INTERNAL_ERROR_ENCLAVE_CREATE_INTERRUPTED),
     (0xF00F001, SGX_ERROR_WASM_BUFFER_TOO_SHORT),
     (0xF00F002, SGX_ERROR_WASM_INTERPRETER_ERROR),
     (0xF00F003, SGX_ERROR_WASM_LOAD_MODULE_ERROR),
     (0xF00F004, SGX_ERROR_WASM_TRY_LOAD_ERROR),
     (0xF00F005, SGX_ERROR_WASM_REGISTER_ERROR),
     (0xF00E001, SGX_ERROR_FAAS_BUFFER_TOO_SHORT),
     (0xF00E002, SGX_ERROR_FAAS_INTERNAL_ERROR)]"

definition from_repr :: "u32 \<Rightarrow> sgx_status_t option" where
  "from_repr v = map_of status_arms v"

type_synonym 'a SgxResult = "sgx_status_t + 'a"
type_synonym SgxError = "sgx_status_t + unit"

text \<open>
  The idiom that ends every wrapper of a C function: \<open>match ret { SGX_SUCCESS => Ok(v), _ => Err(ret) }\<close>.
\<close>

definition sgx_result :: "sgx_status_t \<Rightarrow> 'a \<Rightarrow> 'a SgxResult" where
  "sgx_result ret v = (if ret = SGX_SUCCESS then Inr v else Inl ret)"

lemma sgx_result_Inr_iff [simp]: "sgx_result ret v = Inr w \<longleftrightarrow> ret = SGX_SUCCESS \<and> v = w"
  by (simp add: sgx_result_def)

lemma sgx_result_Inl_iff [simp]: "sgx_result ret v = Inl e \<longleftrightarrow> ret = e \<and> e \<noteq> SGX_SUCCESS"
  by (auto simp: sgx_result_def)

lemma sgx_result_success [simp]: "sgx_result SGX_SUCCESS v = Inr v"
  by (simp add: sgx_result_def)

lemma status_arms_key: "list_all (\<lambda>(v, e). from_key e = v) status_arms"
  by (simp add: status_arms_def)

lemma status_arms_all: "list_all P (map snd status_arms) \<Longrightarrow> P e"
  by (cases e) (simp_all add: status_arms_def)

lemma status_arms_complete: "e \<in> snd ` set status_arms"
  by (rule status_arms_all) (auto simp: list_all_iff)

lemma status_codes_ascending:
  "successively (<) (map fst (take 72 status_arms @ drop 77 status_arms @ take 5 (drop 72 status_arms)))"
  by (simp add: status_arms_def)

lemma status_arms_distinct: "distinct (map fst status_arms)"
proof -
  have split: "status_arms = take 72 status_arms @ take 5 (drop 72 status_arms) @ drop 77 status_arms"
    using append_take_drop_id [of 5 "drop 72 status_arms"] by simp
  have "sorted_wrt (<) (map fst (take 72 status_arms @ drop 77 status_arms @ take 5 (drop 72 status_arms)))"
    using status_codes_ascending by (simp add: successively_iff_sorted_wrt_strong)
  then have "distinct (map fst (take 72 status_arms @ drop 77 status_arms @ take 5 (drop 72 status_arms)))"
    using strict_sorted_iff by blast
  then show ?thesis
    by (subst split) (auto simp: distinct_append)
qed

text \<open>
  The two conversions of \<open>sgx_status_t\<close> are inverse to each other: every status survives the
  trip through its number, and a number that is accepted is the number of the status it gives.
\<close>

theorem status_repr_roundtrip:
  "from_repr (from_key e) = Some e \<and> (from_repr v = Some e \<longleftrightarrow> from_key e = v)"
proof -
  have key: "from_key e' = v'" if "(v', e') \<in> set status_arms" for v' e'
    using status_arms_key that by (auto simp: list_all_iff)
  have mem: "(from_key e, e) \<in> set status_arms"
    using status_arms_complete [of e] key by force
  then have fwd: "from_repr (from_key e) = Some e"
    by (simp add: from_repr_def status_arms_distinct)
  have "from_key e = v" if "from_repr v = Some e"
    using that key by (auto simp: from_repr_def dest: map_of_SomeD)
  with fwd show ?thesis by auto
qed

section \<open>Key requests, reports and the sealed-data header\<close>

text \<open>
  Fixed-size byte arrays are byte lists; the \<open>wf_\<close> predicates fix their lengths, as the Rust types
  do.  Field names carry a prefix of their struct where two structs share a name.
\<close>

record sgx_attributes_t =
  attr_flags :: u64
  attr_xfrm :: u64

record sgx_key_request_t =
  key_name :: u16
  key_policy :: u16
  kr_isv_svn :: u16
  kr_reserved1 :: u16
  kr_cpu_svn :: bytes
  attribute_mask :: sgx_attributes_t
  kr_key_id :: bytes
  misc_mask :: u32
  kr_config_svn :: u16
  kr_reserved2 :: bytes

record sgx_report_body_t =
  rb_cpu_svn :: bytes
  rb_misc_select :: u32
  rb_reserved1 :: bytes
  rb_isv_ext_prod_id :: bytes
  rb_attributes :: sgx_attributes_t
  rb_mr_enclave :: bytes
  rb_reserved2 :: bytes
  rb_mr_signer :: bytes
  rb_reserved3 :: bytes
  rb_config_id :: bytes
  rb_isv_prod_id :: u16
  rb_isv_svn :: u16
  rb_config_svn :: u16
  rb_reserved4 :: bytes
  rb_isv_family_id :: bytes
  rb_report_data :: bytes

record sgx_report_t =
  report_body :: sgx_report_body_t
  report_key_id :: bytes
  report_mac :: bytes

definition SGX_KEYSELECT_SEAL :: u16 where "SGX_KEYSELECT_SEAL = 0x0004"
definition SGX_KEYPOLICY_MRENCLAVE :: u16 where "SGX_KEYPOLICY_MRENCLAVE = 0x0001"
definition SGX_KEYPOLICY_MRSIGNER :: u16 where "SGX_KEYPOLICY_MRSIGNER = 0x0002"
definition SGX_KEYPOLICY_NOISVPRODID :: u16 where "SGX_KEYPOLICY_NOISVPRODID = 0x0004"
definition SGX_KEYPOLICY_CONFIGID :: u16 where "SGX_KEYPOLICY_CONFIGID = 0x0008"
definition SGX_KEYPOLICY_ISVFAMILYID :: u16 where "SGX_KEYPOLICY_ISVFAMILYID = 0x0010"
definition SGX_KEYPOLICY_ISVEXTPRODID :: u16 where "SGX_KEYPOLICY_ISVEXTPRODID = 0x0020"

definition SGX_FLAGS_INITTED :: u64 where "SGX_FLAGS_INITTED = 0x01"
definition SGX_FLAGS_DEBUG :: u64 where "SGX_FLAGS_DEBUG = 0x02"
definition SGX_FLAGS_MODE64BIT :: u64 where "SGX_FLAGS_MODE64BIT = 0x04"
definition SGX_FLAGS_PROVISION_KEY :: u64 where "SGX_FLAGS_PROVISION_KEY = 0x10"
definition SGX_FLAGS_EINITTOKEN_KEY :: u64 where "SGX_FLAGS_EINITTOKEN_KEY = 0x20"
definition SGX_FLAGS_KSS :: u64 where "SGX_FLAGS_KSS = 0x80"

definition FLAGS_NON_SECURITY_BITS :: u64 where
  "FLAGS_NON_SECURITY_BITS = 0x00FFFFFFFFFFFFC0 OR SGX_FLAGS_MODE64BIT
     OR SGX_FLAGS_PROVISION_KEY OR SGX_FLAGS_EINITTOKEN_KEY"

definition TSEAL_DEFAULT_FLAGSMASK :: u64 where
  "TSEAL_DEFAULT_FLAGSMASK = NOT FLAGS_NON_SECURITY_BITS"

definition MISC_NON_SECURITY_BITS :: u32 where
  "MISC_NON_SECURITY_BITS = 0x0FFFFFFF"

definition TSEAL_DEFAULT_MISCMASK :: u32 where
  "TSEAL_DEFAULT_MISCMASK = NOT MISC_NON_SECURITY_BITS"

lemmas key_policy_defs = SGX_KEYPOLICY_MRENCLAVE_def SGX_KEYPOLICY_MRSIGNER_def
  SGX_KEYPOLICY_NOISVPRODID_def SGX_KEYPOLICY_CONFIGID_def SGX_KEYPOLICY_ISVFAMILYID_def
  SGX_KEYPOLICY_ISVEXTPRODID_def

lemmas attribute_flag_defs = SGX_FLAGS_INITTED_def SGX_FLAGS_DEBUG_def SGX_FLAGS_MODE64BIT_def
  SGX_FLAGS_PROVISION_KEY_def SGX_FLAGS_EINITTOKEN_KEY_def SGX_FLAGS_KSS_def
  FLAGS_NON_SECURITY_BITS_def TSEAL_DEFAULT_FLAGSMASK_def

abbreviation SGX_SEAL_TAG_SIZE :: nat where "SGX_SEAL_TAG_SIZE \<equiv> 16"
abbreviation SGX_SEAL_IV_SIZE :: nat where "SGX_SEAL_IV_SIZE \<equiv> 12"
abbreviation SGX_AESGCM_IV_SIZE :: nat where "SGX_AESGCM_IV_SIZE \<equiv> 12"

subsection \<open>Byte image of a key request\<close>

definition wf_key_request :: "sgx_key_request_t \<Rightarrow> bool" where
  "wf_key_request k \<longleftrightarrow> length (kr_cpu_svn k) = 16 \<and> length (kr_key_id k) = 32
     \<and> length (kr_reserved2 k) = 434"

definition bytes_of_key_request :: "sgx_key_request_t \<Rightarrow> bytes" where
  "bytes_of_key_request k =
     le_bytes 2 (key_name k) @ le_bytes 2 (key_policy k) @ le_bytes 2 (kr_isv_svn k)
     @ le_bytes 2 (kr_reserved1 k) @ kr_cpu_svn k
     @ le_bytes 8 (attr_flags (attribute_mask k)) @ le_bytes 8 (attr_xfrm (attribute_mask k))
     @ kr_key_id k @ le_bytes 4 (misc_mask k) @ le_bytes 2 (kr_config_svn k) @ kr_reserved2 k"

definition key_request_of_bytes :: "bytes \<Rightarrow> sgx_key_request_t" where
  "key_request_of_bytes bs =
     \<lparr> key_name = le_word (read_at 0 2 bs), key_policy = le_word (read_at 2 2 bs),
       kr_isv_svn = le_word (read_at 4 2 bs), kr_reserved1 = le_word (read_at 6 2 bs),
       kr_cpu_svn = read_at 8 16 bs,
       attribute_mask = \<lparr> attr_flags = le_word (read_at 24 8 bs), attr_xfrm = le_word (read_at 32 8 bs) \<rparr>,
       kr_key_id = read_at 40 32 bs, misc_mask = le_word (read_at 72 4 bs),
       kr_config_svn = le_word (read_at 76 2 bs), kr_reserved2 = read_at 78 434 bs \<rparr>"

lemma length_bytes_of_key_request [simp]:
  "wf_key_request k \<Longrightarrow> length (bytes_of_key_request k) = 512"
  by (simp add: wf_key_request_def bytes_of_key_request_def)

lemma key_request_of_bytes_of [simp]:
  "wf_key_request k \<Longrightarrow> key_request_of_bytes (bytes_of_key_request k) = k"
  by (cases k; cases "attribute_mask k")
    (simp add: wf_key_request_def bytes_of_key_request_def key_request_of_bytes_def read_at_def)

lemma wf_key_request_of_bytes:
  "length bs = 512 \<Longrightarrow> wf_key_request (key_request_of_bytes bs)"
  by (simp add: wf_key_request_def key_request_of_bytes_def read_at_def)

end
