(* ===== verification/Io_Error.thy ===== *)
theory Io_Error
  imports Sgx_Types
begin

text \<open>
  \<open>sgx_tstd\<close>, io/error.rs and \<open>decode_error_kind\<close> of sys/mod.rs: the errors of the I/O layer, their kinds,
  and the translation of \<open>errno\<close> numbers of the host to kinds.
\<close>

datatype ErrorKind =
    NotFound | PermissionDenied | ConnectionRefused | ConnectionReset | HostUnreachable
  | NetworkUnreachable | ConnectionAborted | NotConnected | AddrInUse | AddrNotAvailable
  | NetworkDown | BrokenPipe | AlreadyExists | WouldBlock | NotADirectory
  | IsADirectory | DirectoryNotEmpty | ReadOnlyFilesystem | FilesystemLoop | StaleNetworkFileHandle
  | InvalidInput | InvalidData | TimedOut | WriteZero | StorageFull
  | NotSeekable | FilesystemQuotaExceeded | FileTooLarge | ResourceBusy | ExecutableFileBusy
  | Deadlock | CrossesDevices | TooManyLinks | InvalidFilename | ArgumentListTooLong
  | Interrupted | Unsupported | UnexpectedEof | OutOfMemory | Other
  | Uncategorized | SgxError

fun as_str :: "ErrorKind \<Rightarrow> string" where
  "as_str AddrInUse = ''address in use''"
| "as_str AddrNotAvailable = ''address not available''"
| "as_str AlreadyExists = ''entity already exists''"
| "as_str ArgumentListTooLong = ''argument list too long''"
| "as_str BrokenPipe = ''broken pipe''"
| "as_str ConnectionAborted = ''connection aborted''"
| "as_str ConnectionRefused = ''connection refused''"
| "as_str ConnectionReset = ''connection reset''"
| "as_str CrossesDevices = ''cross-device link or rename''"
| "as_str Deadlock = ''deadlock''"
| "as_str DirectoryNotEmpty = ''directory not empty''"
| "as_str ExecutableFileBusy = ''executable file busy''"
| "as_str FileTooLarge = ''file too large''"
| "as_str FilesystemLoop = ''filesystem loop or indirection limit (e.g. symlink loop)''"
| "as_str FilesystemQuotaExceeded = ''filesystem quota exceeded''"
| "as_str HostUnreachable = ''host unreachable''"
| "as_str Interrupted = ''operation interrupted''"
| "as_str InvalidData = ''invalid data''"
| "as_str InvalidFilename = ''invalid filename''"
| "as_str InvalidInput = ''invalid input parameter''"
| "as_str IsADirectory = ''is a directory''"
| "as_str NetworkDown = ''network down''"
| "as_str NetworkUnreachable = ''network unreachable''"
| "as_str NotADirectory = ''not a directory''"
| "as_str NotConnected = ''not connected''"
| "as_str NotFound = ''entity not found''"
| "as_str NotSeekable = ''seek on unseekable file''"
| "as_str Other = ''other error''"
| "as_str OutOfMemory = ''out of memory''"
| "as_str PermissionDenied = ''permission denied''"
| "as_str ReadOnlyFilesystem = ''read-only filesystem or storage medium''"
| "as_str ResourceBusy = ''resource busy''"
| "as_str StaleNetworkFileHandle = ''stale network file handle''"
| "as_str StorageFull = ''no storage space''"
| "as_str TimedOut = ''timed out''"
| "as_str TooManyLinks = ''too many links''"
| "as_str Uncategorized = ''uncategorized error''"
| "as_str UnexpectedEof = ''unexpected end of file''"
| "as_str Unsupported = ''unsupported''"
| "as_str WouldBlock = ''operation would block''"
| "as_str WriteZero = ''write zero''"
| "as_str SgxError = ''Sgx error status''"

text \<open>
  \<open>ErrorData\<close> with the constructors of the source.  The payload of a custom error is a boxed trait
  object; its text stands for it.
\<close>

datatype io_error =
    Os int
  | Simple ErrorKind
  | SimpleMessage ErrorKind string
  | Custom ErrorKind string
  | SgxStatus sgx_status_t

text \<open>The arms of the match of \<open>decode_error_kind\<close> with the numbers of the \<open>libc\<close> constants.\<close>

definition errno_arms :: "(int \<times> ErrorKind) list" where
  "errno_arms =
     [(7, ArgumentListTooLong), (98, AddrInUse), (99, AddrNotAvailable),
      (16, ResourceBusy), (103, ConnectionAborted), (111, ConnectionRefused),
      (104, ConnectionReset), (35, Deadlock), (122, FilesystemQuotaExceeded),
      (17, AlreadyExists), (27, FileTooLarge), (113, HostUnreachable),
      (4, Interrupted), (22, InvalidInput), (21, IsADirectory),
      (40, FilesystemLoop), (2, NotFound), (12, OutOfMemory),
      (28, StorageFull), (38, Unsupported), (31, TooManyLinks),
      (36, InvalidFilename), (100, NetworkDown), (101, NetworkUnreachable),
      (107, NotConnected), (20, NotADirectory), (39, DirectoryNotEmpty),
      (32, BrokenPipe), (30, ReadOnlyFilesystem), (29, NotSeekable),
      (116, StaleNetworkFileHandle), (110, TimedOut), (26, ExecutableFileBusy),
      (18, CrossesDevices),
      (13, PermissionDenied), (1, PermissionDenied), (11, WouldBlock)]"

definition decode_error_kind :: "int \<Rightarrow> ErrorKind" where
  "decode_error_kind errno = (case map_of errno_arms errno of Some k \<Rightarrow> k | None \<Rightarrow> Uncategorized)"

fun kind :: "io_error \<Rightarrow> ErrorKind" where
  "kind (Os code) = decode_error_kind code"
| "kind (Custom k _) = k"
| "kind (Simple k) = k"
| "kind (SimpleMessage k _) = k"
| "kind (SgxStatus _) = SgxError"

definition const_io_error :: "ErrorKind \<Rightarrow> string \<Rightarrow> io_error" where
  "const_io_error k message = SimpleMessage k message"

definition Error_new :: "ErrorKind \<Rightarrow> string \<Rightarrow> io_error" where
  "Error_new k error = Custom k error"

definition Error_other :: "string \<Rightarrow> io_error" where
  "Error_other error = Custom Other error"

definition from_raw_os_error :: "int \<Rightarrow> io_error" where
  "from_raw_os_error code = Os code"

fun raw_os_error :: "io_error \<Rightarrow> int option" where
  "raw_os_error (Os i) = Some i"
| "raw_os_error (Custom _ _) = None"
| "raw_os_error (Simple _) = None"
| "raw_os_error (SimpleMessage _ _) = None"
| "raw_os_error (SgxStatus _) = None"

definition from_sgx_error :: "sgx_status_t \<Rightarrow> io_error" where
  "from_sgx_error status = SgxStatus status"

fun raw_sgx_error :: "io_error \<Rightarrow> sgx_status_t option" where
  "raw_sgx_error (Os _) = None"
| "raw_sgx_error (Custom _ _) = None"
| "raw_sgx_error (Simple _) = None"
| "raw_sgx_error (SimpleMessage _ _) = None"
| "raw_sgx_error (SgxStatus status) = Some status"

text \<open>\<open>Err(ref e) if e.kind() == ErrorKind::Interrupted\<close>, the guard of every retry loop.\<close>

abbreviation interrupted :: "io_error \<Rightarrow> bool" where
  "interrupted e \<equiv> kind e = Interrupted"

lemma kind_const_io_error [simp]: "kind (const_io_error k m) = k"
  by (simp add: const_io_error_def)

text \<open>Among the numbers of the host only \<open>EINTR\<close> counts as an interruption, so only it is retried.\<close>

lemma interrupted_os_iff: "interrupted (Os code) \<longleftrightarrow> code = 4"
  by (auto simp: decode_error_kind_def errno_arms_def)

end
