(* ===== verification/Io_Readbuf.thy ===== *)
theory Io_Readbuf
  imports Sgx_Prelude
begin

text \<open>
  \<open>sgx_tstd\<close>, io/readbuf.rs: \<open>ReadBuf\<close>, a byte buffer of which a prefix is filled and a longer prefix is
  initialised.  A byte of the buffer is \<open>None\<close> while it is uninitialised memory.  A failed assertion is
  \<open>None\<close>; handing out a slice that holds an uninitialised byte, which is undefined behaviour in Rust, is
  \<open>None\<close> as well.
\<close>

abbreviation USIZE :: nat where
  "USIZE \<equiv> 18446744073709551616"

record read_buf =
  rb_buf :: "u8 option list"
  rb_filled :: nat
  rb_initialized :: nat

definition ReadBuf_new :: "bytes \<Rightarrow> read_buf" where
  "ReadBuf_new buf = \<lparr>rb_buf = map Some buf, rb_filled = 0, rb_initialized = length buf\<rparr>"

definition ReadBuf_uninit :: "u8 option list \<Rightarrow> read_buf" where
  "ReadBuf_uninit buf = \<lparr>rb_buf = buf, rb_filled = 0, rb_initialized = 0\<rparr>"

definition rb_capacity :: "read_buf \<Rightarrow> nat" where
  "rb_capacity rb = length (rb_buf rb)"

definition filled :: "read_buf \<Rightarrow> bytes option" where
  "filled rb = those (take (rb_filled rb) (rb_buf rb))"

definition initialized :: "read_buf \<Rightarrow> bytes option" where
  "initialized rb = those (take (rb_initialized rb) (rb_buf rb))"

definition unfilled_mut :: "read_buf \<Rightarrow> u8 option list" where
  "unfilled_mut rb = drop (rb_filled rb) (rb_buf rb)"

definition uninitialized_mut :: "read_buf \<Rightarrow> u8 option list" where
  "uninitialized_mut rb = drop (rb_initialized rb) (rb_buf rb)"

definition remaining :: "read_buf \<Rightarrow> nat" where
  "remaining rb = rb_capacity rb - rb_filled rb"

definition set_filled :: "nat \<Rightarrow> read_buf \<Rightarrow> read_buf option" where
  "set_filled n rb = (if n \<le> rb_initialized rb then Some (rb\<lparr>rb_filled := n\<rparr>) else None)"

definition add_filled :: "nat \<Rightarrow> read_buf \<Rightarrow> read_buf option" where
  "add_filled n rb = set_filled ((rb_filled rb + n) mod USIZE) rb"

definition rb_clear :: "read_buf \<Rightarrow> read_buf option" where
  "rb_clear rb = set_filled 0 rb"

definition assume_init :: "nat \<Rightarrow> read_buf \<Rightarrow> read_buf" where
  "assume_init n rb = rb\<lparr>rb_initialized := max (rb_initialized rb) ((rb_filled rb + n) mod USIZE)\<rparr>"

text \<open>
  \<open>initialize_unfilled_to\<close> returns the slice of \<open>n\<close> bytes behind the filled part.  The caller writes
  through it: \<open>store_unfilled\<close> puts the bytes the slice holds afterwards back into the buffer.
\<close>

definition initialize_unfilled_to :: "nat \<Rightarrow> read_buf \<Rightarrow> (bytes \<times> read_buf) option" where
  "initialize_unfilled_to n rb =
     (if remaining rb < n then None
      else
        let extra_init = rb_initialized rb - rb_filled rb;
            rb' = (if n > extra_init then
                     let uninit = n - extra_init
                     in assume_init n (rb\<lparr>rb_buf := take (rb_initialized rb) (rb_buf rb) @ replicate uninit (Some 0)
                                             @ drop (rb_initialized rb + uninit) (rb_buf rb)\<rparr>)
                   else rb)
        in case initialized rb' of
             None \<Rightarrow> None
           | Some bs \<Rightarrow> Some (take n (drop (rb_filled rb) bs), rb'))"

definition initialize_unfilled :: "read_buf \<Rightarrow> (bytes \<times> read_buf) option" where
  "initialize_unfilled rb = initialize_unfilled_to (remaining rb) rb"

definition store_unfilled :: "bytes \<Rightarrow> read_buf \<Rightarrow> read_buf" where
  "store_unfilled bs rb =
     rb\<lparr>rb_buf := take (rb_filled rb) (rb_buf rb) @ map Some bs @ drop (rb_filled rb + length bs) (rb_buf rb)\<rparr>"

definition rb_append :: "bytes \<Rightarrow> read_buf \<Rightarrow> read_buf option" where
  "rb_append bs rb =
     (if remaining rb < length bs then None
      else add_filled (length bs) (assume_init (length bs) (store_unfilled bs rb)))"

section \<open>The invariant\<close>

text \<open>
  The filled part is inside the initialised part, which is inside the buffer, and every byte of the
  initialised part has been written.  A buffer is no larger than \<open>isize::MAX\<close>, as every Rust allocation.
\<close>

definition rb_inv :: "read_buf \<Rightarrow> bool" where
  "rb_inv rb \<longleftrightarrow> rb_filled rb \<le> rb_initialized rb \<and> rb_initialized rb \<le> length (rb_buf rb)
     \<and> list_all (\<lambda>b. b \<noteq> None) (take (rb_initialized rb) (rb_buf rb)) \<and> length (rb_buf rb) < USIZE"

text \<open>The bytes of an initialised part.\<close>

lemma those_Some [simp]: "those (map Some bs) = Some bs"
  by (induction bs) auto

lemma those_map_the: "list_all (\<lambda>b. b \<noteq> None) xs \<Longrightarrow> those xs = Some (map the xs)"
  by (induction xs) auto

lemma list_all_take_le: "list_all P (take n xs) \<Longrightarrow> m \<le> n \<Longrightarrow> list_all P (take m xs)"
  by (metis append_take_drop_id list_all_append min.absorb1 take_take)

lemma rb_inv_filled: "rb_inv rb \<Longrightarrow> filled rb = Some (map the (take (rb_filled rb) (rb_buf rb)))"
  unfolding rb_inv_def filled_def by (intro those_map_the) (auto intro: list_all_take_le)

lemma rb_inv_initialized: "rb_inv rb \<Longrightarrow> initialized rb = Some (map the (take (rb_initialized rb) (rb_buf rb)))"
  unfolding rb_inv_def initialized_def by (intro those_map_the) auto

lemma rb_inv_new [simp]: "length buf < USIZE \<Longrightarrow> rb_inv (ReadBuf_new buf)"
  by (simp add: rb_inv_def ReadBuf_new_def list_all_iff)

lemma rb_inv_uninit [simp]: "length buf < USIZE \<Longrightarrow> rb_inv (ReadBuf_uninit buf)"
  by (simp add: rb_inv_def ReadBuf_uninit_def)

lemma rb_inv_set_filled: "rb_inv rb \<Longrightarrow> set_filled n rb = Some rb' \<Longrightarrow> rb_inv rb'"
  by (auto simp: rb_inv_def set_filled_def split: if_splits)

lemma rb_inv_add_filled: "rb_inv rb \<Longrightarrow> add_filled n rb = Some rb' \<Longrightarrow> rb_inv rb'"
  unfolding add_filled_def by (rule rb_inv_set_filled)

lemma rb_inv_bounds:
  assumes "rb_inv rb" "n \<le> remaining rb"
  shows "rb_filled rb + n \<le> length (rb_buf rb)" "(rb_filled rb + n) mod USIZE = rb_filled rb + n"
  using assms by (auto simp: rb_inv_def remaining_def rb_capacity_def)

text \<open>Writing into the part behind the filled bytes.\<close>

lemma store_unfilled_props:
  assumes "rb_inv rb" "length bs \<le> remaining rb"
  defines "rb' \<equiv> store_unfilled bs rb"
  shows "length (rb_buf rb') = length (rb_buf rb)" "rb_filled rb' = rb_filled rb"
    "rb_initialized rb' = rb_initialized rb" "filled rb' = filled rb" "rb_inv rb'"
    "list_all (\<lambda>b. b \<noteq> None) (take (rb_filled rb + length bs) (rb_buf rb'))"
    "take (rb_filled rb + length bs) (rb_buf rb') = take (rb_filled rb) (rb_buf rb) @ map Some bs"
proof -
  note b = rb_inv_bounds [OF assms(1,2)]
  show l: "length (rb_buf rb') = length (rb_buf rb)" and f: "rb_filled rb' = rb_filled rb"
    and i: "rb_initialized rb' = rb_initialized rb" and "filled rb' = filled rb"
    and t: "take (rb_filled rb + length bs) (rb_buf rb') = take (rb_filled rb) (rb_buf rb) @ map Some bs"
    using b by (simp_all add: rb'_def store_unfilled_def filled_def)
  have fl: "list_all (\<lambda>b. b \<noteq> None) (take (rb_filled rb) (rb_buf rb))"
    using assms(1) unfolding rb_inv_def by (auto intro: list_all_take_le)
  then show "list_all (\<lambda>b. b \<noteq> None) (take (rb_filled rb + length bs) (rb_buf rb'))"
    unfolding t by (auto simp: list_all_iff)
  have "list_all (\<lambda>b. b \<noteq> None) (drop (rb_filled rb + length bs) (take (rb_initialized rb) (rb_buf rb)))"
    using assms(1) unfolding rb_inv_def by (metis append_take_drop_id list_all_append)
  moreover have "min (rb_initialized rb) (rb_filled rb) = rb_filled rb"
    "min (length (rb_buf rb)) (rb_filled rb) = rb_filled rb"
    using assms(1) by (auto simp: rb_inv_def)
  ultimately have "list_all (\<lambda>b. b \<noteq> None) (take (rb_initialized rb) (rb_buf rb'))"
    using fl by (auto simp: rb'_def store_unfilled_def take_map list_all_append drop_take list_all_iff
        dest: in_set_takeD in_set_dropD)
  then show "rb_inv rb'" using assms(1) l f i by (simp add: rb_inv_def)
qed

lemma rb_append_ok:
  assumes "rb_inv rb" "length bs \<le> remaining rb" "filled rb = Some old"
  obtains rb' where "rb_append bs rb = Some rb'" "rb_inv rb'" "rb_capacity rb' = rb_capacity rb"
    "filled rb' = Some (old @ bs)" "rb_filled rb' = rb_filled rb + length bs"
proof -
  define st where "st = store_unfilled bs rb"
  note p = store_unfilled_props [OF assms(1,2), folded st_def]
  note b = rb_inv_bounds [OF assms(1,2)]
  define rb' where "rb' = st\<lparr>rb_initialized := max (rb_initialized rb) (rb_filled rb + length bs),
    rb_filled := rb_filled rb + length bs\<rparr>"
  have "rb_append bs rb = Some rb'"
    using assms(2) b p(2,3)
    by (simp add: rb_append_def add_filled_def set_filled_def assume_init_def rb'_def st_def)
  moreover have "rb_inv rb'"
    using assms(1) b p by (auto simp: rb_inv_def rb'_def max_def)
  moreover have "filled rb' = Some (old @ bs)"
    using rb_inv_filled [OF assms(1)] assms(3) p(7) those_map_the [OF p(6)]
    by (simp add: filled_def rb'_def)
  moreover have "rb_capacity rb' = rb_capacity rb" "rb_filled rb' = rb_filled rb + length bs"
    using p(1) by (simp_all add: rb'_def rb_capacity_def)
  ultimately show thesis using that by blast
qed

lemma initialize_unfilled_to_ok:
  assumes "rb_inv rb" "n \<le> remaining rb"
  obtains bs rb' where "initialize_unfilled_to n rb = Some (bs, rb')" "length bs = n" "rb_inv rb'"
    "rb_capacity rb' = rb_capacity rb" "rb_filled rb' = rb_filled rb" "filled rb' = filled rb"
    "rb_filled rb + n \<le> rb_initialized rb'" "rb_initialized rb \<le> rb_initialized rb'"
proof (cases "n > rb_initialized rb - rb_filled rb")
  case True
  note b = rb_inv_bounds [OF assms]
  define u where "u = n - (rb_initialized rb - rb_filled rb)"
  have u: "rb_initialized rb + u = rb_filled rb + n" using True assms(1) by (auto simp: u_def rb_inv_def)
  have le: "rb_initialized rb \<le> rb_filled rb + n" using True by linarith
  define buf where "buf = take (rb_initialized rb) (rb_buf rb) @ replicate u (Some 0)
    @ drop (rb_initialized rb + u) (rb_buf rb)"
  define rb' where "rb' = rb\<lparr>rb_buf := buf, rb_initialized := rb_filled rb + n\<rparr>"
  have l: "length buf = length (rb_buf rb)" using b u by (auto simp: buf_def)
  have t: "take (rb_filled rb + n) buf = take (rb_initialized rb) (rb_buf rb) @ replicate u (Some 0)"
    unfolding buf_def u [symmetric] using b(1) u by simp
  have inv: "rb_inv rb'"
    using assms(1) b l t by (auto simp: rb_inv_def rb'_def list_all_iff)
  moreover have "initialize_unfilled_to n rb = Some (take n (drop (rb_filled rb) (map the (take (rb_filled rb + n) buf))), rb')"
    using assms True b u le rb_inv_initialized [OF inv]
    by (simp add: initialize_unfilled_to_def Let_def assume_init_def rb'_def buf_def u_def max_def)
  moreover have "filled rb' = filled rb"
    using assms(1) by (simp add: filled_def rb'_def buf_def rb_inv_def)
  ultimately show thesis
    using that l b le by (simp add: rb'_def rb_capacity_def)
next
  case False
  have "initialize_unfilled_to n rb =
      Some (take n (drop (rb_filled rb) (map the (take (rb_initialized rb) (rb_buf rb)))), rb)"
    using False assms rb_inv_initialized [OF assms(1)] by (simp add: initialize_unfilled_to_def Let_def)
  moreover have "rb_filled rb + n \<le> rb_initialized rb" "rb_initialized rb \<le> length (rb_buf rb)"
    using False assms(1) unfolding rb_inv_def by linarith+
  ultimately show thesis using that assms(1) by simp
qed

section \<open>Every sequence of safe calls\<close>

text \<open>
  The safe mutating methods.  \<open>Initialize n ws\<close> is \<open>initialize_unfilled_to(n)\<close> by a caller that then writes
  \<open>ws\<close> through the slice it got.
\<close>

datatype rb_call = Clear | Set_filled nat | Add_filled nat | Append bytes | Initialize nat bytes

fun rb_exec :: "rb_call \<Rightarrow> read_buf \<Rightarrow> read_buf option" where
  "rb_exec Clear rb = rb_clear rb"
| "rb_exec (Set_filled n) rb = set_filled n rb"
| "rb_exec (Add_filled n) rb = add_filled n rb"
| "rb_exec (Append bs) rb = rb_append bs rb"
| "rb_exec (Initialize n ws) rb =
     (case initialize_unfilled_to n rb of
        None \<Rightarrow> None
      | Some (bs, rb') \<Rightarrow> Some (store_unfilled (take n (ws @ drop (length ws) bs)) rb'))"

fun rb_run :: "rb_call list \<Rightarrow> read_buf \<Rightarrow> read_buf option" where
  "rb_run [] rb = Some rb"
| "rb_run (c # cs) rb = (case rb_exec c rb of None \<Rightarrow> None | Some rb' \<Rightarrow> rb_run cs rb')"

lemma rb_exec_inv:
  assumes "rb_inv rb" "rb_exec c rb = Some rb'"
  shows "rb_inv rb' \<and> rb_capacity rb' = rb_capacity rb"
proof (cases c)
  case (Append bs)
  then have "length bs \<le> remaining rb" using assms(2) by (simp add: rb_append_def split: if_splits)
  from rb_append_ok [OF assms(1) this rb_inv_filled [OF assms(1)]] show ?thesis
    using assms(2) Append by (metis option.inject rb_exec.simps(4))
next
  case (Initialize n ws)
  then have n: "n \<le> remaining rb" using assms(2)
    by (simp add: initialize_unfilled_to_def split: if_splits)
  obtain bs rbi where i: "initialize_unfilled_to n rb = Some (bs, rbi)" "rb_inv rbi"
    "rb_capacity rbi = rb_capacity rb" "rb_filled rbi = rb_filled rb"
    using initialize_unfilled_to_ok [OF assms(1) n] by blast
  have "length (take n (ws @ drop (length ws) bs)) \<le> remaining rbi"
    using n i by (simp add: remaining_def)
  from store_unfilled_props(1,5) [OF i(2) this] show ?thesis
    using assms(2) Initialize i by (simp add: rb_capacity_def)
qed (use assms in \<open>auto simp: rb_clear_def add_filled_def set_filled_def rb_inv_def rb_capacity_def split: if_splits\<close>)

lemma rb_run_inv: "rb_inv rb \<Longrightarrow> rb_run cs rb = Some rb' \<Longrightarrow> rb_inv rb' \<and> rb_capacity rb' = rb_capacity rb"
proof (induction cs arbitrary: rb)
  case (Cons c cs)
  then obtain rb1 where "rb_exec c rb = Some rb1" "rb_run cs rb1 = Some rb'" by (auto split: option.splits)
  then show ?case using Cons.IH [of rb1] rb_exec_inv [OF Cons.prems(1)] by metis
qed simp



end
