(* ===== verification/Utf8.thy ===== *)
theory Utf8
  imports Sgx_Prelude
begin

text \<open>
  What the sources use of Rust's text types: a \<open>char\<close> is a scalar value held in a \<open>u32\<close>, a \<open>str\<close> is a
  byte string accepted by \<open>core::str::from_utf8\<close>.
\<close>

text \<open>\<open>char::from_u32(c).is_some()\<close>.\<close>

definition char_valid :: "u32 \<Rightarrow> bool" where
  "char_valid c \<longleftrightarrow> c < 0xD800 \<or> 0xE000 \<le> c \<and> c \<le> 0x10FFFF"

definition utf8_cont :: "u8 \<Rightarrow> bool" where
  "utf8_cont b \<longleftrightarrow> 0x80 \<le> b \<and> b \<le> 0xBF"

text \<open>
  \<open>core::str::from_utf8(bs).is_ok()\<close>: the well-formed byte sequences of the Unicode standard.
  \<open>utf8_tail\<close> is the number of bytes that follow a first byte, 4 for a byte that cannot be first;
  \<open>utf8_tail_ok\<close> are the bytes that may follow it.
\<close>

definition utf8_tail :: "u8 \<Rightarrow> nat" where
  "utf8_tail b =
     (if b < 0x80 then 0 else if 0xC2 \<le> b \<and> b \<le> 0xDF then 1 else if 0xE0 \<le> b \<and> b \<le> 0xEF then 2
      else if 0xF0 \<le> b \<and> b \<le> 0xF4 then 3 else 4)"

definition utf8_tail_ok :: "u8 \<Rightarrow> bytes \<Rightarrow> bool" where
  "utf8_tail_ok b cs \<longleftrightarrow> list_all utf8_cont cs
     \<and> (if b = 0xE0 then 0xA0 \<le> hd cs else True) \<and> (if b = 0xED then hd cs \<le> 0x9F else True)
     \<and> (if b = 0xF0 then 0x90 \<le> hd cs else True) \<and> (if b = 0xF4 then hd cs \<le> 0x8F else True)"

fun utf8_valid :: "bytes \<Rightarrow> bool" where
  "utf8_valid [] = True"
| "utf8_valid (b # bs) =
     (let n = utf8_tail b
      in n < 4 \<and> n \<le> length bs \<and> utf8_tail_ok b (take n bs) \<and> utf8_valid (drop n bs))"

lemma utf8_valid_append: "utf8_valid xs \<Longrightarrow> utf8_valid (xs @ ys) = utf8_valid ys"
  by (induction xs rule: utf8_valid.induct) (simp_all add: Let_def)

text \<open>ASCII text is valid.\<close>

lemma utf8_valid_ascii: "\<forall>b \<in> set bs. b < 0x80 \<Longrightarrow> utf8_valid bs"
proof (induction bs)
  case (Cons b bs)
  then have b: "b < 0x80" by simp
  then have "b \<noteq> 0xE0" "b \<noteq> 0xED" "b \<noteq> 0xF0" "b \<noteq> 0xF4" by auto
  then show ?case using Cons b by (simp add: utf8_tail_def utf8_tail_ok_def)
qed simp

end
