(* ===== verification/Io_Core.thy ===== *)
theory Io_Core
  imports Io_Error Io_Readbuf Utf8
begin

text \<open>
  \<open>sgx_tstd\<close>, io/mod.rs: the provided methods of \<open>Read\<close>, \<open>Write\<close>, \<open>BufRead\<close> and \<open>Seek\<close> and the adapters
  \<open>Chain\<close> and \<open>Take\<close>.  A reader, a writer or a buffered reader is the operation its type implements, on
  a state \<open>'s\<close>; the provided methods take that operation as an argument.

  \<open>read\<close> gets the contents of the caller's buffer and returns the new contents.  The result of a method
  that loops is an option: \<open>None\<close> when the call does not come back, because it panics or goes on for ever.
\<close>

type_synonym 's read_op = "bytes \<Rightarrow> 's \<Rightarrow> (io_error + nat) \<times> bytes \<times> 's"
type_synonym 's write_op = "bytes \<Rightarrow> 's \<Rightarrow> (io_error + nat) \<times> 's"
type_synonym 's write_vectored_op = "bytes list \<Rightarrow> 's \<Rightarrow> (io_error + nat) \<times> 's"
type_synonym 's fill_op = "'s \<Rightarrow> (io_error + bytes) \<times> 's"

abbreviation eof_error :: io_error where
  "eof_error \<equiv> const_io_error UnexpectedEof ''failed to fill whole buffer''"

abbreviation write_zero_error :: io_error where
  "write_zero_error \<equiv> const_io_error WriteZero ''failed to write whole buffer''"

section \<open>Write\<close>

partial_function (option) write_all ::
  "'s write_op \<Rightarrow> bytes \<Rightarrow> 's \<Rightarrow> ((io_error + unit) \<times> 's) option" where
  "write_all wr buf s =
     (if buf = [] then Some (Inr (), s)
      else case wr buf s of
             (Inr n, s') \<Rightarrow>
               if n = 0 then Some (Inl write_zero_error, s')
               else if length buf < n then None
               else write_all wr (drop n buf) s'
           | (Inl e, s') \<Rightarrow> if interrupted e then write_all wr buf s' else Some (Inl e, s'))"

definition find_nonempty :: "bytes list \<Rightarrow> bytes" where
  "find_nonempty bufs = (case filter (\<lambda>b. b \<noteq> []) bufs of [] \<Rightarrow> [] | b # _ \<Rightarrow> b)"

definition default_write_vectored :: "'s write_op \<Rightarrow> 's write_vectored_op" where
  "default_write_vectored wr bufs s = wr (find_nonempty bufs) s"

text \<open>\<open>IoSlice::advance_slices\<close>: how many slices are used up by \<open>n\<close> bytes, and their length.\<close>

fun advance_count :: "bytes list \<Rightarrow> nat \<Rightarrow> nat \<Rightarrow> nat \<Rightarrow> nat \<times> nat" where
  "advance_count [] n remove accumulated_len = (remove, accumulated_len)"
| "advance_count (buf # bufs) n remove accumulated_len =
     (if accumulated_len + length buf > n then (remove, accumulated_len)
      else advance_count bufs n (remove + 1) (accumulated_len + length buf))"

definition advance_slices :: "bytes list \<Rightarrow> nat \<Rightarrow> bytes list option" where
  "advance_slices bufs n =
     (let (remove, accumulated_len) = advance_count bufs n 0 0
      in case drop remove bufs of
           [] \<Rightarrow> Some []
         | b # bs \<Rightarrow> if length b < n - accumulated_len then None
                    else Some (drop (n - accumulated_len) b # bs))"

partial_function (option) write_all_vectored_loop ::
  "'s write_vectored_op \<Rightarrow> bytes list \<Rightarrow> 's \<Rightarrow> ((io_error + unit) \<times> 's) option" where
  "write_all_vectored_loop wv bufs s =
     (if bufs = [] then Some (Inr (), s)
      else case wv bufs s of
             (Inr n, s') \<Rightarrow>
               if n = 0 then Some (Inl write_zero_error, s')
               else (case advance_slices bufs n of
                       None \<Rightarrow> None
                     | Some bufs' \<Rightarrow> write_all_vectored_loop wv bufs' s')
           | (Inl e, s') \<Rightarrow> if interrupted e then write_all_vectored_loop wv bufs s' else Some (Inl e, s'))"

definition write_all_vectored ::
  "'s write_vectored_op \<Rightarrow> bytes list \<Rightarrow> 's \<Rightarrow> ((io_error + unit) \<times> 's) option" where
  "write_all_vectored wv bufs s =
     (case advance_slices bufs 0 of None \<Rightarrow> None | Some bufs' \<Rightarrow> write_all_vectored_loop wv bufs' s)"

section \<open>Read\<close>

partial_function (option) default_read_exact ::
  "'s read_op \<Rightarrow> bytes \<Rightarrow> 's \<Rightarrow> ((io_error + unit) \<times> bytes \<times> 's) option" where
  "default_read_exact rd buf s =
     (if buf = [] then Some (Inr (), [], s)
      else case rd buf s of
             (Inr n, buf', s') \<Rightarrow>
               if n = 0 then Some (Inl eof_error, buf', s')
               else if length buf' < n then None
               else Option.bind (default_read_exact rd (drop n buf') s')
                      (\<lambda>(r, rest, s''). Some (r, take n buf' @ rest, s''))
           | (Inl e, buf', s') \<Rightarrow>
               if interrupted e then default_read_exact rd buf' s' else Some (Inl e, buf', s'))"

definition default_read_buf ::
  "'s read_op \<Rightarrow> read_buf \<Rightarrow> 's \<Rightarrow> ((io_error + unit) \<times> read_buf \<times> 's) option" where
  "default_read_buf rd rb s =
     (case initialize_unfilled rb of
        None \<Rightarrow> None
      | Some (bs, rb1) \<Rightarrow>
          (case rd bs s of
             (Inl e, bs', s') \<Rightarrow> Some (Inl e, store_unfilled bs' rb1, s')
           | (Inr n, bs', s') \<Rightarrow>
               (case add_filled n (store_unfilled bs' rb1) of
                  None \<Rightarrow> None
                | Some rb2 \<Rightarrow> Some (Inr (), rb2, s'))))"

text \<open>\<open>append_to_string\<close>: a text whose new part is not valid is put back to its old length.\<close>

definition append_to_string ::
  "bytes \<Rightarrow> (bytes \<Rightarrow> (io_error + nat) \<times> bytes) \<Rightarrow> (io_error + nat) \<times> bytes" where
  "append_to_string buf f =
     (let (ret, buf') = f buf
      in if \<not> utf8_valid (drop (length buf) buf') then
           (res_bind ret (\<lambda>_. Inl (const_io_error InvalidData ''stream did not contain valid UTF-8'')),
            take (length buf) buf')
         else (ret, buf'))"

section \<open>BufRead\<close>

text \<open>The first and the last index of a byte: the C functions of those names.\<close>

definition memchr :: "u8 \<Rightarrow> bytes \<Rightarrow> nat option" where
  "memchr x bs = (let i = length (takeWhile (\<lambda>b. b \<noteq> x) bs) in if i < length bs then Some i else None)"

definition memrchr :: "u8 \<Rightarrow> bytes \<Rightarrow> nat option" where
  "memrchr x bs = (case memchr x (rev bs) of None \<Rightarrow> None | Some i \<Rightarrow> Some (length bs - 1 - i))"

partial_function (option) read_until_loop ::
  "'s fill_op \<Rightarrow> (nat \<Rightarrow> 's \<Rightarrow> 's) \<Rightarrow> u8 \<Rightarrow> bytes \<Rightarrow> nat \<Rightarrow> 's \<Rightarrow> ((io_error + nat) \<times> bytes \<times> 's) option" where
  "read_until_loop fill_buf consume delim buf read s =
     (case fill_buf s of
        (Inl e, s') \<Rightarrow>
          if interrupted e then read_until_loop fill_buf consume delim buf read s' else Some (Inl e, buf, s')
      | (Inr available, s') \<Rightarrow>
          (case memchr delim available of
             Some i \<Rightarrow> Some (Inr (read + (i + 1)), buf @ take (i + 1) available, consume (i + 1) s')
           | None \<Rightarrow>
               if available = [] then Some (Inr read, buf, consume 0 s')
               else read_until_loop fill_buf consume delim (buf @ available) (read + length available)
                      (consume (length available) s')))"

definition read_until ::
  "'s fill_op \<Rightarrow> (nat \<Rightarrow> 's \<Rightarrow> 's) \<Rightarrow> u8 \<Rightarrow> bytes \<Rightarrow> 's \<Rightarrow> ((io_error + nat) \<times> bytes \<times> 's) option" where
  "read_until fill_buf consume delim buf s = read_until_loop fill_buf consume delim buf 0 s"

definition has_data_left :: "'s fill_op \<Rightarrow> 's \<Rightarrow> (io_error + bool) \<times> 's" where
  "has_data_left fill_buf s = (case fill_buf s of (r, s') \<Rightarrow> (map_ok (\<lambda>b. b \<noteq> []) r, s'))"

text \<open>\<open>Split::next\<close>.\<close>

definition Split_next ::
  "'s fill_op \<Rightarrow> (nat \<Rightarrow> 's \<Rightarrow> 's) \<Rightarrow> u8 \<Rightarrow> 's \<Rightarrow> ((io_error + bytes) option \<times> 's) option" where
  "Split_next fill_buf consume delim s =
     (case read_until fill_buf consume delim [] s of
        None \<Rightarrow> None
      | Some (Inr n, buf, s') \<Rightarrow>
          Some (if n = 0 then None
                else Some (Inr (if last buf = delim then butlast buf else buf)), s')
      | Some (Inl e, buf, s') \<Rightarrow> Some (Some (Inl e), s'))"

section \<open>Seek\<close>

datatype SeekFrom = Start nat | End int | Current int

type_synonym 's seek_op = "SeekFrom \<Rightarrow> 's \<Rightarrow> (io_error + nat) \<times> 's"

definition rewind :: "'s seek_op \<Rightarrow> 's \<Rightarrow> (io_error + unit) \<times> 's" where
  "rewind seek s = (case seek (Start 0) s of (r, s') \<Rightarrow> (map_ok (\<lambda>_. ()) r, s'))"

definition stream_position :: "'s seek_op \<Rightarrow> 's \<Rightarrow> (io_error + nat) \<times> 's" where
  "stream_position seek s = seek (Current 0) s"

definition stream_len :: "'s seek_op \<Rightarrow> 's \<Rightarrow> (io_error + nat) \<times> 's" where
  "stream_len seek s =
     (case stream_position seek s of
        (Inl e, s1) \<Rightarrow> (Inl e, s1)
      | (Inr old_pos, s1) \<Rightarrow>
          (case seek (End 0) s1 of
             (Inl e, s2) \<Rightarrow> (Inl e, s2)
           | (Inr len, s2) \<Rightarrow>
               if old_pos \<noteq> len then
                 (case seek (Start old_pos) s2 of
                    (Inl e, s3) \<Rightarrow> (Inl e, s3)
                  | (Inr _, s3) \<Rightarrow> (Inr len, s3))
               else (Inr len, s2)))"

section \<open>Chain and Take\<close>

record ('a, 'b) chain =
  first :: 'a
  second :: 'b
  done_first :: bool

definition Chain_new :: "'a \<Rightarrow> 'b \<Rightarrow> ('a, 'b) chain" where
  "Chain_new self next = \<lparr>first = self, second = next, done_first = False\<rparr>"

definition Chain_read :: "'a read_op \<Rightarrow> 'b read_op \<Rightarrow> ('a, 'b) chain read_op" where
  "Chain_read rd1 rd2 buf c =
     (let go = (\<lambda>buf c. case rd2 buf (second c) of (r, buf', s') \<Rightarrow> (r, buf', c\<lparr>second := s'\<rparr>))
      in if \<not> done_first c then
           (case rd1 buf (first c) of
              (Inl e, buf', s') \<Rightarrow> (Inl e, buf', c\<lparr>first := s'\<rparr>)
            | (Inr n, buf', s') \<Rightarrow>
                if n = 0 \<and> buf \<noteq> [] then go buf' (c\<lparr>first := s', done_first := True\<rparr>)
                else (Inr n, buf', c\<lparr>first := s'\<rparr>))
         else go buf c)"

definition Chain_fill_buf :: "'a fill_op \<Rightarrow> 'b fill_op \<Rightarrow> ('a, 'b) chain fill_op" where
  "Chain_fill_buf f1 f2 c =
     (let go = (\<lambda>c. case f2 (second c) of (r, s') \<Rightarrow> (r, c\<lparr>second := s'\<rparr>))
      in if \<not> done_first c then
           (case f1 (first c) of
              (Inl e, s') \<Rightarrow> (Inl e, c\<lparr>first := s'\<rparr>)
            | (Inr buf, s') \<Rightarrow>
                if buf = [] then go (c\<lparr>first := s', done_first := True\<rparr>) else (Inr buf, c\<lparr>first := s'\<rparr>))
         else go c)"

definition Chain_consume :: "(nat \<Rightarrow> 'a \<Rightarrow> 'a) \<Rightarrow> (nat \<Rightarrow> 'b \<Rightarrow> 'b) \<Rightarrow> nat \<Rightarrow> ('a, 'b) chain \<Rightarrow> ('a, 'b) chain" where
  "Chain_consume c1 c2 amt c =
     (if \<not> done_first c then c\<lparr>first := c1 amt (first c)\<rparr> else c\<lparr>second := c2 amt (second c)\<rparr>)"

text \<open>Subtraction of a \<open>u64\<close>, which wraps around.\<close>

definition wrapping_sub :: "nat \<Rightarrow> nat \<Rightarrow> nat" where
  "wrapping_sub a b = (a + USIZE - b) mod USIZE"

lemma wrapping_sub_le [simp]: "b \<le> a \<Longrightarrow> a < USIZE \<Longrightarrow> wrapping_sub a b = a - b"
proof -
  assume "b \<le> a" "a < USIZE"
  then have "a + USIZE - b = (a - b) + USIZE" "a - b < USIZE" by linarith+
  then show ?thesis by (simp only: wrapping_sub_def mod_add_self2 mod_less)
qed

record 'a taken =
  tk_inner :: 'a
  limit :: nat

definition Take_new :: "'a \<Rightarrow> nat \<Rightarrow> 'a taken" where
  "Take_new self lim = \<lparr>tk_inner = self, limit = lim\<rparr>"

definition Take_read :: "'a read_op \<Rightarrow> 'a taken read_op" where
  "Take_read rd buf t =
     (if limit t = 0 then (Inr 0, buf, t)
      else
        let m = min (length buf) (limit t)
        in case rd (take m buf) (tk_inner t) of
             (Inl e, buf', s') \<Rightarrow> (Inl e, buf' @ drop m buf, t\<lparr>tk_inner := s'\<rparr>)
           | (Inr n, buf', s') \<Rightarrow>
               (Inr n, buf' @ drop m buf, t\<lparr>tk_inner := s', limit := wrapping_sub (limit t) n\<rparr>))"

definition Take_fill_buf :: "'a fill_op \<Rightarrow> 'a taken fill_op" where
  "Take_fill_buf fill_buf t =
     (if limit t = 0 then (Inr [], t)
      else case fill_buf (tk_inner t) of
             (Inl e, s') \<Rightarrow> (Inl e, t\<lparr>tk_inner := s'\<rparr>)
           | (Inr buf, s') \<Rightarrow> (Inr (take (min (length buf) (limit t)) buf), t\<lparr>tk_inner := s'\<rparr>))"

definition Take_consume :: "(nat \<Rightarrow> 'a \<Rightarrow> 'a) \<Rightarrow> nat \<Rightarrow> 'a taken \<Rightarrow> 'a taken" where
  "Take_consume consume amt t =
     (let amt = min amt (limit t)
      in t\<lparr>limit := limit t - amt, tk_inner := consume amt (tk_inner t)\<rparr>)"

end
