(* ===== verification/Io_Laws.thy ===== *)
theory Io_Laws
  imports Io_Core
begin

text \<open>
  The contracts of readers, writers and buffered readers as locales, and what the provided methods of
  io/mod.rs give on top of them.  A reader has the bytes \<open>avail\<close> still to come, a writer has the bytes
  \<open>sunk\<close> it has taken.  \<open>rank\<close> bounds how often an operation is still going to be interrupted.
\<close>

text \<open>Every retry loop makes progress: there are fewer bytes to go, or fewer interruptions to come.\<close>

lemma progress_induct [case_names step]:
  fixes size rank :: "'b \<Rightarrow> 's \<Rightarrow> nat"
  assumes "\<And>b s. (\<And>b' s'. size b' s' < size b s \<or> size b' s' = size b s \<and> rank b' s' < rank b s \<Longrightarrow> P b' s') \<Longrightarrow> P b s"
  shows "P b s"
proof -
  have "wf (inv_image (less_than <*lex*> less_than) (\<lambda>(b, s). (size b s, rank b s)))" by auto
  then have "case x of (b, s) \<Rightarrow> P b s" for x
  proof (induction x rule: wf_induct_rule)
    case (less x)
    obtain b s where x: "x = (b, s)" by fastforce
    have "P b s" by (rule assms) (use less x in force)
    then show ?case by (simp add: x)
  qed
  from this [of "(b, s)"] show ?thesis by simp
qed

section \<open>Writers\<close>

locale writer =
  fixes inv :: "'s \<Rightarrow> bool" and sunk :: "'s \<Rightarrow> bytes" and rank :: "'s \<Rightarrow> nat" and wr :: "'s write_op"
  assumes wr_ok: "inv s \<Longrightarrow> wr buf s = (Inr n, s') \<Longrightarrow>
      inv s' \<and> n \<le> length buf \<and> sunk s' = sunk s @ take n buf \<and> rank s' \<le> rank s"
    and wr_err: "inv s \<Longrightarrow> wr buf s = (Inl e, s') \<Longrightarrow>
      inv s' \<and> sunk s' = sunk s \<and> rank s' \<le> rank s \<and> (interrupted e \<longrightarrow> rank s' < rank s)"
begin

text \<open>The errors of the writer itself that a loop does not retry.\<close>

definition own_error :: "io_error \<Rightarrow> bool" where
  "own_error e \<longleftrightarrow> \<not> interrupted e \<and> (\<exists>buf s s'. inv s \<and> wr buf s = (Inl e, s'))"

lemmas wr_okD = wr_ok [rotated]
lemmas wr_errD = wr_err [rotated]

lemma write_all_total:
  "inv s \<Longrightarrow> \<exists>r s' k. write_all wr buf s = Some (r, s') \<and> inv s' \<and> k \<le> length buf \<and> sunk s' = sunk s @ take k buf
     \<and> (r = Inr () \<and> k = length buf \<or> (\<exists>e. r = Inl e \<and> k < length buf \<and> (e = write_zero_error \<or> own_error e)))"
proof (induction buf s rule: progress_induct [where size = "\<lambda>b s. length b" and rank = "\<lambda>b. rank"])
  case (step buf s)
  obtain r s1 where w: "wr buf s = (r, s1)" by fastforce
  consider "buf = []" | (err) e where "buf \<noteq> []" "r = Inl e" | (ok) n where "buf \<noteq> []" "r = Inr n"
    by (cases r) auto
  then show ?case
  proof cases
    case 1
    then show ?thesis using step(2) by (simp add: write_all.simps [of wr "[]"])
  next
    case err
    then have s1: "inv s1" "sunk s1 = sunk s" "interrupted e \<Longrightarrow> rank s1 < rank s"
      using wr_err [OF step(2)] w by auto
    show ?thesis
    proof (cases "interrupted e")
      case True
      then show ?thesis
        using step(1) [of buf s1] s1 err w by (simp add: write_all.simps [of wr buf s])
    next
      case False
      then have "own_error e" using err w step(2) unfolding own_error_def by blast
      then show ?thesis using err w s1 False by (auto simp: write_all.simps [of wr buf s] intro!: exI [of _ 0])
    qed
  next
    case ok
    then have s1: "inv s1" "n \<le> length buf" "sunk s1 = sunk s @ take n buf"
      using wr_ok [OF step(2)] w by auto
    show ?thesis
    proof (cases "n = 0")
      case True
      then show ?thesis using ok w s1 by (auto simp: write_all.simps [of wr buf s] intro!: exI [of _ 0])
    next
      case False
      then have lt: "length (drop n buf) < length buf" using ok s1 by auto
      from step(1) [OF disjI1 [OF lt] s1(1)] obtain r' s' k where "write_all wr (drop n buf) s1 = Some (r', s')" "inv s'"
        "k \<le> length (drop n buf)" "sunk s' = sunk s1 @ take k (drop n buf)"
        "r' = Inr () \<and> k = length (drop n buf) \<or>
           (\<exists>e. r' = Inl e \<and> k < length (drop n buf) \<and> (e = write_zero_error \<or> own_error e))" by blast
      then show ?thesis
        using ok w s1 False
        by (intro exI [of _ r'] exI [of _ s'] exI [of _ "n + k"])
          (auto simp: write_all.simps [of wr buf s] take_add split: sum.splits)
    qed
  qed
qed

end

section \<open>Readers\<close>

locale reader =
  fixes inv :: "'s \<Rightarrow> bool" and avail :: "'s \<Rightarrow> bytes" and rank :: "'s \<Rightarrow> nat" and rd :: "'s read_op"
  assumes rd_ok: "inv s \<Longrightarrow> rd buf s = (Inr n, buf', s') \<Longrightarrow>
      inv s' \<and> length buf' = length buf \<and> n \<le> length buf \<and> n \<le> length (avail s) \<and> take n buf' = take n (avail s)
      \<and> avail s' = drop n (avail s) \<and> (n = 0 \<longrightarrow> buf = [] \<or> avail s = [])"
    and rd_err: "inv s \<Longrightarrow> rd buf s = (Inl e, buf', s') \<Longrightarrow>
      inv s' \<and> length buf' = length buf \<and> avail s' = avail s \<and> (interrupted e \<longrightarrow> rank s' < rank s)"
begin

text \<open>The errors of the reader itself that a loop does not retry.\<close>

definition own_error :: "io_error \<Rightarrow> bool" where
  "own_error e \<longleftrightarrow> \<not> interrupted e \<and> (\<exists>buf s buf' s'. inv s \<and> rd buf s = (Inl e, buf', s'))"

lemmas rd_okD = rd_ok [rotated]
lemmas rd_errD = rd_err [rotated]

lemma read_exact_total:
  "inv s \<Longrightarrow> \<exists>r buf' s' k. default_read_exact rd buf s = Some (r, buf', s') \<and> inv s' \<and> length buf' = length buf
     \<and> k \<le> length buf \<and> k \<le> length (avail s) \<and> take k buf' = take k (avail s) \<and> avail s' = drop k (avail s)
     \<and> (r = Inr () \<and> k = length buf \<or>
        (\<exists>e. r = Inl e \<and> k < length buf \<and> (e = eof_error \<and> k = length (avail s) \<or> own_error e)))"
proof (induction buf s rule: progress_induct [where size = "\<lambda>b s. length b" and rank = "\<lambda>b. rank"])
  case (step buf s)
  obtain r buf1 s1 where w: "rd buf s = (r, buf1, s1)" by (metis prod_cases3)
  consider "buf = []" | (err) e where "buf \<noteq> []" "r = Inl e" | (ok) n where "buf \<noteq> []" "r = Inr n"
    by (cases r) auto
  then show ?case
  proof cases
    case 1
    then show ?thesis using step(2) by (simp add: default_read_exact.simps [of rd "[]"])
  next
    case err
    then have s1: "inv s1" "length buf1 = length buf" "avail s1 = avail s" "interrupted e \<Longrightarrow> rank s1 < rank s"
      using rd_err [OF step(2)] w by auto
    show ?thesis
    proof (cases "interrupted e")
      case True
      then show ?thesis
        using step(1) [of buf1 s1] s1 err w by (simp add: default_read_exact.simps [of rd buf s])
    next
      case False
      then have "own_error e" using err w step(2) unfolding own_error_def by blast
      then show ?thesis
        using err w s1 False by (auto simp: default_read_exact.simps [of rd buf s] intro!: exI [of _ 0])
    qed
  next
    case ok
    then have s1: "inv s1" "length buf1 = length buf" "n \<le> length buf" "n \<le> length (avail s)"
      "take n buf1 = take n (avail s)" "avail s1 = drop n (avail s)" "n = 0 \<longrightarrow> buf = [] \<or> avail s = []"
      using rd_ok [OF step(2)] w by auto
    show ?thesis
    proof (cases "n = 0")
      case True
      then show ?thesis
        using ok w s1 by (auto simp: default_read_exact.simps [of rd buf s] intro!: exI [of _ 0])
    next
      case False
      have lt: "length (drop n buf1) < length buf" using False ok s1 by auto
      from step(1) [OF disjI1 [OF lt] s1(1)] obtain r' rest s' k where x: "default_read_exact rd (drop n buf1) s1 = Some (r', rest, s')" "inv s'"
        "length rest = length (drop n buf1)" "k \<le> length (drop n buf1)" "k \<le> length (avail s1)"
        "take k rest = take k (avail s1)" "avail s' = drop k (avail s1)"
        "r' = Inr () \<and> k = length (drop n buf1) \<or> (\<exists>e. r' = Inl e \<and> k < length (drop n buf1)
           \<and> (e = eof_error \<and> k = length (avail s1) \<or> own_error e))" by blast
      have "take (n + k) (take n buf1 @ rest) = take (n + k) (avail s)"
        using x(6) s1 by (simp add: take_add)
      then show ?thesis
        using ok w s1 False x
        by (intro exI [of _ r'] exI [of _ "take n buf1 @ rest"] exI [of _ s'] exI [of _ "n + k"])
          (auto simp: default_read_exact.simps [of rd buf s] add.commute split: sum.splits)
    qed
  qed
qed

text \<open>A reader without errors of its own: the buffer is filled exactly when enough bytes are there.\<close>

lemma read_exact_infallible:
  assumes "inv s" "\<And>e. \<not> own_error e"
  shows "\<exists>buf' s'. default_read_exact rd buf s =
      Some (if length buf \<le> length (avail s) then Inr () else Inl eof_error, buf', s') \<and> inv s'
    \<and> length buf' = length buf \<and> take (length (avail s)) buf' = take (length buf) (avail s)
    \<and> avail s' = drop (length buf) (avail s)"
proof -
  from read_exact_total [OF assms(1), of buf] obtain r buf' s' k where
    x: "default_read_exact rd buf s = Some (r, buf', s')" "inv s'" "length buf' = length buf"
      "k \<le> length (avail s)" "take k buf' = take k (avail s)" "avail s' = drop k (avail s)"
      "r = Inr () \<and> k = length buf \<or> r = Inl eof_error \<and> k < length buf \<and> k = length (avail s)"
    using assms(2) by blast
  then show ?thesis by (cases "length buf \<le> length (avail s)") auto
qed

end

section \<open>Buffered readers\<close>

text \<open>The number of bytes up to and with the first delimiter, or all of them.\<close>

definition until_len :: "u8 \<Rightarrow> bytes \<Rightarrow> nat" where
  "until_len d bs = (case memchr d bs of Some i \<Rightarrow> i + 1 | None \<Rightarrow> length bs)"

lemma memchr_simps:
  "memchr d [] = None"
  "memchr d (b # bs) = (if b = d then Some 0 else map_option Suc (memchr d bs))"
  by (simp_all add: memchr_def Let_def)

lemma memchr_None_iff: "memchr d bs = None \<longleftrightarrow> d \<notin> set bs"
  by (induction bs) (auto simp: memchr_simps)

lemma memchr_Some_less: "memchr d bs = Some i \<Longrightarrow> i < length bs"
  by (auto simp: memchr_def Let_def split: if_splits)

lemma memchr_append:
  "memchr d (xs @ ys) = (case memchr d xs of Some i \<Rightarrow> Some i | None \<Rightarrow> map_option (\<lambda>i. length xs + i) (memchr d ys))"
  by (induction xs; cases "memchr d ys") (simp_all add: memchr_simps split: option.splits)

lemma until_len_append:
  "until_len d (xs @ ys) = (if d \<in> set xs then until_len d xs else length xs + until_len d ys)"
  using memchr_None_iff [of d xs] by (auto simp: until_len_def memchr_append split: option.splits)

locale buffered =
  fixes inv :: "'s \<Rightarrow> bool" and avail :: "'s \<Rightarrow> bytes" and rank :: "'s \<Rightarrow> nat"
    and fill_buf :: "'s fill_op" and consume :: "nat \<Rightarrow> 's \<Rightarrow> 's"
  assumes fill_ok: "inv s \<Longrightarrow> fill_buf s = (Inr bs, s') \<Longrightarrow>
      inv s' \<and> avail s' = avail s \<and> length bs \<le> length (avail s) \<and> take (length bs) (avail s) = bs
      \<and> (bs = [] \<longrightarrow> avail s = [])"
    and fill_err: "inv s \<Longrightarrow> fill_buf s = (Inl e, s') \<Longrightarrow>
      inv s' \<and> avail s' = avail s \<and> (interrupted e \<longrightarrow> rank s' < rank s)"
    and consume_ok: "inv s \<Longrightarrow> fill_buf s = (Inr bs, s') \<Longrightarrow> n \<le> length bs \<Longrightarrow>
      inv (consume n s') \<and> avail (consume n s') = drop n (avail s)"
    and consume_0: "inv s \<Longrightarrow> inv (consume 0 s) \<and> avail (consume 0 s) = avail s"
begin

definition own_error :: "io_error \<Rightarrow> bool" where
  "own_error e \<longleftrightarrow> \<not> interrupted e \<and> (\<exists>s s'. inv s \<and> fill_buf s = (Inl e, s'))"

lemmas fill_okD = fill_ok [rotated]
lemmas fill_errD = fill_err [rotated]
lemmas consume_okD = consume_ok [rotated]

lemma read_until_total:
  "inv s \<Longrightarrow> \<exists>r buf' s' k. read_until_loop fill_buf consume d buf n s = Some (r, buf', s') \<and> inv s'
     \<and> k \<le> length (avail s) \<and> buf' = buf @ take k (avail s) \<and> avail s' = drop k (avail s)
     \<and> (r = Inr (n + k) \<and> k = until_len d (avail s) \<or> (\<exists>e. r = Inl e \<and> d \<notin> set (take k (avail s)) \<and> own_error e))"
proof (induction buf s arbitrary: n rule: progress_induct [where size = "\<lambda>b s. length (avail s)" and rank = "\<lambda>b. rank"])
  case (step buf s)
  obtain f s1 where w: "fill_buf s = (f, s1)" by fastforce
  consider (int) e where "f = Inl e" "interrupted e" | (err) e where "f = Inl e" "\<not> interrupted e"
    | (found) bs i where "f = Inr bs" "memchr d bs = Some i" | (eof) "f = Inr []"
    | (more) bs where "f = Inr bs" "memchr d bs = None" "bs \<noteq> []"
    by (cases f; cases "memchr d (projr f)") auto
  then show ?case
  proof cases
    case int
    then have "inv s1" "avail s1 = avail s" "rank s1 < rank s" using fill_err [OF step(2)] w by auto
    then show ?thesis using step(1) [of s1] int w by (simp add: read_until_loop.simps [of _ _ _ _ _ s])
  next
    case err
    then have "inv s1" "avail s1 = avail s" "own_error e"
      using fill_err [OF step(2)] w step(2) by (auto simp: own_error_def)
    then show ?thesis
      using err w by (auto simp: read_until_loop.simps [of _ _ _ _ _ s] intro!: exI [of _ 0])
  next
    case found
    have f: "avail s1 = avail s" "take (length bs) (avail s) = bs" using fill_ok [OF step(2)] w found by auto
    then obtain rest where a: "avail s = bs @ rest" by (metis append_take_drop_id)
    have i: "i + 1 \<le> length bs" using memchr_Some_less [OF found(2)] by simp
    have "until_len d (avail s) = i + 1" by (simp add: until_len_def a memchr_append found(2))
    then show ?thesis
      using consume_ok [OF step(2) w [unfolded found(1)] i] found w a i
      by (intro exI [of _ "Inr (n + (i + 1))"] exI [of _ "buf @ take (i + 1) bs"] exI [of _ "consume (i + 1) s1"]
          exI [of _ "i + 1"]) (simp add: read_until_loop.simps [of _ _ _ _ _ s])
  next
    case eof
    have "avail s = []" using fill_ok [OF step(2) w [unfolded eof]] by simp
    then show ?thesis
      using consume_ok [OF step(2) w [unfolded eof], of 0] eof w
      by (simp add: read_until_loop.simps [of _ _ _ _ _ s] memchr_def until_len_def)
  next
    case more
    let ?s2 = "consume (length bs) s1"
    have f: "avail s1 = avail s" "take (length bs) (avail s) = bs" using fill_ok [OF step(2)] w more by auto
    then obtain rest where a: "avail s = bs @ rest" by (metis append_take_drop_id)
    have s2: "inv ?s2" "avail ?s2 = rest"
      using consume_ok [OF step(2) w [unfolded more(1)], of "length bs"] a by auto
    then have "length (avail ?s2) < length (avail s)" using a more by simp
    from step(1) [OF disjI1 [OF this] s2(1), of "buf @ bs" "n + length bs"] obtain r buf' s' k where
      x: "read_until_loop fill_buf consume d (buf @ bs) (n + length bs) ?s2 = Some (r, buf', s')" "inv s'"
        "k \<le> length rest" "buf' = (buf @ bs) @ take k rest" "avail s' = drop k rest"
        "r = Inr (n + length bs + k) \<and> k = until_len d rest \<or> (\<exists>e. r = Inl e \<and> d \<notin> set (take k rest) \<and> own_error e)"
      unfolding s2(2) by blast
    have "d \<notin> set bs" using more memchr_None_iff by metis
    then show ?thesis
      using w more x a
      by (intro exI [of _ r] exI [of _ buf'] exI [of _ s'] exI [of _ "length bs + k"])
        (auto simp: read_until_loop.simps [of _ _ _ _ _ s] until_len_append add.assoc)
  qed
qed

lemma read_until_infallible:
  assumes "inv s" "\<And>e. \<not> own_error e"
  shows "\<exists>s'. read_until fill_buf consume d buf s =
      Some (Inr (until_len d (avail s)), buf @ take (until_len d (avail s)) (avail s), s')
    \<and> inv s' \<and> avail s' = drop (until_len d (avail s)) (avail s)"
  using read_until_total [OF assms(1), of d buf 0] assms(2) unfolding read_until_def by auto

end

section \<open>Adapters keep the contracts\<close>

definition chain_inv :: "('a \<Rightarrow> bool) \<Rightarrow> ('b \<Rightarrow> bool) \<Rightarrow> ('a, 'b) chain \<Rightarrow> bool" where
  "chain_inv inv1 inv2 c \<longleftrightarrow> inv1 (first c) \<and> inv2 (second c)"

definition chain_avail :: "('a \<Rightarrow> bytes) \<Rightarrow> ('b \<Rightarrow> bytes) \<Rightarrow> ('a, 'b) chain \<Rightarrow> bytes" where
  "chain_avail avail1 avail2 c =
     (if done_first c then avail2 (second c) else avail1 (first c) @ avail2 (second c))"

definition chain_rank :: "('a \<Rightarrow> nat) \<Rightarrow> ('b \<Rightarrow> nat) \<Rightarrow> ('a, 'b) chain \<Rightarrow> nat" where
  "chain_rank rank1 rank2 c = (if done_first c then rank2 (second c) else rank1 (first c) + rank2 (second c))"

lemmas chain_defs = chain_inv_def chain_avail_def chain_rank_def

locale two_readers =
  r1: reader inv1 avail1 rank1 rd1 + r2: reader inv2 avail2 rank2 rd2
  for inv1 :: "'a \<Rightarrow> bool" and avail1 rank1 rd1 and inv2 :: "'b \<Rightarrow> bool" and avail2 rank2 rd2

sublocale two_readers \<subseteq> chain: reader "chain_inv inv1 inv2" "chain_avail avail1 avail2" "chain_rank rank1 rank2"
  "Chain_read rd1 rd2"
proof (unfold_locales, goal_cases)
  case (1 c buf n buf' c')
  then show ?case
    by (auto simp: Chain_read_def chain_defs Let_def split: prod.splits sum.splits if_splits
        dest!: r1.rd_okD r2.rd_okD)
next
  case (2 c buf e buf' c')
  then show ?case
    by (auto simp: Chain_read_def chain_defs Let_def split: prod.splits sum.splits if_splits
        dest!: r1.rd_okD r1.rd_errD r2.rd_errD)
qed

locale two_buffered =
  b1: buffered inv1 avail1 rank1 fill1 consume1 + b2: buffered inv2 avail2 rank2 fill2 consume2
  for inv1 :: "'a \<Rightarrow> bool" and avail1 rank1 fill1 consume1 and inv2 :: "'b \<Rightarrow> bool" and avail2 rank2 fill2 consume2

sublocale two_buffered \<subseteq> chain: buffered "chain_inv inv1 inv2" "chain_avail avail1 avail2" "chain_rank rank1 rank2"
  "Chain_fill_buf fill1 fill2" "Chain_consume consume1 consume2"
proof (unfold_locales, goal_cases)
  case (1 c bs c')
  then show ?case
    by (auto simp: Chain_fill_buf_def chain_defs Let_def split: prod.splits sum.splits if_splits
        dest!: b1.fill_okD b2.fill_okD)
next
  case (2 c e c')
  then show ?case
    by (auto simp: Chain_fill_buf_def chain_defs Let_def split: prod.splits sum.splits if_splits
        dest!: b1.fill_okD b1.fill_errD b2.fill_errD)
next
  case (3 c bs c' n)
  obtain f1 s1 where f1: "fill1 (first c) = (f1, s1)" by fastforce
  have i: "inv1 (first c)" "inv2 (second c)" using 3(1) by (auto simp: chain_defs)
  show ?case
  proof (cases "done_first c \<or> f1 = Inr []")
    case True
    then obtain s2 where f2: "fill2 (second c) = (Inr bs, s2)"
      and c': "c' = (if done_first c then c\<lparr>second := s2\<rparr> else c\<lparr>first := s1, done_first := True, second := s2\<rparr>)"
      using 3(2) f1 by (auto simp: Chain_fill_buf_def Let_def split: prod.splits if_splits)
    have "inv1 s1 \<and> avail1 (first c) = []" if "\<not> done_first c"
      using that True b1.fill_ok [OF i(1)] f1 by auto
    then show ?thesis
      using b2.consume_ok [OF i(2) f2 3(3)] i c' by (auto simp: Chain_consume_def chain_defs)
  next
    case False
    then have f: "f1 = Inr bs" and c': "c' = c\<lparr>first := s1\<rparr>"
      using 3(2) f1 by (auto simp: Chain_fill_buf_def Let_def split: prod.splits sum.splits if_splits)
    have "length bs \<le> length (avail1 (first c))" using b1.fill_ok [OF i(1)] f1 f by auto
    then show ?thesis
      using b1.consume_ok [OF i(1) f1 [unfolded f] 3(3)] i c' False 3(3) by (simp add: Chain_consume_def chain_defs)
  qed
next
  case (4 c)
  then show ?case using b1.consume_0 b2.consume_0 by (simp add: Chain_consume_def chain_defs)
qed

definition take_inv :: "('a \<Rightarrow> bool) \<Rightarrow> 'a taken \<Rightarrow> bool" where
  "take_inv I t \<longleftrightarrow> I (tk_inner t) \<and> limit t < USIZE"

definition take_avail :: "('a \<Rightarrow> bytes) \<Rightarrow> 'a taken \<Rightarrow> bytes" where
  "take_avail avail t = take (limit t) (avail (tk_inner t))"

definition take_rank :: "('a \<Rightarrow> nat) \<Rightarrow> 'a taken \<Rightarrow> nat" where
  "take_rank rank t = rank (tk_inner t)"

lemmas take_defs = take_inv_def take_avail_def take_rank_def

locale taken_reader = r: reader inv avail rank rd for inv :: "'s \<Rightarrow> bool" and avail rank rd

sublocale taken_reader \<subseteq> taken: reader "take_inv inv" "take_avail avail" "take_rank rank" "Take_read rd"
proof (unfold_locales, goal_cases)
  case (1 t buf n buf' t')
  show ?case
  proof (cases "limit t = 0")
    case True
    then show ?thesis using 1 by (auto simp: Take_read_def take_defs)
  next
    case False
    let ?m = "min (length buf) (limit t)"
    obtain buf1 s1 where r: "rd (take ?m buf) (tk_inner t) = (Inr n, buf1, s1)"
      and e: "buf' = buf1 @ drop ?m buf" "t' = t\<lparr>tk_inner := s1, limit := wrapping_sub (limit t) n\<rparr>"
      using 1 False by (auto simp: Take_read_def Let_def split: prod.splits sum.splits)
    have o: "inv s1" "length buf1 = length (take ?m buf)" "n \<le> length (take ?m buf)"
      "n \<le> length (avail (tk_inner t))" "take n buf1 = take n (avail (tk_inner t))"
      "avail s1 = drop n (avail (tk_inner t))" "n = 0 \<longrightarrow> take ?m buf = [] \<or> avail (tk_inner t) = []"
      using r.rd_ok [OF _ r] 1 by (auto simp: take_defs)
    moreover have "n \<le> limit t" using o(3) by simp
    ultimately show ?thesis using 1(1) False e by (auto simp: take_defs take_drop min_def split: if_splits)
  qed
next
  case (2 t buf e buf' t')
  then show ?case
    by (auto simp: Take_read_def take_defs Let_def split: prod.splits sum.splits if_splits dest!: r.rd_errD)
qed

locale taken_buffered = b: buffered inv avail rank fill_buf consume
  for inv :: "'s \<Rightarrow> bool" and avail rank fill_buf consume

sublocale taken_buffered \<subseteq> taken: buffered "take_inv inv" "take_avail avail" "take_rank rank" "Take_fill_buf fill_buf"
  "Take_consume consume"
proof (unfold_locales, goal_cases)
  case (1 t bs t')
  show ?case
  proof (cases "limit t = 0")
    case True
    then show ?thesis using 1 by (auto simp: Take_fill_buf_def take_defs)
  next
    case False
    then obtain buf s1 where "fill_buf (tk_inner t) = (Inr buf, s1)"
      "bs = take (min (length buf) (limit t)) buf" "t' = t\<lparr>tk_inner := s1\<rparr>"
      using 1(2) by (auto simp: Take_fill_buf_def split: prod.splits sum.splits)
    moreover from this have "take (length buf) (avail (tk_inner t)) = buf" "inv s1" "avail s1 = avail (tk_inner t)"
      "buf = [] \<longrightarrow> avail (tk_inner t) = []"
      using b.fill_ok [of "tk_inner t"] 1(1) by (auto simp: take_defs)
    moreover from this obtain rest where "avail (tk_inner t) = buf @ rest" by (metis append_take_drop_id)
    ultimately show ?thesis
      using 1(1) False by (cases "length buf \<le> limit t") (simp_all add: take_defs min_def)
  qed
next
  case (2 t e t')
  then show ?case
    by (auto simp: Take_fill_buf_def take_defs split: prod.splits sum.splits if_splits dest!: b.fill_errD)
next
  case (3 t bs t' n)
  show ?case
  proof (cases "limit t = 0")
    case True
    then show ?thesis using 3 b.consume_0 by (auto simp: Take_fill_buf_def Take_consume_def take_defs)
  next
    case False
    then obtain buf s1 where b: "fill_buf (tk_inner t) = (Inr buf, s1)"
      "bs = take (min (length buf) (limit t)) buf" "t' = t\<lparr>tk_inner := s1\<rparr>"
      using 3(2) by (auto simp: Take_fill_buf_def split: prod.splits sum.splits)
    then have "n \<le> length buf" "n \<le> limit t" using 3(3) by auto
    then show ?thesis
      using b.consume_ok [OF _ b(1)] 3(1) b by (auto simp: Take_consume_def take_defs Let_def drop_take)
  qed
next
  case (4 t)
  then show ?case using b.consume_0 by (simp add: Take_consume_def take_defs)
qed

end
