(* ===== verification/Io_Cursor.thy ===== *)
theory Io_Cursor
  imports Io_Laws
begin

text \<open>
  \<open>sgx_tstd\<close>, io/impls.rs, io/cursor.rs and io/util.rs: the readers and writers in memory.  A position is
  a \<open>u64\<close>, so it is below \<open>USIZE\<close> and additions to it wrap around.  The growth of a vector is not limited
  here; the allocator gives up before \<open>isize::MAX\<close> bytes.  In \<open>vec_write\<close> the position is at most the length
  of the vector when the length of a slice is added to it, so that sum cannot wrap around.
\<close>

section \<open>Slices and vectors\<close>

text \<open>\<open>Read for &[u8]\<close>: the state is the part not read yet.\<close>

definition slice_read :: "bytes read_op" where
  "slice_read buf self =
     (let amt = min (length buf) (length self)
      in (Inr amt, take amt self @ drop amt buf, drop amt self))"

definition slice_read_exact :: "bytes \<Rightarrow> bytes \<Rightarrow> (io_error + unit) \<times> bytes \<times> bytes" where
  "slice_read_exact buf self =
     (if length buf > length self then (Inl eof_error, buf, self)
      else (Inr (), take (length buf) self, drop (length buf) self))"

definition slice_read_buf :: "read_buf \<Rightarrow> bytes \<Rightarrow> ((io_error + unit) \<times> read_buf \<times> bytes) option" where
  "slice_read_buf rb self =
     (let amt = min (remaining rb) (length self)
      in case rb_append (take amt self) rb of
           None \<Rightarrow> None
         | Some rb' \<Rightarrow> Some (Inr (), rb', drop amt self))"

fun slice_read_vectored :: "bytes list \<Rightarrow> bytes \<Rightarrow> nat \<times> bytes list \<times> bytes" where
  "slice_read_vectored [] self = (0, [], self)"
| "slice_read_vectored (buf # bufs) self =
     (let amt = min (length buf) (length self);
          buf' = take amt self @ drop amt buf;
          self' = drop amt self
      in if self' = [] then (amt, buf' # bufs, self')
         else case slice_read_vectored bufs self' of (n, bufs', s) \<Rightarrow> (amt + n, buf' # bufs', s))"

definition slice_read_to_end :: "bytes \<Rightarrow> bytes \<Rightarrow> (io_error + nat) \<times> bytes \<times> bytes" where
  "slice_read_to_end buf self = (Inr (length self), buf @ self, [])"

definition slice_fill_buf :: "bytes fill_op" where
  "slice_fill_buf self = (Inr self, self)"

text \<open>\<open>consume\<close> panics past the end of the slice, which its callers never do.\<close>

definition slice_consume :: "nat \<Rightarrow> bytes \<Rightarrow> bytes" where
  "slice_consume amt self = drop amt self"

text \<open>
  \<open>Write for &mut [u8]\<close> moves the slice past what it wrote: the state is the part written and the part
  left to write.
\<close>

record out_slice =
  os_done :: bytes
  os_rest :: bytes

definition mut_slice_write :: "out_slice write_op" where
  "mut_slice_write data self =
     (let amt = min (length data) (length (os_rest self))
      in (Inr amt, self\<lparr>os_done := os_done self @ take amt data, os_rest := drop amt (os_rest self)\<rparr>))"

definition mut_slice_write_all :: "bytes \<Rightarrow> out_slice \<Rightarrow> (io_error + unit) \<times> out_slice" where
  "mut_slice_write_all data self =
     (case mut_slice_write data self of
        (Inr n, self') \<Rightarrow> (if n = length data then Inr () else Inl write_zero_error, self')
      | (Inl e, self') \<Rightarrow> (Inl e, self'))"

definition vec_append_write :: "bytes write_op" where
  "vec_append_write buf self = (Inr (length buf), self @ buf)"

definition vec_append_write_vectored :: "bytes list \<Rightarrow> bytes \<Rightarrow> (io_error + nat) \<times> bytes" where
  "vec_append_write_vectored bufs self = (Inr (sum_list (map length bufs)), self @ concat bufs)"

section \<open>Cursor\<close>

record cursor =
  inner :: bytes
  pos :: nat

definition Cursor_new :: "bytes \<Rightarrow> cursor" where
  "Cursor_new v = \<lparr>inner = v, pos = 0\<rparr>"

definition Cursor_set_position :: "nat \<Rightarrow> cursor \<Rightarrow> cursor" where
  "Cursor_set_position p c = c\<lparr>pos := p\<rparr>"

definition remaining_slice :: "cursor \<Rightarrow> bytes" where
  "remaining_slice c = drop (min (pos c) (length (inner c))) (inner c)"

definition Cursor_is_empty :: "cursor \<Rightarrow> bool" where
  "Cursor_is_empty c \<longleftrightarrow> pos c \<ge> length (inner c)"

definition checked_add_signed :: "nat \<Rightarrow> int \<Rightarrow> nat option" where
  "checked_add_signed base offset =
     (let v = int base + offset in if 0 \<le> v \<and> v < int USIZE then Some (nat v) else None)"

definition seek_relative_to :: "nat \<Rightarrow> int \<Rightarrow> cursor \<Rightarrow> (io_error + nat) \<times> cursor" where
  "seek_relative_to base_pos offset c =
     (case checked_add_signed base_pos offset of
        Some n \<Rightarrow> (Inr n, c\<lparr>pos := n\<rparr>)
      | None \<Rightarrow> (Inl (const_io_error InvalidInput ''invalid seek to a negative or overflowing position''), c))"

fun Cursor_seek :: "cursor seek_op" where
  "Cursor_seek (Start n) c = (Inr n, c\<lparr>pos := n\<rparr>)"
| "Cursor_seek (End n) c = seek_relative_to (length (inner c)) n c"
| "Cursor_seek (Current n) c = seek_relative_to (pos c) n c"

definition Cursor_stream_len :: "cursor \<Rightarrow> (io_error + nat) \<times> cursor" where
  "Cursor_stream_len c = (Inr (length (inner c)), c)"

definition Cursor_stream_position :: "cursor \<Rightarrow> (io_error + nat) \<times> cursor" where
  "Cursor_stream_position c = (Inr (pos c), c)"

definition Cursor_read :: "cursor read_op" where
  "Cursor_read buf c =
     (case slice_read buf (remaining_slice c) of
        (Inl e, buf', _) \<Rightarrow> (Inl e, buf', c)
      | (Inr n, buf', _) \<Rightarrow> (Inr n, buf', c\<lparr>pos := (pos c + n) mod USIZE\<rparr>))"

fun Cursor_read_vectored :: "bytes list \<Rightarrow> cursor \<Rightarrow> (io_error + nat) \<times> bytes list \<times> cursor" where
  "Cursor_read_vectored [] c = (Inr 0, [], c)"
| "Cursor_read_vectored (buf # bufs) c =
     (case Cursor_read buf c of
        (Inl e, buf', c') \<Rightarrow> (Inl e, buf' # bufs, c')
      | (Inr n, buf', c') \<Rightarrow>
          if n < length buf then (Inr n, buf' # bufs, c')
          else (case Cursor_read_vectored bufs c' of
                  (r, bufs', c'') \<Rightarrow> (map_ok (\<lambda>m. n + m) r, buf' # bufs', c'')))"

definition Cursor_read_exact :: "bytes \<Rightarrow> cursor \<Rightarrow> (io_error + unit) \<times> bytes \<times> cursor" where
  "Cursor_read_exact buf c =
     (case slice_read_exact buf (remaining_slice c) of
        (Inl e, buf', _) \<Rightarrow> (Inl e, buf', c)
      | (Inr _, buf', _) \<Rightarrow> (Inr (), buf', c\<lparr>pos := (pos c + length buf) mod USIZE\<rparr>))"

definition Cursor_fill_buf :: "cursor fill_op" where
  "Cursor_fill_buf c = (Inr (remaining_slice c), c)"

definition Cursor_consume :: "nat \<Rightarrow> cursor \<Rightarrow> cursor" where
  "Cursor_consume amt c = c\<lparr>pos := (pos c + amt) mod USIZE\<rparr>"

text \<open>\<open>Cursor<&mut [u8]>\<close> and \<open>Cursor<Box<[u8]>>\<close> write in place, \<open>Cursor<Vec<u8>>\<close> grows.\<close>

definition slice_write :: "cursor write_op" where
  "slice_write buf c =
     (let p = min (pos c) (length (inner c));
          amt = min (length buf) (length (inner c) - p)
      in (Inr amt, c\<lparr>inner := take p (inner c) @ take amt buf @ drop (p + amt) (inner c),
                     pos := (pos c + amt) mod USIZE\<rparr>))"

fun slice_write_vectored :: "bytes list \<Rightarrow> cursor \<Rightarrow> (io_error + nat) \<times> cursor" where
  "slice_write_vectored [] c = (Inr 0, c)"
| "slice_write_vectored (buf # bufs) c =
     (case slice_write buf c of
        (Inl e, c') \<Rightarrow> (Inl e, c')
      | (Inr n, c') \<Rightarrow>
          if n < length buf then (Inr n, c')
          else (case slice_write_vectored bufs c' of (r, c'') \<Rightarrow> (map_ok (\<lambda>m. n + m) r, c'')))"

definition vec_write :: "cursor write_op" where
  "vec_write buf c =
     (let vec = (if length (inner c) < pos c then inner c @ replicate (pos c - length (inner c)) 0 else inner c);
          space = length vec - pos c;
          left = take (min space (length buf)) buf;
          right = drop (min space (length buf)) buf
      in (Inr (length buf),
          c\<lparr>inner := take (pos c) vec @ left @ drop (pos c + length left) vec @ right, pos := pos c + length buf\<rparr>))"

fun vec_write_vectored :: "bytes list \<Rightarrow> cursor \<Rightarrow> (io_error + nat) \<times> cursor" where
  "vec_write_vectored [] c = (Inr 0, c)"
| "vec_write_vectored (buf # bufs) c =
     (case vec_write buf c of
        (Inl e, c') \<Rightarrow> (Inl e, c')
      | (Inr n, c') \<Rightarrow> (case vec_write_vectored bufs c' of (r, c'') \<Rightarrow> (map_ok (\<lambda>m. n + m) r, c'')))"

section \<open>Empty and Sink\<close>

definition Empty_read :: "unit read_op" where
  "Empty_read buf self = (Inr 0, buf, self)"

definition Sink_write :: "unit write_op" where
  "Sink_write buf self = (Inr (length buf), self)"

definition Sink_write_vectored :: "bytes list \<Rightarrow> unit \<Rightarrow> (io_error + nat) \<times> unit" where
  "Sink_write_vectored bufs self = (Inr (sum_list (map length bufs)), self)"

definition Repeat_read :: "u8 read_op" where
  "Repeat_read buf byte = (Inr (length buf), replicate (length buf) byte, byte)"

section \<open>The contracts hold\<close>

interpretation slice_rd: reader "\<lambda>_. True" "\<lambda>s. s" "\<lambda>_. 0" slice_read
  by unfold_locales (auto simp: slice_read_def Let_def min_def)

interpretation slice_bf: buffered "\<lambda>_. True" "\<lambda>s. s" "\<lambda>_. 0" slice_fill_buf slice_consume
  by unfold_locales (auto simp: slice_fill_buf_def slice_consume_def)

interpretation empty_rd: reader "\<lambda>_. True" "\<lambda>_. []" "\<lambda>_. 0" Empty_read
  by unfold_locales (auto simp: Empty_read_def)

definition cursor_inv :: "cursor \<Rightarrow> bool" where
  "cursor_inv c \<longleftrightarrow> length (inner c) < USIZE \<and> pos c < USIZE"

lemma cursor_advance:
  "cursor_inv c \<Longrightarrow> n \<le> length (remaining_slice c) \<Longrightarrow>
   cursor_inv (c\<lparr>pos := (pos c + n) mod USIZE\<rparr>)
   \<and> remaining_slice (c\<lparr>pos := (pos c + n) mod USIZE\<rparr>) = drop n (remaining_slice c)"
proof (cases "pos c \<le> length (inner c)")
  case True
  assume c: "cursor_inv c" "n \<le> length (remaining_slice c)"
  then have "pos c + n \<le> length (inner c)" using True by (simp add: remaining_slice_def min_def)
  moreover from this have "(pos c + n) mod USIZE = pos c + n" using c by (simp add: cursor_inv_def)
  ultimately show ?thesis using c True by (simp add: remaining_slice_def cursor_inv_def min_def add.commute)
next
  case False
  assume c: "cursor_inv c" "n \<le> length (remaining_slice c)"
  then have "n = 0" using False by (simp add: remaining_slice_def min_def)
  then show ?thesis using c by (simp add: cursor_inv_def)
qed

interpretation cursor_rd: reader cursor_inv remaining_slice "\<lambda>_. 0" Cursor_read
proof (unfold_locales, goal_cases)
  case (1 c buf n buf' c')
  then have "n = min (length buf) (length (remaining_slice c))"
    "buf' = take n (remaining_slice c) @ drop n buf" "c' = c\<lparr>pos := (pos c + n) mod USIZE\<rparr>"
    by (auto simp: Cursor_read_def slice_read_def Let_def)
  then show ?case using cursor_advance [OF 1(1), of n] by (auto simp: min_def)
qed (auto simp: Cursor_read_def slice_read_def Let_def)

interpretation cursor_bf: buffered cursor_inv remaining_slice "\<lambda>_. 0" Cursor_fill_buf Cursor_consume
  using cursor_advance by unfold_locales (auto simp: Cursor_fill_buf_def Cursor_consume_def cursor_inv_def)

interpretation slice_cursor: two_readers "\<lambda>_. True" "\<lambda>s. s" "\<lambda>_. 0" slice_read cursor_inv remaining_slice "\<lambda>_. 0" Cursor_read
  by unfold_locales

interpretation slice_cursor_bf: two_buffered "\<lambda>_. True" "\<lambda>s. s" "\<lambda>_. 0" slice_fill_buf slice_consume
  cursor_inv remaining_slice "\<lambda>_. 0" Cursor_fill_buf Cursor_consume
  by unfold_locales

interpretation taken_cursor: taken_reader cursor_inv remaining_slice "\<lambda>_. 0" Cursor_read
  by unfold_locales

interpretation taken_cursor_bf: taken_buffered cursor_inv remaining_slice "\<lambda>_. 0" Cursor_fill_buf Cursor_consume
  by unfold_locales

interpretation vec_wr: writer "\<lambda>_. True" "\<lambda>s. s" "\<lambda>_. 0" vec_append_write
  by unfold_locales (auto simp: vec_append_write_def)

interpretation mut_slice_wr: writer "\<lambda>_. True" os_done "\<lambda>_. 0" mut_slice_write
  by unfold_locales (auto simp: mut_slice_write_def Let_def)

text \<open>What a cursor over a vector holds after a write: the old bytes around the new ones, a gap filled with zeros.\<close>

lemma vec_write_eq:
  "vec_write buf c =
     (Inr (length buf), \<lparr>inner = take (pos c) (inner c) @ replicate (pos c - length (inner c)) 0 @ buf
        @ drop (pos c + length buf) (inner c), pos = pos c + length buf\<rparr>)"
  by (cases c) (auto simp: vec_write_def Let_def min_def)

interpretation cursor_wr: writer "\<lambda>c. pos c \<le> length (inner c)" "\<lambda>c. take (pos c) (inner c)" "\<lambda>_. 0" vec_write
  by unfold_locales (auto simp: vec_write_eq)

interpretation take_chain: taken_reader "chain_inv (\<lambda>_. True) cursor_inv" "chain_avail (\<lambda>s. s) remaining_slice"
  "chain_rank (\<lambda>_. 0) (\<lambda>_. 0)" "Chain_read slice_read Cursor_read"
  by unfold_locales

section \<open>Properties\<close>

text \<open>
  A cursor over a vector gives back what was written to it, wherever its position is: the write
  succeeds in full, leaves the bytes before and behind the written ones as they were, fills a gap behind
  the old end with zeros, and \<open>seek\<close> to the old position followed by \<open>read_exact\<close> returns the bytes
  written and leaves the cursor where the write left it.
\<close>
theorem cursor_write_read_back:
  assumes "length buf = length bs" "pos c + length bs < USIZE"
  shows "\<exists>c1. vec_write bs c = (Inr (length bs), c1)
    \<and> length (inner c1) = max (length (inner c)) (pos c + length bs)
    \<and> take (pos c) (inner c1) = take (pos c) (inner c) @ replicate (pos c - length (inner c)) 0
    \<and> drop (pos c + length bs) (inner c1) = drop (pos c + length bs) (inner c)
    \<and> Cursor_read_exact buf (snd (Cursor_seek (Start (pos c)) c1)) = (Inr (), bs, c1)"
  using assms by (auto simp: vec_write_eq Cursor_read_exact_def slice_read_exact_def remaining_slice_def)

theorem cursor_write_read_back_witness:
  "\<exists>c1. vec_write [7, 8] \<lparr>inner = [1], pos = 2\<rparr> = (Inr 2, c1) \<and> inner c1 = [1, 0, 7, 8]
    \<and> Cursor_read_exact [0, 0] (snd (Cursor_seek (Start 2) c1)) = (Inr (), [7, 8], c1)"
  using cursor_write_read_back [of "[0, 0]" "[7, 8]" "\<lparr>inner = [1], pos = 2\<rparr>"]
  by (simp add: vec_write_eq numeral_2_eq_2)

text \<open>
  C36. \<open>read_exact\<close> on \<open>slice.chain(cursor).take(n)\<close> ends, and fills the buffer exactly when the first
  \<open>n\<close> bytes of the slice followed by the rest of the cursor are enough for it; then the buffer holds
  those bytes.  Otherwise it reports \<open>UnexpectedEof\<close> and the start of the buffer holds all of them.
\<close>
theorem chain_take_read_exact:
  assumes "cursor_inv c" "n < USIZE"
  shows "let stream = take n (a @ remaining_slice c)
    in \<exists>buf' t. default_read_exact (Take_read (Chain_read slice_read Cursor_read)) buf (Take_new (Chain_new a c) n) =
         Some (if length buf \<le> length stream then Inr () else Inl eof_error, buf', t)
       \<and> length buf' = length buf \<and> take (length stream) buf' = take (length buf) stream"
proof -
  let ?t = "Take_new (Chain_new a c) n"
  have i: "take_inv (chain_inv (\<lambda>_. True) cursor_inv) ?t"
    using assms by (simp add: take_defs chain_defs Take_new_def Chain_new_def)
  have a: "take_avail (chain_avail (\<lambda>s. s) remaining_slice) ?t = take n (a @ remaining_slice c)"
    by (simp add: take_defs chain_defs Take_new_def Chain_new_def)
  have "\<not> take_chain.taken.own_error e" for e
    by (auto simp: take_chain.taken.own_error_def Take_read_def Chain_read_def slice_read_def Cursor_read_def Let_def
        split: if_splits prod.splits)
  from take_chain.taken.read_exact_infallible [OF i this, of buf] show ?thesis unfolding a Let_def by blast
qed

theorem chain_take_read_exact_witness:
  "\<exists>buf' t. default_read_exact (Take_read (Chain_read slice_read Cursor_read)) [0, 0, 0]
      (Take_new (Chain_new [1] (Cursor_new [2, 3, 4])) 3) = Some (Inr (), buf', t) \<and> buf' = [1, 2, 3]"
  using chain_take_read_exact [of "Cursor_new [2, 3, 4]" 3 "[1]" "[0, 0, 0]"]
  by (auto simp: Cursor_new_def cursor_inv_def remaining_slice_def numeral_3_eq_3)

text \<open>
  \<open>read_until\<close> on a cursor ends and takes exactly the bytes up to and with the first delimiter, or all
  that is left when there is none, appends them to the buffer and returns their number.
\<close>
theorem cursor_read_until:
  assumes "cursor_inv c"
  shows "\<exists>c'. read_until Cursor_fill_buf Cursor_consume d buf c =
      Some (Inr (until_len d (remaining_slice c)), buf @ take (until_len d (remaining_slice c)) (remaining_slice c), c')
    \<and> remaining_slice c' = drop (until_len d (remaining_slice c)) (remaining_slice c)"
proof -
  have "\<not> cursor_bf.own_error e" for e by (simp add: cursor_bf.own_error_def Cursor_fill_buf_def)
  from cursor_bf.read_until_infallible [OF assms this, of d buf] show ?thesis by blast
qed

theorem cursor_read_until_witness:
  "\<exists>c'. read_until Cursor_fill_buf Cursor_consume 10 [1] (Cursor_new [2, 10, 3]) = Some (Inr 2, [1, 2, 10], c')
    \<and> remaining_slice c' = [3]"
proof -
  have r: "remaining_slice (Cursor_new [2, 10, 3]) = [2, 10, 3]" by (simp add: Cursor_new_def remaining_slice_def)
  have u: "until_len 10 [2, 10, 3] = 2" by (simp add: until_len_def memchr_simps)
  have "cursor_inv (Cursor_new [2, 10, 3])" by (simp add: Cursor_new_def cursor_inv_def)
  from cursor_read_until [OF this, of 10 "[1]"] show ?thesis unfolding r u by simp
qed

end
