(* ===== verification/Opaque.thy ===== *)
theory Opaque
  imports Leb128 Io_Cursor
begin

text \<open>
  \<open>sgx_serialize\<close>, opaque.rs: the encoder that writes into a cursor over a vector and the decoder that reads
  a byte slice.  An operation takes the encoder or decoder and returns \<open>None\<close> when it panics, otherwise its
  \<open>Result\<close> and the new state.  \<open>f32\<close> and \<open>f64\<close> are their bit patterns, a \<open>str\<close> is its bytes, signed
  numbers are their two's complement.
\<close>

type_synonym ('s, 'e, 'a) fallible = "'s \<Rightarrow> (('e + 'a) \<times> 's) option"

definition ok_ret :: "'a \<Rightarrow> ('s, 'e, 'a) fallible" where
  "ok_ret x s = Some (Inr x, s)"

definition err_ret :: "'e \<Rightarrow> ('s, 'e, 'a) fallible" where
  "err_ret e s = Some (Inl e, s)"

text \<open>The question-mark operator.\<close>

definition try_bind :: "('s, 'e, 'a) fallible \<Rightarrow> ('a \<Rightarrow> ('s, 'e, 'b) fallible) \<Rightarrow> ('s, 'e, 'b) fallible" where
  "try_bind m k s =
     (case m s of
        None \<Rightarrow> None
      | Some (Inl e, s') \<Rightarrow> Some (Inl e, s')
      | Some (Inr x, s') \<Rightarrow> k x s')"

section \<open>Encoder\<close>

type_synonym emit = "(cursor, unit, unit) fallible"

definition write_uleb128 :: "u128 \<Rightarrow> emit" where
  "write_uleb128 v enc =
     (let p = pos enc
      in case write_unsigned_leb128 (inner enc) p v of
           None \<Rightarrow> None
         | Some (bytes_written, vec) \<Rightarrow> Some (Inr (), Cursor_set_position (p + bytes_written) (enc\<lparr>inner := vec\<rparr>)))"

definition write_sleb128 :: "u128 \<Rightarrow> emit" where
  "write_sleb128 v enc =
     (let p = pos enc
      in case write_signed_leb128 (inner enc) p v of
           None \<Rightarrow> None
         | Some (bytes_written, vec) \<Rightarrow> Some (Inr (), Cursor_set_position (p + bytes_written) (enc\<lparr>inner := vec\<rparr>)))"

text \<open>\<open>let _ = self.cursor.write_all(bytes)\<close>: the result is dropped.\<close>

definition write_ignoring :: "bytes \<Rightarrow> emit" where
  "write_ignoring bs enc =
     (case write_all vec_write bs enc of None \<Rightarrow> None | Some (_, enc') \<Rightarrow> Some (Inr (), enc'))"

definition emit_nil :: emit where
  "emit_nil = ok_ret ()"

definition emit_usize :: "usize \<Rightarrow> emit" where
  "emit_usize v = write_uleb128 (ucast v)"

definition emit_u128 :: "u128 \<Rightarrow> emit" where
  "emit_u128 v = write_uleb128 v"

definition emit_u64 :: "u64 \<Rightarrow> emit" where
  "emit_u64 v = write_uleb128 (ucast v)"

definition emit_u32 :: "u32 \<Rightarrow> emit" where
  "emit_u32 v = write_uleb128 (ucast v)"

definition emit_u16 :: "u16 \<Rightarrow> emit" where
  "emit_u16 v = write_uleb128 (ucast v)"

definition emit_u8 :: "u8 \<Rightarrow> emit" where
  "emit_u8 v = write_ignoring [v]"

definition emit_isize :: "64 word \<Rightarrow> emit" where
  "emit_isize v = write_sleb128 (scast v)"

definition emit_i128 :: "128 word \<Rightarrow> emit" where
  "emit_i128 v = write_sleb128 v"

definition emit_i64 :: "64 word \<Rightarrow> emit" where
  "emit_i64 v = write_sleb128 (scast v)"

definition emit_i32 :: "32 word \<Rightarrow> emit" where
  "emit_i32 v = write_sleb128 (scast v)"

definition emit_i16 :: "16 word \<Rightarrow> emit" where
  "emit_i16 v = write_sleb128 (scast v)"

definition emit_i8 :: "8 word \<Rightarrow> emit" where
  "emit_i8 v = write_ignoring [v]"

definition emit_bool :: "bool \<Rightarrow> emit" where
  "emit_bool v = emit_u8 (if v then 1 else 0)"

definition emit_f64 :: "u64 \<Rightarrow> emit" where
  "emit_f64 bits = emit_u64 bits"

definition emit_f32 :: "u32 \<Rightarrow> emit" where
  "emit_f32 bits = emit_u32 bits"

definition emit_char :: "u32 \<Rightarrow> emit" where
  "emit_char v = emit_u32 v"

definition emit_str :: "bytes \<Rightarrow> emit" where
  "emit_str v = try_bind (emit_usize (of_nat (length v))) (\<lambda>_. write_ignoring v)"

section \<open>Decoder\<close>

record decoder =
  dec_data :: bytes
  position :: nat

type_synonym 'a decode = "(decoder, string, 'a) fallible"

definition Decoder_new :: "bytes \<Rightarrow> nat \<Rightarrow> decoder" where
  "Decoder_new data p = \<lparr>dec_data = data, position = p\<rparr>"

text \<open>The casts \<open>value as $t\<close> truncate.\<close>

definition read_uleb128 :: "'a :: len word decode" where
  "read_uleb128 dec =
     (case read_unsigned_leb128 (dec_data dec) (position dec) of
        None \<Rightarrow> None
      | Some (v, bytes_read) \<Rightarrow> Some (Inr (ucast v), dec\<lparr>position := position dec + bytes_read\<rparr>))"

definition read_sleb128 :: "'a :: len word decode" where
  "read_sleb128 dec =
     (case read_signed_leb128 (dec_data dec) (position dec) of
        None \<Rightarrow> None
      | Some (v, bytes_read) \<Rightarrow> Some (Inr (ucast v), dec\<lparr>position := position dec + bytes_read\<rparr>))"

definition read_nil :: "unit decode" where
  "read_nil = ok_ret ()"

definition read_u128 :: "u128 decode" where
  "read_u128 = read_uleb128"

definition read_u64 :: "u64 decode" where
  "read_u64 = read_uleb128"

definition read_u32 :: "u32 decode" where
  "read_u32 = read_uleb128"

definition read_u16 :: "u16 decode" where
  "read_u16 = read_uleb128"

definition read_u8 :: "u8 decode" where
  "read_u8 dec =
     (if position dec < length (dec_data dec) then
        Some (Inr (dec_data dec ! position dec), dec\<lparr>position := position dec + 1\<rparr>)
      else None)"

definition read_usize :: "usize decode" where
  "read_usize = read_uleb128"

definition read_i128 :: "128 word decode" where
  "read_i128 = read_sleb128"

definition read_i64 :: "64 word decode" where
  "read_i64 = read_sleb128"

definition read_i32 :: "32 word decode" where
  "read_i32 = read_sleb128"

definition read_i16 :: "16 word decode" where
  "read_i16 = read_sleb128"

definition read_i8 :: "8 word decode" where
  "read_i8 dec =
     (if position dec < length (dec_data dec) then
        Some (Inr (dec_data dec ! position dec), dec\<lparr>position := position dec + 1\<rparr>)
      else None)"

definition read_isize :: "64 word decode" where
  "read_isize = read_sleb128"

definition read_bool :: "bool decode" where
  "read_bool = try_bind read_u8 (\<lambda>v. ok_ret (v \<noteq> 0))"

definition read_f64 :: "u64 decode" where
  "read_f64 = try_bind read_u64 (\<lambda>bits. ok_ret bits)"

definition read_f32 :: "u32 decode" where
  "read_f32 = try_bind read_u32 (\<lambda>bits. ok_ret bits)"

definition read_char :: "u32 decode" where
  "read_char = try_bind read_u32 (\<lambda>bits. if char_valid bits then ok_ret bits else (\<lambda>_. None))"

text \<open>The slice of the data and the check of its text both panic when they fail.\<close>

definition read_str :: "bytes decode" where
  "read_str = try_bind read_usize (\<lambda>n dec.
     let start = position dec;
         stop = (start + unat n) mod USIZE;
         s = take (stop - start) (drop start (dec_data dec))
     in if start \<le> stop \<and> stop \<le> length (dec_data dec) \<and> utf8_valid s
        then Some (Inr s, dec\<lparr>position := stop\<rparr>) else None)"

section \<open>What an operation writes and reads\<close>

text \<open>An encoder at the end of its vector.\<close>

definition at_end :: "cursor \<Rightarrow> bool" where
  "at_end c \<longleftrightarrow> pos c = length (inner c)"

definition appended :: "bytes \<Rightarrow> cursor \<Rightarrow> cursor" where
  "appended bs c = \<lparr>inner = inner c @ bs, pos = length (inner c @ bs)\<rparr>"

lemma appended_simps [simp]: "at_end (appended bs c)" "appended cs (appended bs c) = appended (bs @ cs) c"
  "at_end c \<Longrightarrow> appended [] c = c" "inner (appended bs c) = inner c @ bs"
  by (simp_all add: at_end_def appended_def)

text \<open>\<open>writes e bs\<close>: at the end of a vector \<open>e\<close> appends \<open>bs\<close> and stays at the end.\<close>

definition writes :: "emit \<Rightarrow> bytes \<Rightarrow> bool" where
  "writes e bs \<longleftrightarrow> (\<forall>c. at_end c \<longrightarrow> e c = Some (Inr (), appended bs c))"

text \<open>
  \<open>reads d x bs\<close>: \<open>d\<close> returns \<open>x\<close> on \<open>bs\<close> and consumes it, wherever it stands and whatever follows;
  on data that end inside \<open>bs\<close> it panics.
\<close>

definition reads :: "'a decode \<Rightarrow> 'a \<Rightarrow> bytes \<Rightarrow> bool" where
  "reads d x bs \<longleftrightarrow>
     (\<forall>p q. length (p @ bs @ q) < USIZE \<longrightarrow>
        d \<lparr>dec_data = p @ bs @ q, position = length p\<rparr> = Some (Inr x, \<lparr>dec_data = p @ bs @ q, position = length (p @ bs)\<rparr>))
     \<and> (\<forall>p n. n < length bs \<longrightarrow> length p + n < USIZE \<longrightarrow> d \<lparr>dec_data = p @ take n bs, position = length p\<rparr> = None)"

named_theorems conveys

lemma writes_ret [conveys]: "writes (ok_ret ()) []"
  by (simp add: writes_def ok_ret_def)

lemma writes_bind [conveys]: "writes e bs \<Longrightarrow> writes (k ()) cs \<Longrightarrow> writes (try_bind e k) (bs @ cs)"
  by (simp add: writes_def try_bind_def)

lemma reads_ret: "reads (ok_ret x) x []"
  by (simp add: reads_def ok_ret_def)

lemma reads_bind:
  assumes d: "reads d x bs" and k: "reads (k x) y cs"
  shows "reads (try_bind d k) y (bs @ cs)"
  unfolding reads_def
proof (intro conjI allI impI)
  fix p q :: bytes
  assume l: "length (p @ (bs @ cs) @ q) < USIZE"
  have "d \<lparr>dec_data = p @ bs @ (cs @ q), position = length p\<rparr> =
      Some (Inr x, \<lparr>dec_data = p @ bs @ (cs @ q), position = length (p @ bs)\<rparr>)"
    using d l unfolding reads_def by (metis append_assoc)
  moreover have "k x \<lparr>dec_data = (p @ bs) @ cs @ q, position = length (p @ bs)\<rparr> =
      Some (Inr y, \<lparr>dec_data = (p @ bs) @ cs @ q, position = length ((p @ bs) @ cs)\<rparr>)"
    using k l unfolding reads_def by (metis append_assoc)
  ultimately show "try_bind d k \<lparr>dec_data = p @ (bs @ cs) @ q, position = length p\<rparr> =
      Some (Inr y, \<lparr>dec_data = p @ (bs @ cs) @ q, position = length (p @ bs @ cs)\<rparr>)"
    by (simp add: try_bind_def)
next
  fix p :: bytes and n
  assume n: "n < length (bs @ cs)" and l: "length p + n < USIZE"
  show "try_bind d k \<lparr>dec_data = p @ take n (bs @ cs), position = length p\<rparr> = None"
  proof (cases "n < length bs")
    case True
    then show ?thesis using d l unfolding reads_def by (simp add: try_bind_def)
  next
    case False
    let ?q = "take (n - length bs) cs"
    have "length (p @ bs @ ?q) < USIZE" using False l n by simp
    then have "d \<lparr>dec_data = p @ bs @ ?q, position = length p\<rparr> = Some (Inr x, \<lparr>dec_data = p @ bs @ ?q, position = length (p @ bs)\<rparr>)"
      using d unfolding reads_def by blast
    moreover have "k x \<lparr>dec_data = (p @ bs) @ ?q, position = length (p @ bs)\<rparr> = None"
    proof -
      have "n - length bs < length cs" "length (p @ bs) + (n - length bs) < USIZE" using False n l by auto
      then show ?thesis using k unfolding reads_def by blast
    qed
    ultimately show ?thesis using False by (simp add: try_bind_def)
  qed
qed

lemma reads_bind_ret: "reads d x bs \<Longrightarrow> f x = y \<Longrightarrow> reads (try_bind d (\<lambda>x. ok_ret (f x))) y bs"
  using reads_bind [of d x bs "\<lambda>x. ok_ret (f x)" "f x" "[]"] by (simp add: reads_ret)

text \<open>Primitive values.\<close>

lemma writes_uleb: "writes (write_uleb128 v) (uleb v)"
  by (simp add: writes_def write_uleb128_def at_end_def appended_def Cursor_set_position_def)

lemma writes_sleb: "writes (write_sleb128 v) (sleb v)"
  by (simp add: writes_def write_sleb128_def at_end_def appended_def Cursor_set_position_def)

lemma write_all_cursor: "at_end c \<Longrightarrow> write_all vec_write bs c = Some (Inr (), appended bs c)"
  by (cases "bs = []")
    (simp_all add: write_all.simps [of vec_write bs] write_all.simps [of vec_write "[]"] vec_write_eq at_end_def appended_def)

lemma writes_bytes: "writes (write_ignoring bs) bs"
  by (simp add: writes_def write_ignoring_def write_all_cursor)

lemma reads_uleb: "reads read_uleb128 (ucast v) (uleb v)"
  by (simp add: reads_def read_uleb128_def read_unsigned_leb128_truncated)

lemma reads_uleb_narrow: "LENGTH('a) \<le> 128 \<Longrightarrow> reads read_uleb128 v (uleb (ucast v))" for v :: "'a :: len word"
  proof -
  assume "LENGTH('a) \<le> 128"
  then have "ucast (ucast v :: u128) = v" by (intro bit_word_eqI) (auto simp: bit_simps)
  then show ?thesis using reads_uleb [where v = "ucast v" and 'a = 'a] by simp
qed

lemma reads_sleb_narrow: "LENGTH('a) \<le> 64 \<Longrightarrow> reads read_sleb128 v (sleb (scast v))" for v :: "'a :: len word"
proof -
  assume l: "LENGTH('a) \<le> 64"
  have "read_sleb128 \<lparr>dec_data = p @ sleb (scast v) @ q, position = length p\<rparr>
    = Some (Inr v, \<lparr>dec_data = p @ sleb (scast v) @ q, position = length (p @ sleb (scast v))\<rparr>)" for p q
    using signed_narrow_roundtrip [OF l, of p v q] by (auto simp: read_sleb128_def)
  then show ?thesis by (simp add: reads_def) (simp add: read_sleb128_def read_signed_leb128_truncated)
qed

lemma reads_byte: "reads read_u8 b [b]"
  by (simp add: reads_def read_u8_def)

text \<open>An \<open>i128\<close> that comes back from its encoding.\<close>

definition i128_survives :: "128 word \<Rightarrow> bool" where
  "i128_survives v \<longleftrightarrow> \<not> (v <s 0 \<and> 10 \<le> length (sleb v) \<and> length (sleb v) \<le> 18)"

lemma reads_i128: "i128_survives v \<Longrightarrow> reads read_i128 v (sleb v)"
proof -
  assume v: "i128_survives v"
  then have "read_i128 \<lparr>dec_data = p @ sleb v @ q, position = length p\<rparr>
    = Some (Inr v, \<lparr>dec_data = p @ sleb v @ q, position = length (p @ sleb v)\<rparr>)" for p q
    using i128_read_back_iff [of p v q] by (simp add: read_i128_def read_sleb128_def i128_survives_def)
  then show ?thesis by (simp add: reads_def) (simp add: read_i128_def read_sleb128_def read_signed_leb128_truncated)
qed

lemma mod_wraps: "a < m \<Longrightarrow> b < m \<Longrightarrow> (a + b) mod m = (if a + b < m then a + b else a + b - m)" for a b m :: nat
  by (simp add: le_mod_geq)

lemma reads_str:
  assumes "utf8_valid s" "length s < 2 ^ 63"
  shows "reads read_str s (uleb (ucast (of_nat (length s) :: usize)) @ s)"
  unfolding read_str_def
proof (rule reads_bind)
  show "reads read_usize (of_nat (length s)) (uleb (ucast (of_nat (length s) :: usize)))"
    unfolding read_usize_def by (rule reads_uleb_narrow) simp
  have u: "unat (of_nat (length s) :: usize) = length s" using assms(2) by (simp add: unat_of_nat take_bit_nat_eq_self)
  have w: "(length p + length s) mod USIZE < length p \<or> length p + n < (length p + length s) mod USIZE"
    if "n < length s" "length p + n < USIZE" for p :: bytes and n
    using mod_wraps [of "length p" USIZE "length s"] that assms(2) by auto
  from u show "reads (\<lambda>dec. let start = position dec; stop = (start + unat (of_nat (length s) :: usize)) mod USIZE;
        s = take (stop - start) (drop start (dec_data dec))
      in if start \<le> stop \<and> stop \<le> length (dec_data dec) \<and> utf8_valid s then Some (Inr s, dec\<lparr>position := stop\<rparr>) else None) s s"
    using assms(1) w by (fastforce simp: reads_def Let_def)
qed

end
