(* ===== verification/Serialize.thy ===== *)
theory Serialize
  imports Opaque
begin

text \<open>
  \<open>sgx_serialize\<close>, serialize.rs: the provided methods of the \<open>Encoder\<close> and \<open>Decoder\<close> traits, the
  \<open>Serializable\<close> and \<open>DeSerializable\<close> implementations, and the two helpers, over the encoder and decoder of
  opaque.rs, which keep the provided methods.  An implementation for a generic type takes the encoders
  and decoders of the type's parameters.
\<close>

section \<open>Provided methods of Encoder\<close>

definition emit_enum :: "string \<Rightarrow> emit \<Rightarrow> emit" where
  "emit_enum name f = f"

definition emit_enum_variant :: "string \<Rightarrow> nat \<Rightarrow> nat \<Rightarrow> emit \<Rightarrow> emit" where
  "emit_enum_variant v_name v_id len f = try_bind (emit_usize (of_nat v_id)) (\<lambda>_. f)"

definition emit_enum_variant_arg :: "nat \<Rightarrow> emit \<Rightarrow> emit" where
  "emit_enum_variant_arg a_idx f = f"

definition emit_enum_struct_variant :: "string \<Rightarrow> nat \<Rightarrow> nat \<Rightarrow> emit \<Rightarrow> emit" where
  "emit_enum_struct_variant v_name v_id len f = emit_enum_variant v_name v_id len f"

definition emit_enum_struct_variant_field :: "string \<Rightarrow> nat \<Rightarrow> emit \<Rightarrow> emit" where
  "emit_enum_struct_variant_field f_name f_idx f = emit_enum_variant_arg f_idx f"

definition emit_struct :: "string \<Rightarrow> nat \<Rightarrow> emit \<Rightarrow> emit" where
  "emit_struct name len f = f"

definition emit_struct_field :: "string \<Rightarrow> nat \<Rightarrow> emit \<Rightarrow> emit" where
  "emit_struct_field f_name f_idx f = f"

definition emit_tuple :: "nat \<Rightarrow> emit \<Rightarrow> emit" where
  "emit_tuple len f = f"

definition emit_tuple_arg :: "nat \<Rightarrow> emit \<Rightarrow> emit" where
  "emit_tuple_arg idx f = f"

definition emit_tuple_struct :: "string \<Rightarrow> nat \<Rightarrow> emit \<Rightarrow> emit" where
  "emit_tuple_struct name len f = emit_tuple len f"

definition emit_tuple_struct_arg :: "nat \<Rightarrow> emit \<Rightarrow> emit" where
  "emit_tuple_struct_arg f_idx f = emit_tuple_arg f_idx f"

definition emit_option :: "emit \<Rightarrow> emit" where
  "emit_option f = emit_enum ''Option'' f"

definition emit_option_none :: emit where
  "emit_option_none = emit_enum_variant ''None'' 0 0 (ok_ret ())"

definition emit_option_some :: "emit \<Rightarrow> emit" where
  "emit_option_some f = emit_enum_variant ''Some'' 1 1 f"

definition emit_seq :: "nat \<Rightarrow> emit \<Rightarrow> emit" where
  "emit_seq len f = try_bind (emit_usize (of_nat len)) (\<lambda>_. f)"

definition emit_seq_elt :: "nat \<Rightarrow> emit \<Rightarrow> emit" where
  "emit_seq_elt idx f = f"

definition emit_map :: "nat \<Rightarrow> emit \<Rightarrow> emit" where
  "emit_map len f = try_bind (emit_usize (of_nat len)) (\<lambda>_. f)"

definition emit_map_elt_key :: "nat \<Rightarrow> emit \<Rightarrow> emit" where
  "emit_map_elt_key idx f = f"

definition emit_map_elt_val :: "nat \<Rightarrow> emit \<Rightarrow> emit" where
  "emit_map_elt_val idx f = f"

section \<open>Provided methods of Decoder\<close>

definition read_enum :: "string \<Rightarrow> 'a decode \<Rightarrow> 'a decode" where
  "read_enum name f = f"

definition read_enum_variant :: "string list \<Rightarrow> (nat \<Rightarrow> 'a decode) \<Rightarrow> 'a decode" where
  "read_enum_variant names f = try_bind read_usize (\<lambda>disr. f (unat disr))"

definition read_enum_variant_arg :: "nat \<Rightarrow> 'a decode \<Rightarrow> 'a decode" where
  "read_enum_variant_arg a_idx f = f"

definition read_enum_struct_variant :: "string list \<Rightarrow> (nat \<Rightarrow> 'a decode) \<Rightarrow> 'a decode" where
  "read_enum_struct_variant names f = read_enum_variant names f"

definition read_enum_struct_variant_field :: "string \<Rightarrow> nat \<Rightarrow> 'a decode \<Rightarrow> 'a decode" where
  "read_enum_struct_variant_field f_name f_idx f = read_enum_variant_arg f_idx f"

definition read_struct :: "string \<Rightarrow> nat \<Rightarrow> 'a decode \<Rightarrow> 'a decode" where
  "read_struct s_name len f = f"

definition read_struct_field :: "string \<Rightarrow> nat \<Rightarrow> 'a decode \<Rightarrow> 'a decode" where
  "read_struct_field f_name f_idx f = f"

definition read_tuple :: "nat \<Rightarrow> 'a decode \<Rightarrow> 'a decode" where
  "read_tuple len f = f"

definition read_tuple_arg :: "nat \<Rightarrow> 'a decode \<Rightarrow> 'a decode" where
  "read_tuple_arg a_idx f = f"

definition read_tuple_struct :: "string \<Rightarrow> nat \<Rightarrow> 'a decode \<Rightarrow> 'a decode" where
  "read_tuple_struct s_name len f = read_tuple len f"

definition read_tuple_struct_arg :: "nat \<Rightarrow> 'a decode \<Rightarrow> 'a decode" where
  "read_tuple_struct_arg a_idx f = read_tuple_arg a_idx f"

definition read_option :: "(bool \<Rightarrow> 'a decode) \<Rightarrow> 'a decode" where
  "read_option f = read_enum ''Option'' (read_enum_variant [''None'', ''Some''] (\<lambda>idx.
     if idx = 0 then f False
     else if idx = 1 then f True
     else err_ret ''read_option: expected 0 for None or 1 for Some''))"

definition read_seq :: "(nat \<Rightarrow> 'a decode) \<Rightarrow> 'a decode" where
  "read_seq f = try_bind read_usize (\<lambda>len. f (unat len))"

definition read_seq_elt :: "nat \<Rightarrow> 'a decode \<Rightarrow> 'a decode" where
  "read_seq_elt idx f = f"

definition read_map :: "(nat \<Rightarrow> 'a decode) \<Rightarrow> 'a decode" where
  "read_map f = try_bind read_usize (\<lambda>len. f (unat len))"

definition read_map_elt_key :: "nat \<Rightarrow> 'a decode \<Rightarrow> 'a decode" where
  "read_map_elt_key idx f = f"

definition read_map_elt_val :: "nat \<Rightarrow> 'a decode \<Rightarrow> 'a decode" where
  "read_map_elt_val idx f = f"

lemmas provided_defs = emit_enum_def emit_enum_variant_def emit_enum_variant_arg_def emit_enum_struct_variant_def
  emit_enum_struct_variant_field_def emit_struct_def emit_struct_field_def emit_tuple_def emit_tuple_arg_def
  emit_tuple_struct_def emit_tuple_struct_arg_def emit_option_def emit_option_none_def emit_option_some_def
  emit_seq_def emit_seq_elt_def emit_map_def emit_map_elt_key_def emit_map_elt_val_def
  read_enum_def read_enum_variant_def read_enum_variant_arg_def read_enum_struct_variant_def
  read_enum_struct_variant_field_def read_struct_def read_struct_field_def read_tuple_def read_tuple_arg_def
  read_tuple_struct_def read_tuple_struct_arg_def read_option_def read_seq_def read_seq_elt_def
  read_map_def read_map_elt_key_def read_map_elt_val_def

section \<open>Primitive types\<close>

datatype uint = Usize usize | U8 u8 | U16 u16 | U32 u32 | U64 u64 | U128 u128

datatype uint_type = TUsize | TU8 | TU16 | TU32 | TU64 | TU128

fun encode_uint :: "uint \<Rightarrow> emit" where
  "encode_uint (Usize v) = emit_usize v"
| "encode_uint (U8 v) = emit_u8 v"
| "encode_uint (U16 v) = emit_u16 v"
| "encode_uint (U32 v) = emit_u32 v"
| "encode_uint (U64 v) = emit_u64 v"
| "encode_uint (U128 v) = emit_u128 v"

fun decode_uint :: "uint_type \<Rightarrow> uint decode" where
  "decode_uint TUsize = try_bind read_usize (\<lambda>v. ok_ret (Usize v))"
| "decode_uint TU8 = try_bind read_u8 (\<lambda>v. ok_ret (U8 v))"
| "decode_uint TU16 = try_bind read_u16 (\<lambda>v. ok_ret (U16 v))"
| "decode_uint TU32 = try_bind read_u32 (\<lambda>v. ok_ret (U32 v))"
| "decode_uint TU64 = try_bind read_u64 (\<lambda>v. ok_ret (U64 v))"
| "decode_uint TU128 = try_bind read_u128 (\<lambda>v. ok_ret (U128 v))"

datatype iint = Isize "64 word" | I8 "8 word" | I16 "16 word" | I32 "32 word" | I64 "64 word" | I128 "128 word"

datatype iint_type = TIsize | TI8 | TI16 | TI32 | TI64 | TI128

fun encode_iint :: "iint \<Rightarrow> emit" where
  "encode_iint (Isize v) = emit_isize v"
| "encode_iint (I8 v) = emit_i8 v"
| "encode_iint (I16 v) = emit_i16 v"
| "encode_iint (I32 v) = emit_i32 v"
| "encode_iint (I64 v) = emit_i64 v"
| "encode_iint (I128 v) = emit_i128 v"

fun decode_iint :: "iint_type \<Rightarrow> iint decode" where
  "decode_iint TIsize = try_bind read_isize (\<lambda>v. ok_ret (Isize v))"
| "decode_iint TI8 = try_bind read_i8 (\<lambda>v. ok_ret (I8 v))"
| "decode_iint TI16 = try_bind read_i16 (\<lambda>v. ok_ret (I16 v))"
| "decode_iint TI32 = try_bind read_i32 (\<lambda>v. ok_ret (I32 v))"
| "decode_iint TI64 = try_bind read_i64 (\<lambda>v. ok_ret (I64 v))"
| "decode_iint TI128 = try_bind read_i128 (\<lambda>v. ok_ret (I128 v))"

text \<open>\<open>SStr\<close> is the bytes of a \<open>str\<close> or \<open>String\<close>, \<open>SChar\<close> a scalar value.\<close>

datatype scalar = SStr bytes | SF32 u32 | SF64 u64 | SBool bool | SChar u32 | SNil

datatype scalar_type = TSStr | TSF32 | TSF64 | TSBool | TSChar | TSNil

fun encode_scalar :: "scalar \<Rightarrow> emit" where
  "encode_scalar (SStr v) = emit_str v"
| "encode_scalar (SF32 v) = emit_f32 v"
| "encode_scalar (SF64 v) = emit_f64 v"
| "encode_scalar (SBool v) = emit_bool v"
| "encode_scalar (SChar v) = emit_char v"
| "encode_scalar SNil = emit_nil"

fun decode_scalar :: "scalar_type \<Rightarrow> scalar decode" where
  "decode_scalar TSStr = try_bind read_str (\<lambda>v. ok_ret (SStr v))"
| "decode_scalar TSF32 = try_bind read_f32 (\<lambda>v. ok_ret (SF32 v))"
| "decode_scalar TSF64 = try_bind read_f64 (\<lambda>v. ok_ret (SF64 v))"
| "decode_scalar TSBool = try_bind read_bool (\<lambda>v. ok_ret (SBool v))"
| "decode_scalar TSChar = try_bind read_char (\<lambda>v. ok_ret (SChar v))"
| "decode_scalar TSNil = try_bind read_nil (\<lambda>_. ok_ret SNil)"

section \<open>Pointers and cells\<close>

datatype 'a boxed = Boxed 'a

fun encode_box :: "('a \<Rightarrow> emit) \<Rightarrow> 'a boxed \<Rightarrow> emit" where
  "encode_box e (Boxed x) = e x"

definition decode_box :: "'a decode \<Rightarrow> 'a boxed decode" where
  "decode_box d = try_bind d (\<lambda>x. ok_ret (Boxed x))"

datatype 'a rc = Rc 'a

fun encode_rc :: "('a \<Rightarrow> emit) \<Rightarrow> 'a rc \<Rightarrow> emit" where
  "encode_rc e (Rc x) = e x"

definition decode_rc :: "'a decode \<Rightarrow> 'a rc decode" where
  "decode_rc d = try_bind d (\<lambda>x. ok_ret (Rc x))"

datatype 'a arc = Arc 'a

fun encode_arc :: "('a \<Rightarrow> emit) \<Rightarrow> 'a arc \<Rightarrow> emit" where
  "encode_arc e (Arc x) = e x"

definition decode_arc :: "'a decode \<Rightarrow> 'a arc decode" where
  "decode_arc d = try_bind d (\<lambda>x. ok_ret (Arc x))"

datatype 'a cell = Cell 'a

fun encode_cell :: "('a \<Rightarrow> emit) \<Rightarrow> 'a cell \<Rightarrow> emit" where
  "encode_cell e (Cell x) = e x"

definition decode_cell :: "'a decode \<Rightarrow> 'a cell decode" where
  "decode_cell d = try_bind d (\<lambda>x. ok_ret (Cell x))"

text \<open>A \<open>RefCell\<close> with the flag that it is mutably borrowed, when \<open>borrow\<close> panics.\<close>

datatype 'a refcell = RefCell bool 'a

fun encode_refcell :: "('a \<Rightarrow> emit) \<Rightarrow> 'a refcell \<Rightarrow> emit" where
  "encode_refcell e (RefCell borrowed x) = (if borrowed then (\<lambda>_. None) else e x)"

definition decode_refcell :: "'a decode \<Rightarrow> 'a refcell decode" where
  "decode_refcell d = try_bind d (\<lambda>x. ok_ret (RefCell False x))"

text \<open>A \<open>PathBuf\<close> is any byte string; \<open>to_str().unwrap()\<close> panics unless it is text.\<close>

definition encode_pathbuf :: "bytes \<Rightarrow> emit" where
  "encode_pathbuf p = (if utf8_valid p then emit_str p else (\<lambda>_. None))"

definition decode_pathbuf :: "bytes decode" where
  "decode_pathbuf = try_bind read_str (\<lambda>bytes. ok_ret bytes)"

section \<open>Sequences\<close>

fun encode_elts :: "('a \<Rightarrow> emit) \<Rightarrow> nat \<Rightarrow> 'a list \<Rightarrow> emit" where
  "encode_elts e i [] = ok_ret ()"
| "encode_elts e i (x # xs) = try_bind (emit_seq_elt i (e x)) (\<lambda>_. encode_elts e (i + 1) xs)"

text \<open>\<open>decode_elts d push i n v\<close>: the loop over the last \<open>n\<close> indices, starting at \<open>i\<close>.\<close>

fun decode_elts :: "'a decode \<Rightarrow> ('a \<Rightarrow> 'c \<Rightarrow> 'c) \<Rightarrow> nat \<Rightarrow> nat \<Rightarrow> 'c \<Rightarrow> 'c decode" where
  "decode_elts d push i 0 v = ok_ret v"
| "decode_elts d push i (Suc n) v = try_bind (read_seq_elt i d) (\<lambda>x. decode_elts d push (i + 1) n (push x v))"

definition encode_slice :: "('a \<Rightarrow> emit) \<Rightarrow> 'a list \<Rightarrow> emit" where
  "encode_slice e xs = emit_seq (length xs) (encode_elts e 0 xs)"

definition encode_vec :: "('a \<Rightarrow> emit) \<Rightarrow> 'a list \<Rightarrow> emit" where
  "encode_vec e xs = emit_seq (length xs) (encode_elts e 0 xs)"

definition push_back :: "'a \<Rightarrow> 'a list \<Rightarrow> 'a list" where
  "push_back x xs = xs @ [x]"

text \<open>\<open>Vec::with_capacity(len)\<close> panics when the elements, \<open>sz\<close> bytes each, are more than \<open>isize::MAX\<close> bytes.\<close>

definition vec_with_capacity :: "nat \<Rightarrow> nat \<Rightarrow> 'a list option" where
  "vec_with_capacity sz len = (if len * sz < 2 ^ 63 then Some [] else None)"

definition decode_vec :: "nat \<Rightarrow> 'a decode \<Rightarrow> 'a list decode" where
  "decode_vec sz d = read_seq (\<lambda>len.
     case vec_with_capacity sz len of None \<Rightarrow> (\<lambda>_. None) | Some v \<Rightarrow> decode_elts d push_back 0 len v)"

definition decode_boxed_slice :: "nat \<Rightarrow> 'a decode \<Rightarrow> 'a list decode" where
  "decode_boxed_slice sz d = try_bind (decode_vec sz d) (\<lambda>v. ok_ret v)"

definition encode_cow :: "('a \<Rightarrow> emit) \<Rightarrow> 'a list \<Rightarrow> emit" where
  "encode_cow e xs = emit_seq (length xs) (encode_elts e 0 xs)"

definition decode_cow :: "nat \<Rightarrow> 'a decode \<Rightarrow> 'a list decode" where
  "decode_cow sz d = read_seq (\<lambda>len.
     case vec_with_capacity sz len of None \<Rightarrow> (\<lambda>_. None) | Some v \<Rightarrow> decode_elts d push_back 0 len v)"

definition encode_option :: "('a \<Rightarrow> emit) \<Rightarrow> 'a option \<Rightarrow> emit" where
  "encode_option e x = emit_option (case x of None \<Rightarrow> emit_option_none | Some v \<Rightarrow> emit_option_some (e v))"

definition decode_option :: "'a decode \<Rightarrow> 'a option decode" where
  "decode_option d = read_option (\<lambda>b. if b then try_bind d (\<lambda>x. ok_ret (Some x)) else ok_ret None)"

text \<open>\<open>[T; LEN]\<close>: the list of its \<open>LEN\<close> elements.\<close>

definition encode_array :: "nat \<Rightarrow> ('a \<Rightarrow> emit) \<Rightarrow> 'a list \<Rightarrow> emit" where
  "encode_array LEN e xs = emit_seq LEN (encode_elts e 0 (map (\<lambda>i. xs ! i) [0..<LEN]))"

definition decode_array :: "nat \<Rightarrow> 'a decode \<Rightarrow> 'a list decode" where
  "decode_array LEN d = read_seq (\<lambda>len.
     if len \<noteq> LEN then err_ret ''wrong array length'' else decode_elts d push_back 0 LEN [])"

definition encode_linked_list :: "('a \<Rightarrow> emit) \<Rightarrow> 'a list \<Rightarrow> emit" where
  "encode_linked_list e xs = emit_seq (length xs) (encode_elts e 0 xs)"

definition decode_linked_list :: "'a decode \<Rightarrow> 'a list decode" where
  "decode_linked_list d = read_seq (\<lambda>len. decode_elts d push_back 0 len [])"

definition encode_vec_deque :: "('a \<Rightarrow> emit) \<Rightarrow> 'a list \<Rightarrow> emit" where
  "encode_vec_deque e xs = emit_seq (length xs) (encode_elts e 0 xs)"

definition decode_vec_deque :: "'a decode \<Rightarrow> 'a list decode" where
  "decode_vec_deque d = read_seq (\<lambda>len. decode_elts d push_back 0 len [])"

text \<open>
  The tuple macro, for a tuple of any length as the list of its component encoders or decoders: the
  arguments are numbered from 0 and written or read one after the other.
\<close>

fun encode_tuple_args :: "nat \<Rightarrow> emit list \<Rightarrow> emit" where
  "encode_tuple_args i [] = ok_ret ()"
| "encode_tuple_args i (e # es) = try_bind (emit_tuple_arg i e) (\<lambda>_. encode_tuple_args (i + 1) es)"

definition encode_tuple :: "emit list \<Rightarrow> emit" where
  "encode_tuple es = emit_tuple (length es) (encode_tuple_args 0 es)"

fun decode_tuple_args :: "nat \<Rightarrow> 'a decode list \<Rightarrow> 'a list decode" where
  "decode_tuple_args i [] = ok_ret []"
| "decode_tuple_args i (d # ds) =
     try_bind (read_tuple_arg i d) (\<lambda>x. try_bind (decode_tuple_args (i + 1) ds) (\<lambda>xs. ok_ret (x # xs)))"

definition decode_tuple :: "'a decode list \<Rightarrow> 'a list decode" where
  "decode_tuple ds = read_tuple (length ds) (decode_tuple_args 0 ds)"

section \<open>Maps and sets\<close>

fun encode_entries :: "('k \<Rightarrow> emit) \<Rightarrow> ('v \<Rightarrow> emit) \<Rightarrow> nat \<Rightarrow> ('k \<times> 'v) list \<Rightarrow> emit" where
  "encode_entries ek ev i [] = ok_ret ()"
| "encode_entries ek ev i ((k, v) # es) =
     try_bind (emit_map_elt_key i (ek k)) (\<lambda>_.
     try_bind (emit_map_elt_val i (ev v)) (\<lambda>_. encode_entries ek ev (i + 1) es))"

fun decode_entries :: "'k decode \<Rightarrow> 'v decode \<Rightarrow> ('k \<Rightarrow> 'v \<Rightarrow> 'm \<Rightarrow> 'm) \<Rightarrow> nat \<Rightarrow> nat \<Rightarrow> 'm \<Rightarrow> 'm decode" where
  "decode_entries dk dv ins i 0 m = ok_ret m"
| "decode_entries dk dv ins i (Suc n) m =
     try_bind (read_map_elt_key i dk) (\<lambda>key.
     try_bind (read_map_elt_val i dv) (\<lambda>val. decode_entries dk dv ins (i + 1) n (ins key val m)))"

text \<open>\<open>BTreeMap\<close>: the entries in the order of their keys, which is the order of iteration.\<close>

fun btree_insert :: "'k :: linorder \<Rightarrow> 'v \<Rightarrow> ('k \<times> 'v) list \<Rightarrow> ('k \<times> 'v) list" where
  "btree_insert k v [] = [(k, v)]"
| "btree_insert k v ((a, b) # m) =
     (if k < a then (k, v) # (a, b) # m else if k = a then (a, v) # m else (a, b) # btree_insert k v m)"

definition encode_btree_map :: "('k :: linorder \<Rightarrow> emit) \<Rightarrow> ('v \<Rightarrow> emit) \<Rightarrow> ('k \<times> 'v) list \<Rightarrow> emit" where
  "encode_btree_map ek ev m = emit_map (length m) (encode_entries ek ev 0 m)"

definition decode_btree_map :: "'k :: linorder decode \<Rightarrow> 'v decode \<Rightarrow> ('k \<times> 'v) list decode" where
  "decode_btree_map dk dv = read_map (\<lambda>len. decode_entries dk dv btree_insert 0 len [])"

definition encode_btree_set :: "('a :: linorder \<Rightarrow> emit) \<Rightarrow> 'a list \<Rightarrow> emit" where
  "encode_btree_set e xs = emit_seq (length xs) (encode_elts e 0 xs)"

definition decode_btree_set :: "'a :: linorder decode \<Rightarrow> 'a list decode" where
  "decode_btree_set d = read_seq (\<lambda>len. decode_elts d insort_insert 0 len [])"

definition PRE_ALLOCATE_CAP :: nat where
  "PRE_ALLOCATE_CAP = 0x100000"

definition cap_capacity :: "nat \<Rightarrow> nat \<Rightarrow> nat" where
  "cap_capacity sz given_len =
     (if sz = 0 then min given_len PRE_ALLOCATE_CAP else min given_len (PRE_ALLOCATE_CAP div sz))"

text \<open>
  A \<open>HashMap\<close> is the finite map it represents; \<open>iter\<close> is the order, which the hasher determines, in
  which it hands out its entries.  \<open>with_capacity\<close> makes it empty whatever space it reserves.
\<close>

definition hashmap_with_capacity :: "nat \<Rightarrow> 'k \<rightharpoonup> 'v" where
  "hashmap_with_capacity cap = Map.empty"

definition hashmap_insert :: "'k \<Rightarrow> 'v \<Rightarrow> ('k \<rightharpoonup> 'v) \<Rightarrow> ('k \<rightharpoonup> 'v)" where
  "hashmap_insert k v m = m(k \<mapsto> v)"

definition encode_hashmap ::
  "(('k \<rightharpoonup> 'v) \<Rightarrow> ('k \<times> 'v) list) \<Rightarrow> ('k \<Rightarrow> emit) \<Rightarrow> ('v \<Rightarrow> emit) \<Rightarrow> ('k \<rightharpoonup> 'v) \<Rightarrow> emit" where
  "encode_hashmap iter ek ev m = emit_map (length (iter m)) (encode_entries ek ev 0 (iter m))"

definition decode_hashmap :: "nat \<Rightarrow> 'k decode \<Rightarrow> 'v decode \<Rightarrow> ('k \<rightharpoonup> 'v) decode" where
  "decode_hashmap sz dk dv = read_map (\<lambda>len.
     decode_entries dk dv hashmap_insert 0 len (hashmap_with_capacity (cap_capacity sz len)))"

definition hashset_with_capacity :: "nat \<Rightarrow> 'a set" where
  "hashset_with_capacity cap = {}"

definition encode_hashset :: "('a set \<Rightarrow> 'a list) \<Rightarrow> ('a \<Rightarrow> emit) \<Rightarrow> 'a set \<Rightarrow> emit" where
  "encode_hashset iter e s = emit_seq (length (iter s)) (encode_elts e 0 (iter s))"

definition decode_hashset :: "nat \<Rightarrow> 'a decode \<Rightarrow> 'a set decode" where
  "decode_hashset sz d = read_seq (\<lambda>len. decode_elts d insert 0 len (hashset_with_capacity (cap_capacity sz len)))"

section \<open>The helpers\<close>

text \<open>\<open>SerializeHelper\<close> keeps its cursor between calls; the borrows of its \<open>RefCell\<close> end with each call.\<close>

record serialize_helper =
  sh_cursor :: cursor

definition SerializeHelper_new :: serialize_helper where
  "SerializeHelper_new = \<lparr>sh_cursor = Cursor_new []\<rparr>"

definition SerializeHelper_get_size :: "serialize_helper \<Rightarrow> nat" where
  "SerializeHelper_get_size h = length (inner (sh_cursor h))"

definition SerializeHelper_encode :: "('a \<Rightarrow> emit) \<Rightarrow> 'a \<Rightarrow> serialize_helper \<Rightarrow> (bytes option \<times> serialize_helper) option" where
  "SerializeHelper_encode e target h =
     (case e target (sh_cursor h) of
        None \<Rightarrow> None
      | Some (Inl _, c) \<Rightarrow> Some (None, h\<lparr>sh_cursor := c\<rparr>)
      | Some (Inr _, c) \<Rightarrow> Some (Some (inner c), h\<lparr>sh_cursor := c\<rparr>))"

record deserialize_helper =
  dh_data :: bytes

definition DeSerializeHelper_new :: "bytes \<Rightarrow> deserialize_helper" where
  "DeSerializeHelper_new data = \<lparr>dh_data = data\<rparr>"

definition DeSerializeHelper_decode :: "'a decode \<Rightarrow> deserialize_helper \<Rightarrow> 'a option option" where
  "DeSerializeHelper_decode d h =
     (case d (Decoder_new (dh_data h) 0) of
        None \<Rightarrow> None
      | Some (Inl _, _) \<Rightarrow> Some None
      | Some (Inr x, _) \<Rightarrow> Some (Some x))"

section \<open>What the implementations write and read\<close>

text \<open>The bytes of a length or of the number of an enum variant.\<close>

definition len_bytes :: "nat \<Rightarrow> bytes" where
  "len_bytes n = uleb (ucast (of_nat n :: usize))"

lemma writes_len: "writes (emit_usize (of_nat n)) (len_bytes n)"
  by (simp add: emit_usize_def len_bytes_def writes_uleb)

lemma reads_len: "reads read_usize (of_nat n) (len_bytes n)"
  by (simp add: read_usize_def len_bytes_def reads_uleb_narrow)

lemma unat_of_nat_usize: "n < USIZE \<Longrightarrow> unat (of_nat n :: usize) = n"
  by (simp add: unat_of_nat take_bit_nat_eq_self)

lemma writes_seq: "writes f bs \<Longrightarrow> writes (emit_seq n f) (len_bytes n @ bs)"
  unfolding emit_seq_def by (rule writes_bind [OF writes_len])

lemma writes_map: "writes f bs \<Longrightarrow> writes (emit_map n f) (len_bytes n @ bs)"
  unfolding emit_map_def by (rule writes_bind [OF writes_len])

lemma writes_variant: "writes f bs \<Longrightarrow> writes (emit_enum_variant v n len f) (len_bytes n @ bs)"
  unfolding emit_enum_variant_def by (rule writes_bind [OF writes_len])

lemma reads_seq: "n < USIZE \<Longrightarrow> reads (f n) y bs \<Longrightarrow> reads (read_seq f) y (len_bytes n @ bs)"
  unfolding read_seq_def by (rule reads_bind [OF reads_len]) (simp add: unat_of_nat_usize)

lemma reads_map: "n < USIZE \<Longrightarrow> reads (f n) y bs \<Longrightarrow> reads (read_map f) y (len_bytes n @ bs)"
  unfolding read_map_def by (rule reads_bind [OF reads_len]) (simp add: unat_of_nat_usize)

lemma reads_variant: "n < USIZE \<Longrightarrow> reads (f n) y bs \<Longrightarrow> reads (read_enum_variant names f) y (len_bytes n @ bs)"
  unfolding read_enum_variant_def by (rule reads_bind [OF reads_len]) (simp add: unat_of_nat_usize)

text \<open>Sequences, element by element.\<close>

lemma writes_elts:
  "(\<And>x. x \<in> set xs \<Longrightarrow> writes (e x) (ser x)) \<Longrightarrow> writes (encode_elts e i xs) (concat (map ser xs))"
  by (induction xs arbitrary: i) (auto simp: emit_seq_elt_def writes_ret intro: writes_bind)

lemma reads_elts:
  "(\<And>x. x \<in> set xs \<Longrightarrow> reads d x (ser x)) \<Longrightarrow>
   reads (decode_elts d push i (length xs) v) (fold push xs v) (concat (map ser xs))"
  by (induction xs arbitrary: i v) (auto simp: read_seq_elt_def reads_ret intro!: reads_bind)

lemma fold_push_back [simp]: "fold push_back xs v = v @ xs"
  by (induction xs arbitrary: v) (simp_all add: push_back_def)

lemma writes_entries:
  "\<forall>(k, v) \<in> set es. writes (ek k) (sk k) \<and> writes (ev v) (sv v) \<Longrightarrow>
   writes (encode_entries ek ev i es) (concat (map (\<lambda>(k, v). sk k @ sv v) es))"
proof (induction es arbitrary: i)
  case (Cons kv es)
  obtain k v where kv: "kv = (k, v)" by fastforce
  have "writes (encode_entries ek ev i (kv # es)) (sk k @ sv v @ concat (map (\<lambda>(k, v). sk k @ sv v) es))"
    using Cons kv by (auto simp: emit_map_elt_key_def emit_map_elt_val_def intro!: writes_bind)
  then show ?case by (simp add: kv)
qed (simp add: writes_ret)

lemma reads_entries:
  "\<forall>(k, v) \<in> set es. reads dk k (sk k) \<and> reads dv v (sv v) \<Longrightarrow>
   reads (decode_entries dk dv ins i (length es) m) (fold (\<lambda>(k, v). ins k v) es m) (concat (map (\<lambda>(k, v). sk k @ sv v) es))"
proof (induction es arbitrary: i m)
  case (Cons kv es)
  obtain k v where kv: "kv = (k, v)" by fastforce
  have "reads (decode_entries dk dv ins i (length (kv # es)) m) (fold (\<lambda>(k, v). ins k v) es (ins k v m))
      (sk k @ sv v @ concat (map (\<lambda>(k, v). sk k @ sv v) es))"
    using Cons kv by (auto simp: read_map_elt_key_def read_map_elt_val_def intro!: reads_bind)
  then show ?case by (simp add: kv)
qed (simp add: reads_ret)

lemma writes_option:
  "(\<And>v. x = Some v \<Longrightarrow> writes (e v) (ser v)) \<Longrightarrow>
   writes (encode_option e x) (case x of None \<Rightarrow> len_bytes 0 | Some v \<Rightarrow> len_bytes 1 @ ser v)"
  using writes_variant [OF writes_ret, of "''None''" 0 0]
  by (auto simp: encode_option_def emit_option_def emit_enum_def emit_option_none_def emit_option_some_def
      split: option.split intro!: writes_variant)

lemma reads_option:
  "(\<And>v. x = Some v \<Longrightarrow> reads d v (ser v)) \<Longrightarrow>
   reads (decode_option d) x (case x of None \<Rightarrow> len_bytes 0 | Some v \<Rightarrow> len_bytes 1 @ ser v)"
proof (cases x)
  case None
  have "reads (decode_option d) None (len_bytes 0 @ [])"
    unfolding decode_option_def read_option_def read_enum_def by (rule reads_variant) (simp_all add: reads_ret)
  then show ?thesis using None by simp
next
  case (Some v)
  assume "\<And>v. x = Some v \<Longrightarrow> reads d v (ser v)"
  then have "reads d v (ser v)" using Some .
  then have "reads (decode_option d) (Some v) (len_bytes 1 @ ser v)"
    unfolding decode_option_def read_option_def read_enum_def by (intro reads_variant) (simp_all add: reads_bind_ret)
  then show ?thesis using Some by simp
qed

text \<open>Tuples, component by component.\<close>

lemma writes_tuple: "list_all2 writes es bss \<Longrightarrow> writes (encode_tuple es) (concat bss)"
proof -
  have "list_all2 writes es bss \<Longrightarrow> writes (encode_tuple_args i es) (concat bss)" for i
    by (induction es arbitrary: bss i) (auto simp: list_all2_Cons1 emit_tuple_arg_def writes_ret intro!: writes_bind)
  then show "list_all2 writes es bss \<Longrightarrow> ?thesis" by (simp add: encode_tuple_def emit_tuple_def)
qed

text \<open>\<open>reads_all ds xs bss\<close>: every decoder returns its value on its bytes.\<close>

fun reads_all :: "'a decode list \<Rightarrow> 'a list \<Rightarrow> bytes list \<Rightarrow> bool" where
  "reads_all [] [] [] = True"
| "reads_all (d # ds) (x # xs) (bs # bss) = (reads d x bs \<and> reads_all ds xs bss)"
| "reads_all _ _ _ = False"

lemma reads_tuple: "reads_all ds xs bss \<Longrightarrow> reads (decode_tuple ds) xs (concat bss)"
proof -
  have "reads_all ds xs bss \<Longrightarrow> reads (decode_tuple_args i ds) xs (concat bss)" for i
    by (induction ds xs bss arbitrary: i rule: reads_all.induct)
      (auto simp: read_tuple_arg_def reads_ret intro!: reads_bind reads_bind_ret)
  then show "reads_all ds xs bss \<Longrightarrow> ?thesis" by (simp add: decode_tuple_def read_tuple_def)
qed

text \<open>Primitive values.\<close>

fun uint_type_of :: "uint \<Rightarrow> uint_type" where
  "uint_type_of (Usize v) = TUsize"
| "uint_type_of (U8 v) = TU8"
| "uint_type_of (U16 v) = TU16"
| "uint_type_of (U32 v) = TU32"
| "uint_type_of (U64 v) = TU64"
| "uint_type_of (U128 v) = TU128"

fun ser_uint :: "uint \<Rightarrow> bytes" where
  "ser_uint (Usize v) = uleb (ucast v)"
| "ser_uint (U8 v) = [v]"
| "ser_uint (U16 v) = uleb (ucast v)"
| "ser_uint (U32 v) = uleb (ucast v)"
| "ser_uint (U64 v) = uleb (ucast v)"
| "ser_uint (U128 v) = uleb v"

lemma uint_conveyed: "writes (encode_uint v) (ser_uint v)" "reads (decode_uint (uint_type_of v)) v (ser_uint v)"
  by (cases v; simp add: emit_usize_def emit_u8_def emit_u16_def emit_u32_def emit_u64_def emit_u128_def writes_uleb writes_bytes)
    (cases v; auto simp: read_usize_def read_u16_def read_u32_def read_u64_def read_u128_def
      intro!: reads_bind_ret reads_byte reads_uleb_narrow reads_uleb [where 'a = 128, simplified])

fun iint_type_of :: "iint \<Rightarrow> iint_type" where
  "iint_type_of (Isize v) = TIsize"
| "iint_type_of (I8 v) = TI8"
| "iint_type_of (I16 v) = TI16"
| "iint_type_of (I32 v) = TI32"
| "iint_type_of (I64 v) = TI64"
| "iint_type_of (I128 v) = TI128"

fun ser_iint :: "iint \<Rightarrow> bytes" where
  "ser_iint (Isize v) = sleb (scast v)"
| "ser_iint (I8 v) = [v]"
| "ser_iint (I16 v) = sleb (scast v)"
| "ser_iint (I32 v) = sleb (scast v)"
| "ser_iint (I64 v) = sleb (scast v)"
| "ser_iint (I128 v) = sleb v"

text \<open>Every signed number comes back but some negative \<open>i128\<close>.\<close>

fun iint_ok :: "iint \<Rightarrow> bool" where
  "iint_ok (I128 v) = i128_survives v"
| "iint_ok _ = True"

lemma iint_writes: "writes (encode_iint v) (ser_iint v)"
  by (cases v; simp add: emit_isize_def emit_i8_def emit_i16_def emit_i32_def emit_i64_def emit_i128_def writes_sleb writes_bytes)

lemma iint_reads: "iint_ok v \<Longrightarrow> reads (decode_iint (iint_type_of v)) v (ser_iint v)"
  using reads_byte
  by (cases v; auto simp: read_isize_def read_i8_def [abs_def] read_u8_def [abs_def] read_i16_def read_i32_def read_i64_def
      intro!: reads_bind_ret reads_sleb_narrow reads_i128)

fun scalar_type_of :: "scalar \<Rightarrow> scalar_type" where
  "scalar_type_of (SStr v) = TSStr"
| "scalar_type_of (SF32 v) = TSF32"
| "scalar_type_of (SF64 v) = TSF64"
| "scalar_type_of (SBool v) = TSBool"
| "scalar_type_of (SChar v) = TSChar"
| "scalar_type_of SNil = TSNil"

fun ser_scalar :: "scalar \<Rightarrow> bytes" where
  "ser_scalar (SStr v) = len_bytes (length v) @ v"
| "ser_scalar (SF32 v) = uleb (ucast v)"
| "ser_scalar (SF64 v) = uleb (ucast v)"
| "ser_scalar (SBool v) = [if v then 1 else 0]"
| "ser_scalar (SChar v) = uleb (ucast v)"
| "ser_scalar SNil = []"

text \<open>What the types of Rust promise: text is UTF-8 and fits into memory, a \<open>char\<close> is a scalar value.\<close>

fun scalar_ok :: "scalar \<Rightarrow> bool" where
  "scalar_ok (SStr v) = (utf8_valid v \<and> length v < 2 ^ 63)"
| "scalar_ok (SChar v) = char_valid v"
| "scalar_ok _ = True"

lemma scalar_writes: "writes (encode_scalar v) (ser_scalar v)"
  by (cases v; auto simp: emit_str_def emit_f32_def emit_f64_def emit_u32_def emit_u64_def emit_bool_def emit_u8_def
      emit_char_def emit_nil_def writes_uleb writes_bytes writes_ret intro!: writes_bind writes_len)

lemma scalar_reads: "scalar_ok v \<Longrightarrow> reads (decode_scalar (scalar_type_of v)) v (ser_scalar v)"
proof (cases v)
  case (SChar c)
  assume "scalar_ok v"
  then have "reads read_char c (uleb (ucast c) @ [])"
    unfolding read_char_def read_u32_def using SChar by (intro reads_bind [OF reads_uleb_narrow]) (simp_all add: reads_ret)
  then show ?thesis using SChar by (simp add: reads_bind_ret)
next
  case (SBool b)
  have "reads read_bool b [if b then 1 else 0]" unfolding read_bool_def by (rule reads_bind_ret [OF reads_byte]) simp
  then show ?thesis using SBool by (simp add: reads_bind_ret)
next
  case SNil
  then show ?thesis using reads_bind [OF reads_ret reads_ret, of "()" "\<lambda>_. SNil"] by (simp add: read_nil_def)
qed (auto simp: read_f32_def read_f64_def read_u32_def read_u64_def len_bytes_def
    intro!: reads_bind_ret reads_uleb_narrow reads_str reads_byte)

section \<open>The contract of a pair of implementations\<close>

locale codec =
  fixes enc :: "'a \<Rightarrow> emit" and dec :: "'a decode" and ser :: "'a \<Rightarrow> bytes" and sound :: "'a \<Rightarrow> bool"
  assumes enc_writes: "sound x \<Longrightarrow> writes (enc x) (ser x)"
    and dec_reads: "sound x \<Longrightarrow> reads dec x (ser x)"
begin

lemma helper_encode:
  "sound x \<Longrightarrow> at_end (sh_cursor h) \<Longrightarrow>
   SerializeHelper_encode enc x h = Some (Some (inner (sh_cursor h) @ ser x), h\<lparr>sh_cursor := appended (ser x) (sh_cursor h)\<rparr>)"
  using enc_writes [of x] by (simp add: SerializeHelper_encode_def writes_def)

lemma helper_decode:
  "sound x \<Longrightarrow> length (ser x @ rest) < USIZE \<Longrightarrow> DeSerializeHelper_decode dec (DeSerializeHelper_new (ser x @ rest)) = Some (Some x)"
  using dec_reads [of x] unfolding reads_def
  by (auto simp: DeSerializeHelper_decode_def DeSerializeHelper_new_def Decoder_new_def dest: spec [of _ "[]"])

lemma helper_decode_truncated:
  "sound x \<Longrightarrow> n < length (ser x) \<Longrightarrow> n < USIZE \<Longrightarrow> DeSerializeHelper_decode dec (DeSerializeHelper_new (take n (ser x))) = None"
  using dec_reads [of x] unfolding reads_def
  by (auto simp: DeSerializeHelper_decode_def DeSerializeHelper_new_def Decoder_new_def dest: spec [of _ "[]"])

end

lemma new_helper_at_end [simp]: "at_end (sh_cursor SerializeHelper_new)" "inner (sh_cursor SerializeHelper_new) = []"
  by (simp_all add: SerializeHelper_new_def Cursor_new_def at_end_def)

interpretation uint_codec: codec encode_uint "decode_uint t" ser_uint "\<lambda>v. uint_type_of v = t" for t
  using uint_conveyed by unfold_locales auto

interpretation iint_codec: codec encode_iint "decode_iint t" ser_iint "\<lambda>v. iint_type_of v = t \<and> iint_ok v" for t
  using iint_writes iint_reads by unfold_locales auto

interpretation scalar_codec: codec encode_scalar "decode_scalar t" ser_scalar "\<lambda>v. scalar_type_of v = t \<and> scalar_ok v" for t
  using scalar_writes scalar_reads by unfold_locales auto

text \<open>The bytes of a sequence, and the sequences that fit into memory with elements of \<open>sz\<close> bytes.\<close>

definition ser_seq :: "('a \<Rightarrow> bytes) \<Rightarrow> 'a list \<Rightarrow> bytes" where
  "ser_seq ser xs = len_bytes (length xs) @ concat (map ser xs)"

definition seq_ok :: "nat \<Rightarrow> ('a \<Rightarrow> bool) \<Rightarrow> 'a list \<Rightarrow> bool" where
  "seq_ok sz P xs \<longleftrightarrow> list_all P xs \<and> length xs < USIZE \<and> length xs * sz < 2 ^ 63"

lemma seq_conveyed:
  assumes "\<forall>x \<in> set xs. writes (e x) (ser x) \<and> reads d x (ser x)" "length xs < USIZE"
  shows "writes (emit_seq (length xs) (encode_elts e i xs)) (ser_seq ser xs)"
    "(\<And>g. (\<And>n. n = length xs \<Longrightarrow> g n = decode_elts d push j n v) \<Longrightarrow> reads (read_seq g) (fold push xs v) (ser_seq ser xs))"
  using assms unfolding ser_seq_def by (auto intro!: writes_seq writes_elts reads_seq reads_elts)

lemma vec_conveyed:
  assumes "\<forall>x \<in> set xs. writes (e x) (ser x) \<and> reads d x (ser x)" "length xs < USIZE" "length xs * sz < 2 ^ 63"
  shows "writes (encode_vec e xs) (ser_seq ser xs)" "reads (decode_vec sz d) xs (ser_seq ser xs)"
  using seq_conveyed(1) [OF assms(1,2)] seq_conveyed(2) [OF assms(1,2), where push = push_back and v = "[]" and j = 0] assms(3)
  by (simp_all add: encode_vec_def decode_vec_def vec_with_capacity_def)

lemma list_conveyed:
  assumes "\<forall>x \<in> set xs. writes (e x) (ser x) \<and> reads d x (ser x)" "length xs < USIZE"
  shows "writes (encode_linked_list e xs) (ser_seq ser xs)" "reads (decode_linked_list d) xs (ser_seq ser xs)"
    "writes (encode_vec_deque e xs) (ser_seq ser xs)" "reads (decode_vec_deque d) xs (ser_seq ser xs)"
    "writes (encode_array (length xs) e xs) (ser_seq ser xs)" "reads (decode_array (length xs) d) xs (ser_seq ser xs)"
  using seq_conveyed(1) [OF assms] seq_conveyed(2) [OF assms, where push = push_back and v = "[]" and j = 0]
  by (simp_all add: encode_linked_list_def decode_linked_list_def encode_vec_deque_def decode_vec_deque_def encode_array_def
      decode_array_def map_nth)

text \<open>From the implementations for a type, elements of \<open>sz\<close> bytes, to those for the types built from it.\<close>

locale element_codec = elt: codec enc dec ser sound for enc :: "'a \<Rightarrow> emit" and dec ser sound +
  fixes sz :: nat

context element_codec begin

lemma elements_conveyed:
  "seq_ok sz sound xs \<Longrightarrow> \<forall>x \<in> set xs. writes (enc x) (ser x) \<and> reads dec x (ser x)"
  "seq_ok sz sound xs \<Longrightarrow> length xs < USIZE" "seq_ok sz sound xs \<Longrightarrow> length xs * sz < 2 ^ 63"
  using elt.enc_writes elt.dec_reads by (auto simp: seq_ok_def list_all_iff)

lemmas vec_elements = vec_conveyed [OF elements_conveyed]
lemmas list_elements = list_conveyed [OF elements_conveyed(1,2)]

end

sublocale element_codec \<subseteq> vec: codec "encode_vec enc" "decode_vec sz dec" "ser_seq ser" "seq_ok sz sound"
  by unfold_locales (rule vec_elements; assumption)+

sublocale element_codec \<subseteq> linked_list: codec "encode_linked_list enc" "decode_linked_list dec" "ser_seq ser" "seq_ok sz sound"
  by unfold_locales (rule list_elements; assumption)+

sublocale element_codec \<subseteq> vec_deque: codec "encode_vec_deque enc" "decode_vec_deque dec" "ser_seq ser" "seq_ok sz sound"
  by unfold_locales (rule list_elements; assumption)+

sublocale element_codec \<subseteq> opt: codec "encode_option enc" "decode_option dec"
  "\<lambda>x. case x of None \<Rightarrow> len_bytes 0 | Some v \<Rightarrow> len_bytes 1 @ ser v" "pred_option sound"
  using elt.enc_writes elt.dec_reads
  by unfold_locales (auto intro!: writes_option reads_option simp: option.pred_set)

interpretation uint_elements: element_codec encode_uint "decode_uint t" ser_uint "\<lambda>v. uint_type_of v = t" sz for t sz
  by unfold_locales

subsection \<open>Maps and sets\<close>

text \<open>Inserting the entries of a sorted map one after the other builds it again.\<close>

lemma btree_insert_last: "\<forall>(a, b) \<in> set m. a < k \<Longrightarrow> btree_insert k v m = m @ [(k, v)]"
  by (induction k v m rule: btree_insert.induct) auto

lemma btree_rebuild: "sorted_wrt (<) (map fst (m @ es)) \<Longrightarrow> fold (\<lambda>(k, v). btree_insert k v) es m = m @ es"
proof (induction es arbitrary: m)
  case (Cons e es)
  obtain k v where e: "e = (k, v)" by fastforce
  have "\<forall>(a, b) \<in> set m. a < k" using Cons.prems by (force simp: e sorted_wrt_append)
  from btree_insert_last [OF this] show ?case using Cons.IH [of "m @ [e]"] Cons.prems by (simp add: e)
qed simp

lemma insort_insert_last: "\<forall>a \<in> set m. a < k \<Longrightarrow> insort_insert k m = m @ [k]" for k :: "'a :: linorder"
proof -
  assume a: "\<forall>a \<in> set m. a < k"
  then have "insort k m = m @ [k]" by (induction m) auto
  then show ?thesis using a by (auto simp: insort_insert_triv insort_insert_insort)
qed

lemma insort_rebuild: "sorted_wrt (<) (m @ xs) \<Longrightarrow> fold insort_insert xs m = m @ xs" for xs :: "'a :: linorder list"
proof (induction xs arbitrary: m)
  case (Cons x xs)
  have "\<forall>a \<in> set m. a < x" using Cons.prems by (auto simp: sorted_wrt_append)
  from insort_insert_last [OF this] show ?case using Cons.IH [of "m @ [x]"] Cons.prems by simp
qed simp

lemma hashmap_rebuild: "distinct (map fst es) \<Longrightarrow> fold (\<lambda>(k, v). hashmap_insert k v) es m = m ++ map_of es"
proof (induction es arbitrary: m)
  case (Cons e es)
  obtain k v where e: "e = (k, v)" by fastforce
  have n: "map_of es k = None" using Cons.prems by (simp add: e map_of_eq_None_iff)
  have "fold (\<lambda>(k, v). hashmap_insert k v) (e # es) m = hashmap_insert k v m ++ map_of es"
    using Cons.IH Cons.prems by (simp add: e)
  also have "\<dots> = m ++ map_of (e # es)"
    using n by (auto simp: e hashmap_insert_def map_add_def fun_eq_iff split: option.split)
  finally show ?case .
qed simp

definition ser_entries :: "('k \<Rightarrow> bytes) \<Rightarrow> ('v \<Rightarrow> bytes) \<Rightarrow> ('k \<times> 'v) list \<Rightarrow> bytes" where
  "ser_entries sk sv es = len_bytes (length es) @ concat (map (\<lambda>(k, v). sk k @ sv v) es)"

locale entry_codec = key: codec ek dk sk okk + val: codec ev dv sv okv
  for ek :: "'k \<Rightarrow> emit" and dk sk okk and ev :: "'v \<Rightarrow> emit" and dv sv okv
begin

lemma entries_conveyed:
  assumes "\<forall>(k, v) \<in> set es. okk k \<and> okv v" "length es < USIZE"
  shows "writes (emit_map (length es) (encode_entries ek ev i es)) (ser_entries sk sv es)"
    "(\<And>g. (\<And>n. n = length es \<Longrightarrow> g n = decode_entries dk dv ins j n m) \<Longrightarrow>
       reads (read_map g) (fold (\<lambda>(k, v). ins k v) es m) (ser_entries sk sv es))"
  unfolding ser_entries_def using assms key.enc_writes val.enc_writes key.dec_reads val.dec_reads
  by (fastforce intro!: writes_map writes_entries reads_map reads_entries)+

lemma hashmap_conveyed:
  assumes "map_of (iter m) = m" "distinct (map fst (iter m))" "\<forall>(k, v) \<in> set (iter m). okk k \<and> okv v" "length (iter m) < USIZE"
  shows "writes (encode_hashmap iter ek ev m) (ser_entries sk sv (iter m))"
    "reads (decode_hashmap sz dk dv) m (ser_entries sk sv (iter m))"
proof -
  show "writes (encode_hashmap iter ek ev m) (ser_entries sk sv (iter m))"
    unfolding encode_hashmap_def by (rule entries_conveyed(1) [OF assms(3,4)])
  have "reads (decode_hashmap sz dk dv) (fold (\<lambda>(k, v). hashmap_insert k v) (iter m) Map.empty) (ser_entries sk sv (iter m))"
    unfolding decode_hashmap_def by (rule entries_conveyed(2) [OF assms(3,4)]) (simp add: hashmap_with_capacity_def)
  then show "reads (decode_hashmap sz dk dv) m (ser_entries sk sv (iter m))"
    using hashmap_rebuild [OF assms(2), of Map.empty] assms(1) by simp
qed

end

text \<open>The keys of a \<open>BTreeMap\<close> are ordered.\<close>

locale ordered_entry_codec = entry_codec ek dk sk okk ev dv sv okv
  for ek :: "'k :: linorder \<Rightarrow> emit" and dk sk okk and ev :: "'v \<Rightarrow> emit" and dv sv okv
begin

lemma btree_map_conveyed:
  assumes "sorted_wrt (<) (map fst m)" "\<forall>(k, v) \<in> set m. okk k \<and> okv v" "length m < USIZE"
  shows "writes (encode_btree_map ek ev m) (ser_entries sk sv m)" "reads (decode_btree_map dk dv) m (ser_entries sk sv m)"
proof -
  show "writes (encode_btree_map ek ev m) (ser_entries sk sv m)"
    unfolding encode_btree_map_def by (rule entries_conveyed(1) [OF assms(2,3)])
  have "reads (decode_btree_map dk dv) (fold (\<lambda>(k, v). btree_insert k v) m []) (ser_entries sk sv m)"
    unfolding decode_btree_map_def by (rule entries_conveyed(2) [OF assms(2,3)]) simp
  then show "reads (decode_btree_map dk dv) m (ser_entries sk sv m)" using btree_rebuild [of "[]" m] assms(1) by simp
qed

end

text \<open>Sets, written in the order of iteration.\<close>

context element_codec begin

lemma hashset_conveyed:
  assumes "set (iter s) = s" "seq_ok sz sound (iter s)"
  shows "writes (encode_hashset iter enc s) (ser_seq ser (iter s))" "reads (decode_hashset sz' dec) s (ser_seq ser (iter s))"
proof -
  note c = seq_conveyed [OF elements_conveyed(1,2) [OF assms(2)]]
  show "writes (encode_hashset iter enc s) (ser_seq ser (iter s))" unfolding encode_hashset_def by (rule c(1))
  have "reads (decode_hashset sz' dec) (fold insert (iter s) {}) (ser_seq ser (iter s))"
    unfolding decode_hashset_def by (rule c(2)) (simp add: hashset_with_capacity_def)
  then show "reads (decode_hashset sz' dec) s (ser_seq ser (iter s))"
    using assms(1) union_set_fold [of "iter s" "{}"] by simp
qed

end

locale ordered_element_codec = element_codec enc dec ser sound sz for enc :: "'a :: linorder \<Rightarrow> emit" and dec ser sound sz
begin

lemma btree_set_conveyed:
  assumes "sorted_wrt (<) xs" "seq_ok sz sound xs"
  shows "writes (encode_btree_set enc xs) (ser_seq ser xs)" "reads (decode_btree_set dec) xs (ser_seq ser xs)"
proof -
  note c = seq_conveyed [OF elements_conveyed(1,2) [OF assms(2)]]
  show "writes (encode_btree_set enc xs) (ser_seq ser xs)" unfolding encode_btree_set_def by (rule c(1))
  have "reads (decode_btree_set dec) (fold insort_insert xs []) (ser_seq ser xs)"
    unfolding decode_btree_set_def by (rule c(2)) simp
  then show "reads (decode_btree_set dec) xs (ser_seq ser xs)" using insort_rebuild [of "[]" xs] assms(1) by simp
qed

end

interpretation u64_codec: codec emit_u64 read_u64 "\<lambda>v. uleb (ucast v)" "\<lambda>_. True"
  by unfold_locales (auto simp: emit_u64_def read_u64_def writes_uleb intro: reads_uleb_narrow)

interpretation u64_set: ordered_element_codec emit_u64 read_u64 "\<lambda>v. uleb (ucast v)" "\<lambda>_. True" 8
  by unfold_locales

end
