(* ===== verification/Serialize_Derive.thy ===== *)
theory Serialize_Derive
  imports Serialize
begin

text \<open>
  \<open>sgx_serialize_derive\<close> and \<open>sgx_serialize_derive_internals\<close>: what \<open>derive(Serializable)\<close> and
  \<open>derive(DeSerializable)\<close> expand to.  The expansion of a declaration is the encoder or decoder that the
  generated \<open>impl\<close> defines; \<open>None\<close> is a macro that panics or code that does not type-check.  In the
  generated code \<open>return\<close> ends a closure with the last result, and the \<open>match\<close> on a result is the
  question-mark operator.
\<close>

section \<open>Declarations\<close>

datatype Style = Style_Struct | Style_Tuple | Style_Newtype | Style_Unit

text \<open>The three forms of the fields of a struct or of an enum variant: named, by position, none.\<close>

datatype 'f variant_data = DStruct "(string \<times> 'f) list" | DTuple "'f list" | DUnit

type_synonym 'f field = "string option \<times> 'f"

text \<open>A variant: its identifier, style and fields.\<close>

type_synonym 'f variant = "string \<times> Style \<times> 'f field list"

definition fields_from_ast :: "(string option \<times> 'f) list \<Rightarrow> 'f field list" where
  "fields_from_ast flds = map (\<lambda>(ident, ty). (ident, ty)) flds"

fun struct_from_ast :: "'f variant_data \<Rightarrow> Style \<times> 'f field list" where
  "struct_from_ast (DStruct fs) = (Style_Struct, fields_from_ast (map (\<lambda>(n, f). (Some n, f)) fs))"
| "struct_from_ast (DTuple fs) =
     (if length fs = 1 then (Style_Newtype, fields_from_ast (map (Pair None) fs))
      else (Style_Tuple, fields_from_ast (map (Pair None) fs)))"
| "struct_from_ast DUnit = (Style_Unit, [])"

definition enum_from_ast :: "(string \<times> 'f variant_data) list \<Rightarrow> 'f variant list" where
  "enum_from_ast variants = map (\<lambda>(ident, data). (ident, struct_from_ast data)) variants"

text \<open>The decimal digits of a number, for the names of unnamed fields.\<close>

fun decimal :: "nat \<Rightarrow> string" where
  "decimal n = (if n < 10 then [char_of (48 + n)] else decimal (n div 10) @ [char_of (48 + n mod 10)])"

declare decimal.simps [simp del]

definition field_expr :: "bool \<Rightarrow> nat \<Rightarrow> string option \<Rightarrow> string option" where
  "field_expr is_struct i ident = (if is_struct then ident else Some (''_field'' @ decimal i))"

section \<open>Expansion of derive(Serializable)\<close>

text \<open>Without a field there is no statement, and the closure does not return a \<open>Result\<close>.\<close>

fun serialize_tuple_struct_visitor :: "bool \<Rightarrow> nat \<Rightarrow> emit field list \<Rightarrow> emit option" where
  "serialize_tuple_struct_visitor is_struct i [] = None"
| "serialize_tuple_struct_visitor is_struct i [(ident, e)] =
     map_option (\<lambda>name. emit_struct_field name i e) (field_expr is_struct i ident)"
| "serialize_tuple_struct_visitor is_struct i ((ident, e) # f # fs) =
     (case (field_expr is_struct i ident, serialize_tuple_struct_visitor is_struct (i + 1) (f # fs)) of
        (Some name, Some rest) \<Rightarrow> Some (try_bind (emit_struct_field name i e) (\<lambda>_. rest))
      | _ \<Rightarrow> None)"

definition serialize_struct :: "string \<Rightarrow> emit field list \<Rightarrow> emit option" where
  "serialize_struct name flds =
     map_option (emit_struct name (length flds)) (serialize_tuple_struct_visitor True 0 flds)"

definition serialize_tuple_struct :: "string \<Rightarrow> emit field list \<Rightarrow> emit option" where
  "serialize_tuple_struct name flds =
     map_option (emit_struct name (length flds)) (serialize_tuple_struct_visitor False 0 flds)"

fun serialize_newtype_struct :: "string \<Rightarrow> emit field list \<Rightarrow> emit option" where
  "serialize_newtype_struct name [(_, e)] = Some (emit_struct name 1 (emit_struct_field ''_field0'' 0 e))"
| "serialize_newtype_struct name _ = None"

definition serialize_unit_struct :: "string \<Rightarrow> emit option" where
  "serialize_unit_struct name = Some (emit_struct name 0 (ok_ret ()))"

text \<open>\<open>serialize_body\<close> on a struct, with its checks of the field names.\<close>

fun serialize_struct_body :: "string \<Rightarrow> Style \<times> emit field list \<Rightarrow> emit option" where
  "serialize_struct_body name (Style_Struct, flds) =
     (if list_ex (\<lambda>(ident, _). ident = None) flds then None else serialize_struct name flds)"
| "serialize_struct_body name (Style_Tuple, flds) =
     (if list_ex (\<lambda>(ident, _). ident \<noteq> None) flds then None else serialize_tuple_struct name flds)"
| "serialize_struct_body name (Style_Newtype, flds) =
     (if list_ex (\<lambda>(ident, _). ident \<noteq> None) flds then None else serialize_newtype_struct name flds)"
| "serialize_struct_body name (Style_Unit, _) = serialize_unit_struct name"

fun serialize_variant_args :: "nat \<Rightarrow> emit field list \<Rightarrow> emit option" where
  "serialize_variant_args i [] = None"
| "serialize_variant_args i [(_, e)] = Some (emit_enum_variant_arg i e)"
| "serialize_variant_args i ((_, e) # f # fs) =
     map_option (\<lambda>rest. try_bind (emit_enum_variant_arg i e) (\<lambda>_. rest)) (serialize_variant_args (i + 1) (f # fs))"

definition serialize_variant_body_visitor :: "string \<Rightarrow> string \<Rightarrow> nat \<Rightarrow> emit field list \<Rightarrow> emit option" where
  "serialize_variant_body_visitor name variant_ident variant_index flds =
     map_option (\<lambda>args. emit_enum name (emit_enum_variant variant_ident variant_index (length flds) args))
       (serialize_variant_args 0 flds)"

fun serialize_variant_body :: "string \<Rightarrow> nat \<Rightarrow> emit variant \<Rightarrow> emit option" where
  "serialize_variant_body name variant_index (ident, Style_Unit, _) =
     Some (emit_enum name (emit_enum_variant ident variant_index 0 (ok_ret ())))"
| "serialize_variant_body name variant_index (ident, Style_Newtype, flds) =
     (case flds of
        [(_, e)] \<Rightarrow> Some (emit_enum name (emit_enum_variant ident variant_index 1 (emit_enum_variant_arg 0 e)))
      | _ \<Rightarrow> None)"
| "serialize_variant_body name variant_index (ident, Style_Tuple, flds) =
     map_option (\<lambda>args. emit_enum name (emit_enum_variant ident variant_index (length flds) args))
       (serialize_variant_args 0 flds)"
| "serialize_variant_body name variant_index (ident, Style_Struct, flds) =
     serialize_variant_body_visitor name ident variant_index flds"

text \<open>The pattern of the arm: the fields of a struct variant must have names.\<close>

fun serialize_variant_case :: "'f variant \<Rightarrow> bool" where
  "serialize_variant_case (_, Style_Struct, flds) \<longleftrightarrow> list_all (\<lambda>(ident, _). ident \<noteq> None) flds"
| "serialize_variant_case _ \<longleftrightarrow> True"

text \<open>The arm of \<open>serialize_enum\<close> that a value of the variant takes.\<close>

definition serialize_variant :: "string \<Rightarrow> nat \<Rightarrow> emit variant \<Rightarrow> emit option" where
  "serialize_variant name variant_index v =
     (if serialize_variant_case v then serialize_variant_body name variant_index v else None)"

section \<open>Expansion of derive(DeSerializable)\<close>

fun deserialize_tuple_struct_visitor :: "bool \<Rightarrow> nat \<Rightarrow> 'a decode field list \<Rightarrow> 'a list decode option" where
  "deserialize_tuple_struct_visitor is_struct i [] = Some (ok_ret [])"
| "deserialize_tuple_struct_visitor is_struct i ((ident, d) # fs) =
     (case (field_expr is_struct i ident, deserialize_tuple_struct_visitor is_struct (i + 1) fs) of
        (Some name, Some rest) \<Rightarrow>
          Some (try_bind (read_struct_field name i d) (\<lambda>x. try_bind rest (\<lambda>xs. ok_ret (x # xs))))
      | _ \<Rightarrow> None)"

definition deserialize_struct :: "string \<Rightarrow> 'a decode field list \<Rightarrow> 'a variant_data decode option" where
  "deserialize_struct name flds =
     map_option (\<lambda>stmts. read_struct name (length flds)
         (try_bind stmts (\<lambda>xs. ok_ret (DStruct (zip (map (the \<circ> fst) flds) xs)))))
       (deserialize_tuple_struct_visitor True 0 flds)"

definition deserialize_tuple_struct :: "string \<Rightarrow> 'a decode field list \<Rightarrow> 'a variant_data decode option" where
  "deserialize_tuple_struct name flds =
     map_option (\<lambda>stmts. read_struct name (length flds) (try_bind stmts (\<lambda>xs. ok_ret (DTuple xs))))
       (deserialize_tuple_struct_visitor False 0 flds)"

fun deserialize_newtype_struct :: "string \<Rightarrow> 'a decode field list \<Rightarrow> 'a variant_data decode option" where
  "deserialize_newtype_struct name [(_, d)] =
     Some (read_struct name 1 (try_bind (read_struct_field ''_field0'' 0 d) (\<lambda>x. ok_ret (DTuple [x]))))"
| "deserialize_newtype_struct name _ = None"

definition deserialize_unit_struct :: "string \<Rightarrow> 'a variant_data decode option" where
  "deserialize_unit_struct name = Some (read_struct name 0 (ok_ret DUnit))"

fun deserialize_struct_body :: "string \<Rightarrow> Style \<times> 'a decode field list \<Rightarrow> 'a variant_data decode option" where
  "deserialize_struct_body name (Style_Struct, flds) =
     (if list_ex (\<lambda>(ident, _). ident = None) flds then None else deserialize_struct name flds)"
| "deserialize_struct_body name (Style_Tuple, flds) =
     (if list_ex (\<lambda>(ident, _). ident \<noteq> None) flds then None else deserialize_tuple_struct name flds)"
| "deserialize_struct_body name (Style_Newtype, flds) =
     (if list_ex (\<lambda>(ident, _). ident \<noteq> None) flds then None else deserialize_newtype_struct name flds)"
| "deserialize_struct_body name (Style_Unit, _) = deserialize_unit_struct name"

fun deserialize_variant_args :: "nat \<Rightarrow> 'a decode field list \<Rightarrow> 'a list decode" where
  "deserialize_variant_args i [] = ok_ret []"
| "deserialize_variant_args i ((_, d) # fs) =
     try_bind (read_enum_variant_arg i d) (\<lambda>x. try_bind (deserialize_variant_args (i + 1) fs) (\<lambda>xs. ok_ret (x # xs)))"

fun deserialize_variant :: "'a decode variant \<Rightarrow> 'a variant_data decode option" where
  "deserialize_variant (ident, Style_Unit, _) = Some (ok_ret DUnit)"
| "deserialize_variant (ident, Style_Newtype, flds) =
     (case flds of
        [(_, d)] \<Rightarrow> Some (try_bind (read_enum_variant_arg 0 d) (\<lambda>x. ok_ret (DTuple [x])))
      | _ \<Rightarrow> None)"
| "deserialize_variant (ident, Style_Tuple, flds) =
     Some (try_bind (deserialize_variant_args 0 flds) (\<lambda>xs. ok_ret (DTuple xs)))"
| "deserialize_variant (ident, Style_Struct, flds) =
     (if list_ex (\<lambda>(ident, _). ident = None) flds then None
      else Some (try_bind (deserialize_variant_args 0 flds)
                  (\<lambda>xs. ok_ret (DStruct (zip (map (the \<circ> fst) flds) xs)))))"

text \<open>The value of an enum: the index of its variant and the values of the fields; any other index panics.\<close>

definition deserialize_enum :: "string \<Rightarrow> 'a decode variant list \<Rightarrow> (nat \<times> 'a variant_data) decode option" where
  "deserialize_enum name variants =
     (if length variants > 0xFFFFFFFF then None
      else map_option (\<lambda>arms. read_enum name (read_enum_variant (map fst variants) (\<lambda>i.
             if i < length arms then try_bind (arms ! i) (\<lambda>x. ok_ret (i, x)) else (\<lambda>_. None))))
           (those (map deserialize_variant variants)))"

section \<open>What the expansions write and read\<close>

fun data_items :: "'f variant_data \<Rightarrow> 'f list" where
  "data_items (DStruct fs) = map snd fs"
| "data_items (DTuple fs) = fs"
| "data_items DUnit = []"

text \<open>Declarations whose expansion type-checks: braces or parentheses hold at least one field.\<close>

fun derivable :: "'f variant_data \<Rightarrow> bool" where
  "derivable (DStruct fs) = (fs \<noteq> [])"
| "derivable (DTuple fs) = (fs \<noteq> [])"
| "derivable DUnit = True"

lemma fields_from_ast [simp]: "fields_from_ast fs = fs"
  by (simp add: fields_from_ast_def)

lemma list_all2_Cons1_ex: "list_all2 P (x # xs) ys \<Longrightarrow> \<exists>z zs. ys = z # zs \<and> P x z \<and> list_all2 P xs zs"
  by (simp add: list_all2_Cons1)

lemma struct_visitor_writes:
  "fs \<noteq> [] \<Longrightarrow> list_all2 writes (map snd fs) bss \<Longrightarrow> (is_struct \<longrightarrow> list_all (\<lambda>(i, _). i \<noteq> None) fs) \<Longrightarrow>
   \<exists>e. serialize_tuple_struct_visitor is_struct i fs = Some e \<and> writes e (concat bss)"
proof (induction is_struct i fs arbitrary: bss rule: serialize_tuple_struct_visitor.induct)
  case (2 is_struct i ident e)
  then show ?case by (auto simp: list_all2_Cons1 field_expr_def emit_struct_field_def)
next
  case (3 is_struct i ident e f fs)
  then obtain bs cs where b: "bss = bs # cs" "writes e bs" "list_all2 writes (map snd (f # fs)) cs"
    by (auto dest!: list_all2_Cons1_ex)
  moreover obtain r where "serialize_tuple_struct_visitor is_struct (i + 1) (f # fs) = Some r" "writes r (concat cs)"
    using 3 b(3) by (auto split: prod.splits)
  ultimately show ?case using 3(4)
    by (auto simp: field_expr_def emit_struct_field_def intro: writes_bind split: option.splits)
qed simp

lemma variant_args_writes:
  "fs \<noteq> [] \<Longrightarrow> list_all2 writes (map snd fs) bss \<Longrightarrow>
   \<exists>e. serialize_variant_args i fs = Some e \<and> writes e (concat bss)"
proof (induction i fs arbitrary: bss rule: serialize_variant_args.induct)
  case (2 i x e)
  then show ?case by (auto simp: list_all2_Cons1 emit_enum_variant_arg_def)
next
  case (3 i x e f fs)
  then obtain bs cs where b: "bss = bs # cs" "writes e bs" "list_all2 writes (map snd (f # fs)) cs"
    by (auto dest!: list_all2_Cons1_ex)
  moreover obtain r where "serialize_variant_args (i + 1) (f # fs) = Some r" "writes r (concat cs)"
    using 3 b(3) by auto
  ultimately show ?case by (auto simp: emit_enum_variant_arg_def intro: writes_bind)
qed simp

lemma struct_visitor_reads:
  "reads_all (map snd fs) xs bss \<Longrightarrow> (is_struct \<longrightarrow> list_all (\<lambda>(i, _). i \<noteq> None) fs) \<Longrightarrow>
   \<exists>d. deserialize_tuple_struct_visitor is_struct i fs = Some d \<and> reads d xs (concat bss)"
proof (induction "map snd fs" xs bss arbitrary: fs i rule: reads_all.induct)
  case (2 d ds x xs bs bss)
  then obtain ident fs' where f: "fs = (ident, d) # fs'" "ds = map snd fs'" by auto
  obtain r where r: "deserialize_tuple_struct_visitor is_struct (i + 1) fs' = Some r" "reads r xs (concat bss)"
    using 2(1) [OF f(2), of "i + 1"] 2(3,4) f by auto
  moreover have "reads (try_bind d (\<lambda>x. try_bind r (\<lambda>xs. ok_ret (x # xs)))) (x # xs) (bs @ concat bss)"
    using 2(3) f r by (auto intro!: reads_bind [of d x bs] reads_bind_ret)
  ultimately show ?case using 2(4) f(1)
    by (auto simp: field_expr_def read_struct_field_def split: option.splits)
qed (auto simp: reads_ret)

lemma variant_args_reads:
  "reads_all (map snd fs) xs bss \<Longrightarrow> reads (deserialize_variant_args i fs) xs (concat bss)"
proof (induction "map snd fs" xs bss arbitrary: fs i rule: reads_all.induct)
  case (2 d ds x xs bs bss)
  then obtain ident fs' where f: "fs = (ident, d) # fs'" "ds = map snd fs'" by auto
  then have "reads (deserialize_variant_args (i + 1) fs') xs (concat bss)" using 2 by auto
  then show ?case using 2(3) f
    by (auto simp: read_enum_variant_arg_def intro!: reads_bind [of d x bs] reads_bind_ret)
qed (auto simp: reads_ret)

lemma struct_writes:
  assumes "derivable d" "list_all2 writes (data_items d) bss"
  shows "\<exists>e. serialize_struct_body name (struct_from_ast d) = Some e \<and> writes e (concat bss)"
proof (cases d)
  case (DStruct fs)
  have "\<exists>e. serialize_tuple_struct_visitor True 0 (map (\<lambda>(n, f). (Some n, f)) fs) = Some e \<and> writes e (concat bss)"
    by (rule struct_visitor_writes) (use assms DStruct in \<open>auto simp: case_prod_beta comp_def list_all_iff\<close>)
  then show ?thesis using DStruct by (auto simp: serialize_struct_def emit_struct_def list_ex_iff)
next
  case (DTuple fs)
  have "\<exists>e. serialize_tuple_struct_visitor False 0 (map (Pair None) fs) = Some e \<and> writes e (concat bss)"
    by (rule struct_visitor_writes) (use assms DTuple in \<open>auto simp: comp_def\<close>)
  moreover have "\<exists>f. fs = [f]" if "length fs = 1" using that by (simp add: length_Suc_conv)
  ultimately show ?thesis using DTuple assms(2)
    by (auto simp: serialize_tuple_struct_def emit_struct_def emit_struct_field_def list_ex_iff list_all2_Cons1)
next
  case DUnit
  then show ?thesis using assms(2) by (simp add: serialize_unit_struct_def emit_struct_def writes_ret)
qed

lemma variant_writes:
  assumes "derivable d" "list_all2 writes (data_items d) bss"
  shows "\<exists>e. serialize_variant name idx (ident, struct_from_ast d) = Some e \<and> writes e (len_bytes idx @ concat bss)"
proof (cases d)
  case (DStruct fs)
  have "\<exists>e. serialize_variant_args 0 (map (\<lambda>(n, f). (Some n, f)) fs) = Some e \<and> writes e (concat bss)"
    by (rule variant_args_writes) (use assms DStruct in \<open>auto simp: case_prod_beta comp_def\<close>)
  then show ?thesis using DStruct
    by (auto simp: serialize_variant_def serialize_variant_body_visitor_def emit_enum_def list_all_iff intro: writes_variant)
next
  case (DTuple fs)
  have "\<exists>e. serialize_variant_args 0 (map (Pair None) fs) = Some e \<and> writes e (concat bss)"
    by (rule variant_args_writes) (use assms DTuple in \<open>auto simp: comp_def\<close>)
  moreover have "\<exists>f. fs = [f]" if "length fs = 1" using that by (simp add: length_Suc_conv)
  ultimately show ?thesis using DTuple assms(2)
    by (auto simp: serialize_variant_def emit_enum_def emit_enum_variant_arg_def list_all2_Cons1 intro!: writes_variant)
next
  case DUnit
  then show ?thesis using assms(2) writes_variant [OF writes_ret]
    by (simp add: serialize_variant_def emit_enum_def)
qed

text \<open>A decoder per field, for values of the same form.\<close>

abbreviation same_form :: "'f variant_data \<Rightarrow> 'g variant_data \<Rightarrow> bool" where
  "same_form \<equiv> rel_variant_data (\<lambda>_ _. True)"

lemma same_form_names:
  "list_all2 (rel_prod (=) (\<lambda>_ _. True)) fs vs \<Longrightarrow>
   zip (map (the \<circ> fst \<circ> (\<lambda>(n, f). (Some n, f))) fs) (map snd vs) = vs"
  by (induction rule: list_all2_induct) (auto simp: rel_prod.simps)

lemma reads_all_length: "reads_all ds xs bss \<Longrightarrow> length xs = length ds \<and> length bss = length ds"
  by (induction ds xs bss rule: reads_all.induct) auto

lemma struct_reads:
  assumes "same_form d x" "reads_all (data_items d) (data_items x) bss"
  shows "\<exists>r. deserialize_struct_body name (struct_from_ast d) = Some r \<and> reads r x (concat bss)"
proof (cases d)
  case (DStruct fs)
  then obtain vs where x: "x = DStruct vs" "list_all2 (rel_prod (=) (\<lambda>_ _. True)) fs vs"
    using assms(1) by (cases x) auto
  have "\<exists>r. deserialize_tuple_struct_visitor True 0 (map (\<lambda>(n, f). (Some n, f)) fs) = Some r \<and> reads r (map snd vs) (concat bss)"
    by (rule struct_visitor_reads) (use assms(2) DStruct x in \<open>auto simp: case_prod_beta comp_def list_all_iff\<close>)
  then show ?thesis using DStruct x(1) same_form_names [OF x(2)]
    by (auto simp: deserialize_struct_def read_struct_def list_ex_iff intro!: reads_bind_ret)
next
  case (DTuple fs)
  then obtain vs where x: "x = DTuple vs" using assms(1) by (cases x) auto
  have "\<exists>r. deserialize_tuple_struct_visitor False 0 (map (Pair None) fs) = Some r \<and> reads r vs (concat bss)"
    by (rule struct_visitor_reads) (use assms(2) DTuple x in \<open>auto simp: comp_def\<close>)
  moreover have "\<exists>f v bs. fs = [f] \<and> vs = [v] \<and> bss = [bs] \<and> reads f v bs" if "length fs = 1"
    using that assms(2) reads_all_length [OF assms(2)] DTuple x by (auto simp: length_Suc_conv)
  ultimately show ?thesis using DTuple x
    by (auto simp: deserialize_tuple_struct_def read_struct_def read_struct_field_def list_ex_iff intro!: reads_bind_ret)
next
  case DUnit
  then show ?thesis using assms reads_all_length [OF assms(2)]
    by (cases x) (auto simp: deserialize_unit_struct_def read_struct_def reads_ret)
qed

lemma variant_reads:
  assumes "same_form d x" "reads_all (data_items d) (data_items x) bss"
  shows "\<exists>r. deserialize_variant (ident, struct_from_ast d) = Some r \<and> reads r x (concat bss)"
proof (cases d)
  case (DStruct fs)
  then obtain vs where x: "x = DStruct vs" "list_all2 (rel_prod (=) (\<lambda>_ _. True)) fs vs"
    using assms(1) by (cases x) auto
  have "reads (deserialize_variant_args 0 (map (\<lambda>(n, f). (Some n, f)) fs)) (map snd vs) (concat bss)"
    by (rule variant_args_reads) (use assms(2) DStruct x in \<open>auto simp: case_prod_beta comp_def\<close>)
  then show ?thesis using DStruct x(1) same_form_names [OF x(2)]
    by (auto simp: list_ex_iff intro!: reads_bind_ret)
next
  case (DTuple fs)
  then obtain vs where x: "x = DTuple vs" using assms(1) by (cases x) auto
  have "reads (deserialize_variant_args 0 (map (Pair None) fs)) vs (concat bss)"
    by (rule variant_args_reads) (use assms(2) DTuple x in \<open>auto simp: comp_def\<close>)
  moreover have "\<exists>f v bs. fs = [f] \<and> vs = [v] \<and> bss = [bs] \<and> reads f v bs" if "length fs = 1"
    using that assms(2) reads_all_length [OF assms(2)] DTuple x by (auto simp: length_Suc_conv)
  ultimately show ?thesis using DTuple x by (auto simp: read_enum_variant_arg_def intro!: reads_bind_ret)
next
  case DUnit
  then show ?thesis using assms reads_all_length [OF assms(2)] by (cases x) (auto simp: reads_ret)
qed

lemma variant_expands: "deserialize_variant (ident, struct_from_ast d) \<noteq> None"
proof (cases d)
  case (DTuple fs)
  then show ?thesis by (cases fs) (auto simp: length_Suc_conv)
qed (auto simp: list_ex_iff)

lemma enum_reads:
  assumes "idx < length vs" "vs ! idx = (ident, d)" "length vs < 2 ^ 32" "same_form d x" "reads_all (data_items d) (data_items x) bss"
  shows "\<exists>r. deserialize_enum name (enum_from_ast vs) = Some r \<and> reads r (idx, x) (len_bytes idx @ concat bss)"
proof -
  obtain r where r: "deserialize_variant (ident, struct_from_ast d) = Some r" "reads r x (concat bss)"
    using variant_reads [OF assms(4,5)] by blast
  define arms where "arms = map (the \<circ> deserialize_variant) (enum_from_ast vs)"
  have "list_all (\<lambda>a. a \<noteq> None) (map deserialize_variant (enum_from_ast vs))"
    using variant_expands by (auto simp: list_all_iff enum_from_ast_def)
  then have "those (map deserialize_variant (enum_from_ast vs)) = Some arms" by (simp add: those_map_the arms_def)
  moreover have "length arms = length vs" "arms ! idx = r"
    using assms(1,2) r(1) by (simp_all add: arms_def enum_from_ast_def)
  moreover have "reads (try_bind r (\<lambda>x. ok_ret (idx, x))) (idx, x) (concat bss)" using r(2) by (simp add: reads_bind_ret)
  ultimately show ?thesis using assms(1,3)
    by (auto simp: deserialize_enum_def read_enum_def enum_from_ast_def intro!: reads_variant)
qed

section \<open>All serialisable values\<close>

text \<open>
  Values and types built from the implementations, to any depth.  A vector type carries the size of its
  elements.  \<open>encode_val\<close> and \<open>decode_val\<close> choose the implementation the way the trait does, by type.
\<close>

datatype sval =
    VUint uint
  | VInt iint
  | VScalar scalar
  | VOption "sval option"
  | VVec "sval list"
  | VArray "sval list"
  | VLinkedList "sval list"
  | VVecDeque "sval list"
  | VTuple "sval list"
  | VBox "sval boxed"
  | VRc "sval rc"
  | VArc "sval arc"
  | VRefCell "sval refcell"
  | VStruct string "sval variant_data"
  | VEnum string string nat "sval variant_data"

datatype sty =
    TUint uint_type
  | TInt iint_type
  | TScalar scalar_type
  | TOption sty
  | TVec nat sty
  | TArray nat sty
  | TLinkedList sty
  | TVecDeque sty
  | TTuple "sty list"
  | TBox sty
  | TRc sty
  | TArc sty
  | TRefCell sty
  | TStruct string "sty variant_data"
  | TEnum string "(string \<times> sty variant_data) list"

text \<open>The code of a declaration that does not expand cannot be run.\<close>

definition expanded :: "('s, 'e, 'a) fallible option \<Rightarrow> ('s, 'e, 'a) fallible" where
  "expanded m = (case m of Some f \<Rightarrow> f | None \<Rightarrow> (\<lambda>_. None))"

primrec encode_val :: "sval \<Rightarrow> emit" where
  "encode_val (VUint v) = encode_uint v"
| "encode_val (VInt v) = encode_iint v"
| "encode_val (VScalar v) = encode_scalar v"
| "encode_val (VOption v) = encode_option id (map_option encode_val v)"
| "encode_val (VVec vs) = encode_vec id (map encode_val vs)"
| "encode_val (VArray vs) = encode_array (length vs) id (map encode_val vs)"
| "encode_val (VLinkedList vs) = encode_linked_list id (map encode_val vs)"
| "encode_val (VVecDeque vs) = encode_vec_deque id (map encode_val vs)"
| "encode_val (VTuple vs) = encode_tuple (map encode_val vs)"
| "encode_val (VBox b) = encode_box id (map_boxed encode_val b)"
| "encode_val (VRc b) = encode_rc id (map_rc encode_val b)"
| "encode_val (VArc b) = encode_arc id (map_arc encode_val b)"
| "encode_val (VRefCell b) = encode_refcell id (map_refcell encode_val b)"
| "encode_val (VStruct name d) = expanded (serialize_struct_body name (struct_from_ast (map_variant_data encode_val d)))"
| "encode_val (VEnum name ident idx d) =
     expanded (serialize_variant name idx (ident, struct_from_ast (map_variant_data encode_val d)))"

definition map_decode :: "('a \<Rightarrow> 'b) \<Rightarrow> 'a decode \<Rightarrow> 'b decode" where
  "map_decode f d = try_bind d (\<lambda>x. ok_ret (f x))"

primrec decode_val :: "sty \<Rightarrow> sval decode" where
  "decode_val (TUint t) = map_decode VUint (decode_uint t)"
| "decode_val (TInt t) = map_decode VInt (decode_iint t)"
| "decode_val (TScalar t) = map_decode VScalar (decode_scalar t)"
| "decode_val (TOption t) = map_decode VOption (decode_option (decode_val t))"
| "decode_val (TVec sz t) = map_decode VVec (decode_vec sz (decode_val t))"
| "decode_val (TArray n t) = map_decode VArray (decode_array n (decode_val t))"
| "decode_val (TLinkedList t) = map_decode VLinkedList (decode_linked_list (decode_val t))"
| "decode_val (TVecDeque t) = map_decode VVecDeque (decode_vec_deque (decode_val t))"
| "decode_val (TTuple ts) = map_decode VTuple (decode_tuple (map decode_val ts))"
| "decode_val (TBox t) = map_decode VBox (decode_box (decode_val t))"
| "decode_val (TRc t) = map_decode VRc (decode_rc (decode_val t))"
| "decode_val (TArc t) = map_decode VArc (decode_arc (decode_val t))"
| "decode_val (TRefCell t) = map_decode VRefCell (decode_refcell (decode_val t))"
| "decode_val (TStruct name d) =
     map_decode (VStruct name) (expanded (deserialize_struct_body name (struct_from_ast (map_variant_data decode_val d))))"
| "decode_val (TEnum name vs) =
     map_decode (\<lambda>(idx, d). VEnum name (fst (vs ! idx)) idx d)
       (expanded (deserialize_enum name (enum_from_ast (map (map_prod id (map_variant_data decode_val)) vs))))"

text \<open>
  The values of a type that Rust can hold and the format can carry.  Lists are no longer than the address
  space, an \<open>i128\<close> is one that comes back, a \<open>RefCell\<close> is not mutably borrowed.
\<close>

primrec has_type :: "sval \<Rightarrow> sty \<Rightarrow> bool" where
  "has_type (VUint v) t \<longleftrightarrow> t = TUint (uint_type_of v)"
| "has_type (VInt v) t \<longleftrightarrow> t = TInt (iint_type_of v) \<and> iint_ok v"
| "has_type (VScalar v) t \<longleftrightarrow> t = TScalar (scalar_type_of v) \<and> scalar_ok v"
| "has_type (VOption v) t \<longleftrightarrow> (case t of TOption u \<Rightarrow> pred_option (\<lambda>p. p u) (map_option has_type v) | _ \<Rightarrow> False)"
| "has_type (VVec vs) t \<longleftrightarrow> (case t of TVec sz u \<Rightarrow> seq_ok sz (\<lambda>p. p u) (map has_type vs) | _ \<Rightarrow> False)"
| "has_type (VArray vs) t \<longleftrightarrow> (case t of TArray n u \<Rightarrow> n = length vs \<and> seq_ok 0 (\<lambda>p. p u) (map has_type vs) | _ \<Rightarrow> False)"
| "has_type (VLinkedList vs) t \<longleftrightarrow> (case t of TLinkedList u \<Rightarrow> seq_ok 0 (\<lambda>p. p u) (map has_type vs) | _ \<Rightarrow> False)"
| "has_type (VVecDeque vs) t \<longleftrightarrow> (case t of TVecDeque u \<Rightarrow> seq_ok 0 (\<lambda>p. p u) (map has_type vs) | _ \<Rightarrow> False)"
| "has_type (VTuple vs) t \<longleftrightarrow> (case t of TTuple ts \<Rightarrow> list_all2 (\<lambda>p u. p u) (map has_type vs) ts | _ \<Rightarrow> False)"
| "has_type (VBox b) t \<longleftrightarrow> (case t of TBox u \<Rightarrow> (case map_boxed has_type b of Boxed p \<Rightarrow> p u) | _ \<Rightarrow> False)"
| "has_type (VRc b) t \<longleftrightarrow> (case t of TRc u \<Rightarrow> (case map_rc has_type b of Rc p \<Rightarrow> p u) | _ \<Rightarrow> False)"
| "has_type (VArc b) t \<longleftrightarrow> (case t of TArc u \<Rightarrow> (case map_arc has_type b of Arc p \<Rightarrow> p u) | _ \<Rightarrow> False)"
| "has_type (VRefCell b) t \<longleftrightarrow>
     (case t of TRefCell u \<Rightarrow> (case map_refcell has_type b of RefCell borrowed p \<Rightarrow> \<not> borrowed \<and> p u) | _ \<Rightarrow> False)"
| "has_type (VStruct name d) t \<longleftrightarrow>
     (case t of TStruct n td \<Rightarrow> n = name \<and> derivable d \<and> rel_variant_data (\<lambda>p u. p u) (map_variant_data has_type d) td
      | _ \<Rightarrow> False)"
| "has_type (VEnum name ident idx d) t \<longleftrightarrow>
     (case t of TEnum n vs \<Rightarrow> n = name \<and> length vs < 2 ^ 32 \<and> idx < length vs \<and> fst (vs ! idx) = ident \<and> derivable d
        \<and> rel_variant_data (\<lambda>p u. p u) (map_variant_data has_type d) (snd (vs ! idx))
      | _ \<Rightarrow> False)"

lemma encode_elts_map: "encode_elts e i (map f xs) = encode_elts (e \<circ> f) i xs"
  by (induction xs arbitrary: i) simp_all

lemma encode_seqs_map:
  "encode_vec id (map f xs) = encode_vec f xs" "encode_linked_list id (map f xs) = encode_linked_list f xs"
  "encode_vec_deque id (map f xs) = encode_vec_deque f xs"
  "encode_array (length xs) id (map f xs) = encode_array (length xs) f xs"
  "encode_option id (map_option f v) = encode_option f v"
  by (simp_all add: encode_vec_def encode_linked_list_def encode_vec_deque_def encode_array_def encode_elts_map map_nth
      encode_option_def comp_def option.case_eq_if map_nth [of "map f xs", simplified]) (cases v; simp)

lemma data_items_map [simp]: "data_items (map_variant_data f d) = map f (data_items d)"
  by (cases d) (auto simp: snd_map_prod comp_def)

lemma set_data_items: "set_variant_data d = set (data_items d)"
  by (cases d) force+

lemma derivable_map [simp]: "derivable (map_variant_data f d) = derivable d"
  by (cases d) simp_all

lemma data_rel: "rel_variant_data R d e \<Longrightarrow> list_all2 R (data_items d) (data_items e)"
  by (cases d; cases e) (auto simp: list_all2_map1 list_all2_map2 rel_prod_sel elim!: list_all2_mono)

lemma data_form: "rel_variant_data R (map_variant_data f d) e \<Longrightarrow> same_form (map_variant_data g e) d"
proof -
  assume "rel_variant_data R (map_variant_data f d) e"
  then have "rel_variant_data (\<lambda>_ _. True) d e"
    by (simp add: variant_data.rel_map) (erule variant_data.rel_mono_strong, simp)
  then have "rel_variant_data (\<lambda>_ _. True) e d"
    using variant_data.rel_flip [of "\<lambda>_ _. True" e d] by (simp add: conversep.simps [abs_def])
  then show ?thesis by (simp add: variant_data.rel_map)
qed

text \<open>A value and a type between which the implementations carry it.\<close>

definition carried :: "sval \<Rightarrow> sty \<Rightarrow> bool" where
  "carried v t \<longleftrightarrow> (\<exists>bs. writes (encode_val v) bs \<and> reads (decode_val t) v bs)"

lemma carriedI: "writes (encode_val v) bs \<Longrightarrow> reads (decode_val t) v bs \<Longrightarrow> carried v t"
  by (auto simp: carried_def)

text \<open>The values one after the other, each with its own type.\<close>

lemma items_conveyed:
  assumes "list_all2 (\<lambda>p u. p u) (map has_type vs) ts"
    "\<And>v t. v \<in> set vs \<Longrightarrow> has_type v t \<Longrightarrow> carried v t"
  shows "\<exists>bss. list_all2 writes (map encode_val vs) bss \<and> reads_all (map decode_val ts) vs bss"
  using assms
proof (induction vs arbitrary: ts)
  case Nil
  then show ?case by (intro exI [of _ "[]"]) auto
next
  case (Cons v vs)
  then obtain t us where t: "ts = t # us" "has_type v t" "list_all2 (\<lambda>p u. p u) (map has_type vs) us"
    by (auto simp: list_all2_Cons1)
  obtain bs where "writes (encode_val v) bs" "reads (decode_val t) v bs"
    using Cons.prems(2) t unfolding carried_def by (metis list.set_intros(1))
  moreover obtain bss where "list_all2 writes (map encode_val vs) bss" "reads_all (map decode_val us) vs bss"
    using Cons.IH [OF t(3)] Cons.prems(2) by auto
  ultimately show ?case using t by (intro exI [of _ "bs # bss"]) auto
qed

lemma elements_ser:
  assumes "seq_ok sz (\<lambda>p. p u) (map has_type vs)"
    "\<And>v. v \<in> set vs \<Longrightarrow> has_type v u \<Longrightarrow> carried v u"
  obtains ser where "\<forall>v \<in> set vs. writes (encode_val v) (ser v) \<and> reads (decode_val u) v (ser v)"
    "length vs < USIZE" "length vs * sz < 2 ^ 63"
proof -
  have "\<forall>v \<in> set vs. \<exists>bs. writes (encode_val v) bs \<and> reads (decode_val u) v bs"
    using assms unfolding carried_def by (auto simp: seq_ok_def list_all_iff)
  then obtain ser where "\<forall>v \<in> set vs. writes (encode_val v) (ser v) \<and> reads (decode_val u) v (ser v)"
    by (metis bchoice)
  then show thesis using that assms(1) by (simp add: seq_ok_def)
qed

lemma reads_map_decode: "reads d x bs \<Longrightarrow> reads (map_decode f d) (f x) bs"
  by (simp add: map_decode_def reads_bind_ret)

lemma option_carried:
  assumes IH: "\<And>x u. x \<in> set_option v \<Longrightarrow> has_type x u \<Longrightarrow> carried x u" and ty: "has_type (VOption v) t"
  shows "carried (VOption v) t"
proof -
  obtain u where t: "t = TOption u" "\<forall>x \<in> set_option v. has_type x u"
    using ty by (auto simp: option.pred_set option.set_map split: sty.splits)
  then have "\<forall>x \<in> set_option v. \<exists>bs. writes (encode_val x) bs \<and> reads (decode_val u) x bs"
    using IH unfolding carried_def by blast
  then obtain ser where "\<forall>x \<in> set_option v. writes (encode_val x) (ser x) \<and> reads (decode_val u) x (ser x)" by (metis bchoice)
  then have "writes (encode_option encode_val v) (case v of None \<Rightarrow> len_bytes 0 | Some v \<Rightarrow> len_bytes 1 @ ser v)"
    "reads (decode_option (decode_val u)) v (case v of None \<Rightarrow> len_bytes 0 | Some v \<Rightarrow> len_bytes 1 @ ser v)"
    by (auto intro!: writes_option reads_option)
  then show ?thesis using t(1) reads_map_decode by (auto simp: encode_seqs_map intro!: carriedI)
qed

lemma vec_carried:
  assumes IH: "\<And>x u. x \<in> set vs \<Longrightarrow> has_type x u \<Longrightarrow> carried x u" and ty: "has_type (VVec vs) t"
  shows "carried (VVec vs) t"
proof -
  obtain sz u where t: "t = TVec sz u" "seq_ok sz (\<lambda>p. p u) (map has_type vs)" using ty by (auto split: sty.splits)
  from elements_ser [OF t(2) IH] obtain ser where
    "\<forall>v \<in> set vs. writes (encode_val v) (ser v) \<and> reads (decode_val u) v (ser v)" "length vs < USIZE" "length vs * sz < 2 ^ 63" .
  from vec_conveyed [OF this] show ?thesis using t reads_map_decode by (auto simp: encode_seqs_map intro!: carriedI)
qed

lemma list_carried:
  assumes IH: "\<And>x u. x \<in> set vs \<Longrightarrow> has_type x u \<Longrightarrow> carried x u"
  shows "has_type (VArray vs) t \<Longrightarrow> carried (VArray vs) t"
    "has_type (VLinkedList vs) t \<Longrightarrow> carried (VLinkedList vs) t"
    "has_type (VVecDeque vs) t \<Longrightarrow> carried (VVecDeque vs) t"
proof -
  have c: "carried (VArray vs) (TArray (length vs) u) \<and> carried (VLinkedList vs) (TLinkedList u) \<and> carried (VVecDeque vs) (TVecDeque u)"
    if ok: "seq_ok 0 (\<lambda>p. p u) (map has_type vs)" for u
  proof -
    from elements_ser [OF ok IH] obtain ser where
      "\<forall>v \<in> set vs. writes (encode_val v) (ser v) \<and> reads (decode_val u) v (ser v)" "length vs < USIZE" .
    from list_conveyed [OF this] show ?thesis using reads_map_decode by (auto simp: encode_seqs_map intro!: carriedI)
  qed
  show "has_type (VArray vs) t \<Longrightarrow> carried (VArray vs) t"
    "has_type (VLinkedList vs) t \<Longrightarrow> carried (VLinkedList vs) t"
    "has_type (VVecDeque vs) t \<Longrightarrow> carried (VVecDeque vs) t"
    using c by (auto split: sty.splits)
qed

lemma tuple_carried:
  assumes IH: "\<And>x u. x \<in> set vs \<Longrightarrow> has_type x u \<Longrightarrow> carried x u" and ty: "has_type (VTuple vs) t"
  shows "carried (VTuple vs) t"
proof -
  obtain ts where t: "t = TTuple ts" "list_all2 (\<lambda>p u. p u) (map has_type vs) ts" using ty by (auto split: sty.splits)
  from items_conveyed [OF t(2) IH] obtain bss where "list_all2 writes (map encode_val vs) bss" "reads_all (map decode_val ts) vs bss"
    by blast
  then show ?thesis using t(1) by (auto intro!: carriedI writes_tuple reads_map_decode reads_tuple)
qed

lemma pointer_carried:
  assumes "carried v u"
  shows "carried (VBox (Boxed v)) (TBox u)" "carried (VRc (Rc v)) (TRc u)" "carried (VArc (Arc v)) (TArc u)"
    "carried (VRefCell (RefCell False v)) (TRefCell u)"
proof -
  obtain bs where "writes (encode_val v) bs" "reads (decode_val u) v bs" using assms by (auto simp: carried_def)
  then show "carried (VBox (Boxed v)) (TBox u)" "carried (VRc (Rc v)) (TRc u)" "carried (VArc (Arc v)) (TArc u)"
    "carried (VRefCell (RefCell False v)) (TRefCell u)"
    by (auto simp: decode_box_def decode_rc_def decode_arc_def decode_refcell_def intro!: carriedI reads_map_decode reads_bind_ret)
qed

lemma struct_carried:
  assumes IH: "\<And>x u. x \<in> set_variant_data d \<Longrightarrow> has_type x u \<Longrightarrow> carried x u" and ty: "has_type (VStruct name d) t"
  shows "carried (VStruct name d) t"
proof -
  obtain td where t: "t = TStruct name td" "derivable d" "rel_variant_data (\<lambda>p u. p u) (map_variant_data has_type d) td"
    using ty by (auto split: sty.splits)
  have "list_all2 (\<lambda>p u. p u) (map has_type (data_items d)) (data_items td)" using data_rel [OF t(3)] by simp
  from items_conveyed [OF this IH] obtain bss where
    "list_all2 writes (data_items (map_variant_data encode_val d)) bss"
    "reads_all (data_items (map_variant_data decode_val td)) (data_items d) bss"
    by (auto simp: set_data_items)
  then obtain e r where
    "serialize_struct_body name (struct_from_ast (map_variant_data encode_val d)) = Some e" "writes e (concat bss)"
    "deserialize_struct_body name (struct_from_ast (map_variant_data decode_val td)) = Some r" "reads r d (concat bss)"
    using struct_writes [of "map_variant_data encode_val d" bss name] struct_reads [OF data_form [OF t(3)], of decode_val bss name] t(2)
    by auto
  then show ?thesis using t(1) reads_map_decode by (auto simp: expanded_def intro!: carriedI)
qed

lemma enum_carried:
  assumes IH: "\<And>x u. x \<in> set_variant_data d \<Longrightarrow> has_type x u \<Longrightarrow> carried x u" and ty: "has_type (VEnum name ident idx d) t"
  shows "carried (VEnum name ident idx d) t"
proof -
  obtain vs where t: "t = TEnum name vs" "length vs < 2 ^ 32" "idx < length vs" "fst (vs ! idx) = ident" "derivable d"
    "rel_variant_data (\<lambda>p u. p u) (map_variant_data has_type d) (snd (vs ! idx))"
    using ty by (auto split: sty.splits)
  let ?vs = "map (map_prod id (map_variant_data decode_val)) vs"
  have "list_all2 (\<lambda>p u. p u) (map has_type (data_items d)) (data_items (snd (vs ! idx)))" using data_rel [OF t(6)] by simp
  from items_conveyed [OF this IH] obtain bss where
    w: "list_all2 writes (data_items (map_variant_data encode_val d)) bss"
    and r: "reads_all (data_items (map_variant_data decode_val (snd (vs ! idx)))) (data_items d) bss"
    by (auto simp: set_data_items)
  have "?vs ! idx = (ident, map_variant_data decode_val (snd (vs ! idx)))" using t(3,4) by (simp add: prod_eq_iff)
  from enum_reads [OF _ this _ data_form [OF t(6)] r, of name] obtain f where
    "deserialize_enum name (enum_from_ast ?vs) = Some f" "reads f (idx, d) (len_bytes idx @ concat bss)"
    using t(2,3) by auto
  moreover obtain e where "serialize_variant name idx (ident, struct_from_ast (map_variant_data encode_val d)) = Some e"
    "writes e (len_bytes idx @ concat bss)"
    using variant_writes [OF _ w, of name idx ident] t(5) by auto
  ultimately show ?thesis using t(1,4) reads_map_decode [of f "(idx, d)" _ "\<lambda>(idx, d). VEnum name (fst (vs ! idx)) idx d"]
    by (auto simp: expanded_def intro!: carriedI)
qed

lemma has_type_carried: "has_type v t \<Longrightarrow> carried v t"
proof (induction v arbitrary: t)
  case (VUint v)
  then show ?case using uint_conveyed [of v] by (auto intro!: carriedI reads_map_decode)
next
  case (VInt v)
  then show ?case using iint_writes [of v] iint_reads [of v] by (auto intro!: carriedI reads_map_decode)
next
  case (VScalar v)
  then show ?case using scalar_writes [of v] scalar_reads [of v] by (auto intro!: carriedI reads_map_decode)
next
  case (VBox b)
  then show ?case by (cases b) (auto split: sty.splits intro!: pointer_carried)
next
  case (VRc b)
  then show ?case by (cases b) (auto split: sty.splits intro!: pointer_carried)
next
  case (VArc b)
  then show ?case by (cases b) (auto split: sty.splits intro!: pointer_carried)
next
  case (VRefCell b)
  then show ?case by (cases b) (auto split: sty.splits intro!: pointer_carried)
qed (blast intro: option_carried vec_carried list_carried tuple_carried struct_carried enum_carried)+

text \<open>The bytes of a value are those a new encoder receives.\<close>

definition ser_val :: "sval \<Rightarrow> bytes" where
  "ser_val v = (case encode_val v (Cursor_new []) of Some (Inr _, c) \<Rightarrow> inner c | _ \<Rightarrow> [])"

interpretation val_codec: codec encode_val "decode_val t" ser_val "\<lambda>v. has_type v t" for t
proof -
  have "writes (encode_val v) (ser_val v) \<and> reads (decode_val t) v (ser_val v)" if v: "has_type v t" for v
  proof -
    obtain bs where b: "writes (encode_val v) bs" "reads (decode_val t) v bs"
      using has_type_carried [OF v] by (auto simp: carried_def)
    then have "ser_val v = bs" by (simp add: ser_val_def writes_def Cursor_new_def at_end_def appended_def)
    then show ?thesis using b by simp
  qed
  then show "codec encode_val (decode_val t) ser_val (\<lambda>v. has_type v t)" by unfold_locales auto
qed

interpretation val_elements: element_codec encode_val "decode_val t" ser_val "\<lambda>v. has_type v t" sz for t sz
  by unfold_locales

interpretation val_entries: entry_codec encode_val "decode_val tk" ser_val "\<lambda>v. has_type v tk"
  encode_val "decode_val tv" ser_val "\<lambda>v. has_type v tv" for tk tv
  by unfold_locales

interpretation u64_entries: ordered_entry_codec emit_u64 read_u64 "\<lambda>v. uleb (ucast v)" "\<lambda>_. True"
  encode_val "decode_val tv" ser_val "\<lambda>v. has_type v tv" for tv
  by unfold_locales

section \<open>Properties\<close>



text \<open>
  C34. Truncated data are not reported as an error: decoding any strict prefix of the bytes of a value panics,
  at every type, and never returns \<open>None\<close> or another value.
\<close>
theorem truncated_data_panic:
  assumes "has_type v t" "SerializeHelper_encode encode_val v SerializeHelper_new = Some (Some bs, h)"
    "n < length bs" "n < USIZE"
  shows "DeSerializeHelper_decode (decode_val t) (DeSerializeHelper_new (take n bs)) = None"
  using val_codec.helper_encode [OF assms(1), of SerializeHelper_new] val_codec.helper_decode_truncated [OF assms(1)] assms(2-4)
  by simp

theorem truncated_data_panic_witness:
  "\<exists>h. SerializeHelper_encode encode_val (VScalar (SBool True)) SerializeHelper_new = Some (Some [1], h)
     \<and> DeSerializeHelper_decode (decode_val (TScalar TSBool)) (DeSerializeHelper_new []) = None"
proof -
  have e: "SerializeHelper_encode encode_val (VScalar (SBool True)) SerializeHelper_new =
      Some (Some [1], SerializeHelper_new\<lparr>sh_cursor := appended [1] (sh_cursor SerializeHelper_new)\<rparr>)"
    by (simp add: SerializeHelper_encode_def emit_bool_def emit_u8_def write_ignoring_def write_all_cursor)
  have "has_type (VScalar (SBool True)) (TScalar TSBool)" by simp
  from truncated_data_panic [OF this e, of 0] show ?thesis using e by simp
qed

text \<open>
  A \<open>SerializeHelper\<close> that is used twice returns, for the second value, the bytes of both: what the
  second call returns starts with the bytes of the first value, and decoding it gives the first value.
\<close>
theorem reused_helper_returns_earlier_bytes:
  assumes "has_type v t" "has_type w u"
  shows "\<exists>bs cs h h1 h2. SerializeHelper_encode encode_val v SerializeHelper_new = Some (Some bs, h1)
    \<and> SerializeHelper_encode encode_val w SerializeHelper_new = Some (Some cs, h)
    \<and> SerializeHelper_encode encode_val w h1 = Some (Some (bs @ cs), h2)
    \<and> (length (bs @ cs) < USIZE \<longrightarrow>
         DeSerializeHelper_decode (decode_val t) (DeSerializeHelper_new (bs @ cs)) = Some (Some v))"
  using val_codec.helper_encode [OF assms(1)] val_codec.helper_encode [OF assms(2)] val_codec.helper_decode [OF assms(1)]
  by simp

theorem reused_helper_returns_earlier_bytes_witness:
  "\<exists>bs cs h h1 h2. SerializeHelper_encode encode_val (VUint (U32 7)) SerializeHelper_new = Some (Some bs, h1)
    \<and> SerializeHelper_encode encode_val (VScalar (SBool True)) SerializeHelper_new = Some (Some cs, h)
    \<and> SerializeHelper_encode encode_val (VScalar (SBool True)) h1 = Some (Some (bs @ cs), h2)
    \<and> (length (bs @ cs) < USIZE \<longrightarrow>
         DeSerializeHelper_decode (decode_val (TUint TU32)) (DeSerializeHelper_new (bs @ cs)) = Some (Some (VUint (U32 7))))"
  by (rule reused_helper_returns_earlier_bytes [where u = "TScalar TSBool"]) simp_all

lemma codec_at: "writes (enc x) bs \<Longrightarrow> reads dec x bs \<Longrightarrow> codec enc dec (\<lambda>_. bs) (\<lambda>y. y = x)"
  by unfold_locales auto

lemma helpers_roundtrip:
  assumes "writes (enc x) bs" "reads dec x bs"
  shows "\<exists>bs h. SerializeHelper_encode enc x SerializeHelper_new = Some (Some bs, h)
    \<and> (length bs < USIZE \<longrightarrow> DeSerializeHelper_decode dec (DeSerializeHelper_new bs) = Some (Some x))"
  using codec.helper_encode [OF codec_at [of enc x bs dec, OF assms], of x SerializeHelper_new] codec.helper_decode [OF codec_at [of enc x bs dec, OF assms], of x "[]"]
  by simp



end
