(* ===== verification/Serialize_Types.thy ===== *)
theory Serialize_Types
  imports Serialize_Derive
begin

text \<open>
  What the decoders of \<open>sgx_serialize\<close> return on bytes that nobody has checked: \<open>decode_val\<close> panics,
  reports an error or returns a value of its type, whatever the bytes are.
\<close>

section \<open>What a decoder returns\<close>

text \<open>\<open>yields d P\<close>: on any data that fit the address space, what \<open>d\<close> returns satisfies \<open>P\<close>.\<close>

definition yields :: "'a decode \<Rightarrow> ('a \<Rightarrow> bool) \<Rightarrow> bool" where
  "yields d P \<longleftrightarrow> (\<forall>dec x dec'. length (dec_data dec) < 2 ^ 63 \<longrightarrow> d dec = Some (Inr x, dec') \<longrightarrow>
     P x \<and> dec_data dec' = dec_data dec)"

lemma yieldsD: "yields d P \<Longrightarrow> length (dec_data dec) < 2 ^ 63 \<Longrightarrow> d dec = Some (Inr x, dec') \<Longrightarrow> P x \<and> dec_data dec' = dec_data dec"
  unfolding yields_def by blast

lemma yields_ret: "P x \<Longrightarrow> yields (ok_ret x) P"
  by (simp add: yields_def ok_ret_def)

lemma yields_stop: "yields (err_ret e) P" "yields (\<lambda>_. None) P"
  by (simp_all add: yields_def err_ret_def)

lemma yields_bind: "yields m Q \<Longrightarrow> (\<And>x. Q x \<Longrightarrow> yields (k x) P) \<Longrightarrow> yields (try_bind m k) P"
proof -
  assume m: "yields m Q" and k: "\<And>x. Q x \<Longrightarrow> yields (k x) P"
  show ?thesis unfolding yields_def
  proof (intro allI impI)
    fix dec y dec' assume d: "length (dec_data dec) < 2 ^ 63" and b: "try_bind m k dec = Some (Inr y, dec')"
    from b obtain x s where x: "m dec = Some (Inr x, s)" "k x s = Some (Inr y, dec')"
      by (simp add: try_bind_def split: option.splits prod.splits sum.splits)
    have q: "Q x" "dec_data s = dec_data dec" using yieldsD [OF m d x(1)] by simp_all
    have "length (dec_data s) < 2 ^ 63" using d by (simp only: q(2))
    from yieldsD [OF k [OF q(1)] this x(2)] show "P y \<and> dec_data dec' = dec_data dec" by (simp only: q(2))
  qed
qed

lemma yields_bind_ret: "yields d Q \<Longrightarrow> (\<And>x. Q x \<Longrightarrow> P (f x)) \<Longrightarrow> yields (try_bind d (\<lambda>x. ok_ret (f x))) P"
  by (erule yields_bind) (rule yields_ret)

lemma yields_map: "yields d Q \<Longrightarrow> (\<And>x. Q x \<Longrightarrow> P (f x)) \<Longrightarrow> yields (map_decode f d) P"
  unfolding map_decode_def by (rule yields_bind_ret)

lemma yields_mono: "yields d Q \<Longrightarrow> (\<And>x. Q x \<Longrightarrow> P x) \<Longrightarrow> yields d P"
  unfolding yields_def by blast

lemma yields_leb: "yields read_uleb128 (\<lambda>_. True)" "yields read_sleb128 (\<lambda>_. True)"
  by (auto simp: yields_def read_uleb128_def read_sleb128_def split: option.splits prod.splits)

lemma yields_byte: "yields read_u8 (\<lambda>_. True)" "yields read_i8 (\<lambda>_. True)"
  by (auto simp: yields_def read_u8_def read_i8_def split: if_splits)

lemma yields_char: "yields read_char char_valid"
  unfolding read_char_def read_u32_def by (rule yields_bind [OF yields_leb(1)]) (simp add: yields_ret yields_stop)

lemma yields_str: "yields read_str (\<lambda>v. utf8_valid v \<and> length v < 2 ^ 63)"
  unfolding read_str_def read_usize_def
  by (rule yields_bind [OF yields_leb(1)]) (auto simp: yields_def Let_def split: if_splits)

lemma yields_uint: "yields (decode_uint t) (\<lambda>v. uint_type_of v = t)"
  by (cases t) (auto simp: read_usize_def read_u16_def read_u32_def read_u64_def read_u128_def
      intro: yields_bind_ret [OF yields_leb(1)] yields_bind_ret [OF yields_byte(1)])

lemma yields_iint: "t \<noteq> TI128 \<Longrightarrow> yields (decode_iint t) (\<lambda>v. iint_type_of v = t \<and> iint_ok v)"
  by (cases t) (auto simp: read_isize_def read_i16_def read_i32_def read_i64_def
      intro: yields_bind_ret [OF yields_leb(2)] yields_bind_ret [OF yields_byte(2)])

lemma yields_float_bool: "yields read_f32 (\<lambda>_. True)" "yields read_f64 (\<lambda>_. True)" "yields read_bool (\<lambda>_. True)"
  "yields read_nil (\<lambda>_. True)"
  unfolding read_f32_def read_f64_def read_bool_def read_nil_def read_u32_def read_u64_def
  by (rule yields_bind_ret [OF yields_leb(1)] yields_bind_ret [OF yields_byte(1)] yields_ret, simp)+

lemma yields_scalar: "yields (decode_scalar t) (\<lambda>v. scalar_type_of v = t \<and> scalar_ok v)"
proof (cases t)
  case TSStr
  then show ?thesis by (auto intro!: yields_bind_ret [OF yields_str])
next
  case TSChar
  then show ?thesis by (simp add: yields_bind_ret [OF yields_char])
qed (simp_all add: yields_float_bool [THEN yields_bind_ret])

section \<open>Options and sequences\<close>

lemma yields_len: "(\<And>n. n < USIZE \<Longrightarrow> yields (f n) P) \<Longrightarrow> yields (try_bind read_usize (\<lambda>len. f (unat len))) P"
proof -
  assume f: "\<And>n. n < USIZE \<Longrightarrow> yields (f n) P"
  have "yields (f (unat len)) P" for len :: usize
  proof (rule f)
    have "unat len < 2 ^ LENGTH(64)" by (rule unsigned_less)
    then show "unat len < USIZE" by simp
  qed
  then show ?thesis unfolding read_usize_def by (rule yields_bind [OF yields_leb(1)])
qed

lemma yields_elts:
  "yields d P \<Longrightarrow> list_all P xs \<Longrightarrow>
   yields (decode_elts d push_back i n xs) (\<lambda>ys. list_all P ys \<and> length ys = length xs + n)"
proof (induction n arbitrary: i xs)
  case (Suc n)
  have "yields (decode_elts d push_back (i + 1) n (push_back x xs)) (\<lambda>ys. list_all P ys \<and> length ys = length xs + Suc n)"
    if "P x" for x
    by (rule yields_mono [OF Suc.IH [OF Suc.prems(1)]]) (use that Suc.prems(2) in \<open>auto simp: push_back_def\<close>)
  then show ?case using Suc.prems(1) by (simp add: read_seq_elt_def yields_bind)
qed (simp add: yields_ret)

lemma yields_elts_all:
  "yields d P \<Longrightarrow> yields (decode_elts d push_back 0 n []) (\<lambda>ys. list_all P ys \<and> length ys = n)"
  using yields_elts [of d P "[]" 0 n] by simp

lemma yields_vec:
  assumes "yields d P"
  shows "yields (decode_vec sz d) (seq_ok sz P)"
  unfolding decode_vec_def read_seq_def
proof (rule yields_len)
  fix n assume n: "n < USIZE"
  have "yields (decode_elts d push_back 0 n []) (seq_ok sz P)" if "n * sz < 2 ^ 63"
    by (rule yields_mono [OF yields_elts_all [OF assms]]) (use n that in \<open>simp add: seq_ok_def\<close>)
  then show "yields (case vec_with_capacity sz n of None \<Rightarrow> (\<lambda>_. None) | Some v \<Rightarrow> decode_elts d push_back 0 n v) (seq_ok sz P)"
    by (simp add: vec_with_capacity_def yields_stop)
qed

lemma yields_lists:
  assumes "yields d P"
  shows "yields (decode_linked_list d) (seq_ok 0 P)" "yields (decode_vec_deque d) (seq_ok 0 P)"
    "yields (decode_array n d) (\<lambda>vs. n = length vs \<and> seq_ok 0 P vs)"
proof -
  have e: "yields (decode_elts d push_back 0 m []) (\<lambda>vs. m = length vs \<and> seq_ok 0 P vs)" if "m < USIZE" for m
    by (rule yields_mono [OF yields_elts_all [OF assms]]) (use that in \<open>simp add: seq_ok_def\<close>)
  then have "yields (decode_elts d push_back 0 m []) (seq_ok 0 P)" if "m < USIZE" for m
    by (rule yields_mono) (use that in simp_all)
  then show "yields (decode_linked_list d) (seq_ok 0 P)" "yields (decode_vec_deque d) (seq_ok 0 P)"
    unfolding decode_linked_list_def decode_vec_deque_def read_seq_def by (rule yields_len, simp)+
  have "yields (if m \<noteq> n then err_ret ''wrong array length'' else decode_elts d push_back 0 n [])
      (\<lambda>vs. n = length vs \<and> seq_ok 0 P vs)" if "m < USIZE" for m
    using e [of n] that by (cases "m = n") (simp_all add: yields_stop)
  then show "yields (decode_array n d) (\<lambda>vs. n = length vs \<and> seq_ok 0 P vs)"
    unfolding decode_array_def read_seq_def by (rule yields_len)
qed

lemma yields_option: "yields d P \<Longrightarrow> yields (decode_option d) (pred_option P)"
  unfolding decode_option_def read_option_def read_enum_def read_enum_variant_def
  by (rule yields_len) (auto intro: yields_bind_ret yields_ret yields_stop)

lemma yields_pointers:
  "yields d P \<Longrightarrow> yields (decode_box d) (\<lambda>b. case b of Boxed x \<Rightarrow> P x)"
  "yields d P \<Longrightarrow> yields (decode_rc d) (\<lambda>b. case b of Rc x \<Rightarrow> P x)"
  "yields d P \<Longrightarrow> yields (decode_arc d) (\<lambda>b. case b of Arc x \<Rightarrow> P x)"
  "yields d P \<Longrightarrow> yields (decode_refcell d) (\<lambda>b. case b of RefCell borrowed x \<Rightarrow> \<not> borrowed \<and> P x)"
  by (auto simp: decode_box_def decode_rc_def decode_arc_def decode_refcell_def intro!: yields_bind_ret)

section \<open>Tuples and derived types\<close>

text \<open>A list of decoders yields the lists whose elements their decoders yield.\<close>

lemma yields_cons:
  assumes "yields d P" "yields ds (\<lambda>xs. list_all2 (\<lambda>x P. P x) xs Ps)"
  shows "yields (try_bind d (\<lambda>x. try_bind ds (\<lambda>xs. ok_ret (x # xs)))) (\<lambda>xs. list_all2 (\<lambda>x P. P x) xs (P # Ps))"
  by (rule yields_bind [OF assms(1)]) (auto intro!: yields_bind [OF assms(2)] yields_ret)

lemma yields_tuple:
  "list_all2 yields ds Ps \<Longrightarrow> yields (decode_tuple ds) (\<lambda>xs. list_all2 (\<lambda>x P. P x) xs Ps)"
proof -
  have "list_all2 yields ds Ps \<Longrightarrow> yields (decode_tuple_args i ds) (\<lambda>xs. list_all2 (\<lambda>x P. P x) xs Ps)" for i
    by (induction arbitrary: i rule: list_all2_induct) (auto simp: read_tuple_arg_def intro: yields_ret yields_cons)
  then show "list_all2 yields ds Ps \<Longrightarrow> ?thesis" by (simp add: decode_tuple_def read_tuple_def)
qed

lemma yields_visitor:
  "deserialize_tuple_struct_visitor is_struct i fs = Some r \<Longrightarrow> list_all2 yields (map snd fs) Ps \<Longrightarrow>
   yields r (\<lambda>xs. list_all2 (\<lambda>x P. P x) xs Ps)"
proof (induction is_struct i fs arbitrary: r Ps rule: deserialize_tuple_struct_visitor.induct)
  case (2 is_struct i ident d fs)
  then show ?case by (auto simp: read_struct_field_def list_all2_Cons1 intro!: yields_cons split: option.splits)
qed (auto intro: yields_ret)

lemma yields_args:
  "list_all2 yields (map snd fs) Ps \<Longrightarrow> yields (deserialize_variant_args i fs) (\<lambda>xs. list_all2 (\<lambda>x P. P x) xs Ps)"
  by (induction i fs arbitrary: Ps rule: deserialize_variant_args.induct)
    (auto simp: read_enum_variant_arg_def list_all2_Cons1 intro!: yields_cons yields_ret)

text \<open>The fields of a declaration, one predicate per field.\<close>

lemma yields_items:
  "(\<And>u. u \<in> set us \<Longrightarrow> yields (D u) (R u)) \<Longrightarrow> list_all2 yields (map D us) (map R us)"
  by (simp add: list_all2_map1 list_all2_map2 list.rel_refl_strong)

lemma data_relI:
  "list_all2 (\<lambda>x P. P x) xs (map (R \<circ> snd) fs) \<Longrightarrow>
   rel_variant_data R (DStruct fs) (DStruct (zip (map (the \<circ> fst) (map (\<lambda>f. (Some (fst f), D (snd f))) fs)) xs))"
  "list_all2 (\<lambda>x P. P x) xs (map R us) \<Longrightarrow> rel_variant_data R (DTuple us) (DTuple xs)"
proof -
  show "list_all2 (\<lambda>x P. P x) xs (map R us) \<Longrightarrow> rel_variant_data R (DTuple us) (DTuple xs)"
    by (auto simp: list_all2_conv_all_nth)
  assume "list_all2 (\<lambda>x P. P x) xs (map (R \<circ> snd) fs)"
  then show "rel_variant_data R (DStruct fs) (DStruct (zip (map (the \<circ> fst) (map (\<lambda>f. (Some (fst f), D (snd f))) fs)) xs))"
    by (auto simp: list_all2_conv_all_nth rel_prod_sel)
qed

lemma yields_struct:
  assumes r: "deserialize_struct_body name (struct_from_ast (map_variant_data D td)) = Some r"
    and D: "\<And>u. u \<in> set (data_items td) \<Longrightarrow> yields (D u) (R u)"
  shows "yields r (rel_variant_data R td)"
proof (cases td)
  case (DStruct fs)
  let ?flds = "map (\<lambda>f. (Some (fst f), D (snd f))) fs"
  have i: "list_all2 yields (map snd ?flds) (map (R \<circ> snd) fs)"
    using yields_items [of "map snd fs" D R] D DStruct by (simp add: comp_def split_beta)
  have "deserialize_struct name ?flds = Some r"
    using r DStruct by (simp add: comp_def split_beta split: if_splits)
  then obtain q where q: "deserialize_tuple_struct_visitor True 0 ?flds = Some q"
    "r = try_bind q (\<lambda>xs. ok_ret (DStruct (zip (map (the \<circ> fst) ?flds) xs)))"
    by (auto simp: deserialize_struct_def read_struct_def)
  show ?thesis unfolding DStruct q(2) by (rule yields_bind_ret [OF yields_visitor [OF q(1) i]], rule data_relI(1))
next
  case (DTuple us)
  have i: "list_all2 yields (map snd (map (Pair None) (map D us))) (map R us)"
    using yields_items [of us D R] D DTuple by (simp add: comp_def)
  show ?thesis
  proof (cases "length us = 1")
    case True
    then obtain u where "us = [u]" by (auto simp: length_Suc_conv)
    then show ?thesis using r D [of u] DTuple
      by (auto simp: read_struct_def read_struct_field_def list_ex_iff intro!: yields_bind_ret)
  next
    case False
    then obtain q where q: "deserialize_tuple_struct_visitor False 0 (map (Pair None) (map D us)) = Some q"
      "r = try_bind q (\<lambda>xs. ok_ret (DTuple xs))"
      using r DTuple by (auto simp: deserialize_tuple_struct_def read_struct_def comp_def split: if_splits)
    show ?thesis unfolding DTuple q(2) by (rule yields_bind_ret [OF yields_visitor [OF q(1) i]], rule data_relI(2))
  qed
next
  case DUnit
  then show ?thesis using r by (auto simp: deserialize_unit_struct_def read_struct_def intro!: yields_ret)
qed

lemma yields_variant:
  assumes r: "deserialize_variant (ident, struct_from_ast (map_variant_data D td)) = Some r"
    and D: "\<And>u. u \<in> set (data_items td) \<Longrightarrow> yields (D u) (R u)"
  shows "yields r (rel_variant_data R td)"
proof (cases td)
  case (DStruct fs)
  let ?flds = "map (\<lambda>f. (Some (fst f), D (snd f))) fs"
  have i: "list_all2 yields (map snd ?flds) (map (R \<circ> snd) fs)"
    using yields_items [of "map snd fs" D R] D DStruct by (simp add: comp_def split_beta)
  have q: "r = try_bind (deserialize_variant_args 0 ?flds) (\<lambda>xs. ok_ret (DStruct (zip (map (the \<circ> fst) ?flds) xs)))"
    using r DStruct by (simp add: comp_def split_beta split: if_splits)
  show ?thesis unfolding DStruct q by (rule yields_bind_ret [OF yields_args [OF i]], rule data_relI(1))
next
  case (DTuple us)
  have i: "list_all2 yields (map snd (map (Pair None) (map D us))) (map R us)"
    using yields_items [of us D R] D DTuple by (simp add: comp_def)
  show ?thesis
  proof (cases "length us = 1")
    case True
    then obtain u where "us = [u]" by (auto simp: length_Suc_conv)
    then show ?thesis using r D [of u] DTuple by (auto simp: read_enum_variant_arg_def intro!: yields_bind_ret)
  next
    case False
    then have q: "r = try_bind (deserialize_variant_args 0 (map (Pair None) (map D us))) (\<lambda>xs. ok_ret (DTuple xs))"
      using r DTuple by (simp add: comp_def)
    show ?thesis unfolding DTuple q by (rule yields_bind_ret [OF yields_args [OF i]], rule data_relI(2))
  qed
next
  case DUnit
  then show ?thesis using r by (auto intro!: yields_ret)
qed

lemma those_map_Some: "those ms = Some xs \<Longrightarrow> ms = map Some xs"
  by (induction ms arbitrary: xs) (auto split: option.splits)

lemma yields_enum:
  assumes r: "deserialize_enum name (enum_from_ast (map (map_prod id (map_variant_data D)) vs)) = Some r"
    and D: "\<And>i u. i < length vs \<Longrightarrow> u \<in> set (data_items (snd (vs ! i))) \<Longrightarrow> yields (D u) (R u)"
  shows "yields r (\<lambda>(i, d). i < length vs \<and> rel_variant_data R (snd (vs ! i)) d)"
proof -
  let ?vs = "enum_from_ast (map (map_prod id (map_variant_data D)) vs)"
  from r obtain arms where a: "those (map deserialize_variant ?vs) = Some arms"
    "r = try_bind read_usize (\<lambda>disr. if unat disr < length arms
           then try_bind (arms ! unat disr) (\<lambda>x. ok_ret (unat disr, x)) else (\<lambda>_. None))"
    by (auto simp: deserialize_enum_def read_enum_def read_enum_variant_def split: if_splits)
  have l: "map Some arms = map deserialize_variant ?vs" using those_map_Some [OF a(1)] by (rule sym)
  then have len: "length arms = length vs" by (metis length_map enum_from_ast_def)
  have "yields (arms ! i) (rel_variant_data R (snd (vs ! i)))" if "i < length vs" for i
  proof (rule yields_variant)
    have "Some (arms ! i) = map Some arms ! i" using that len by simp
    also have "\<dots> = deserialize_variant (?vs ! i)" using that by (simp add: l enum_from_ast_def)
    also have "?vs ! i = (fst (vs ! i), struct_from_ast (map_variant_data D (snd (vs ! i))))"
      using that by (simp add: enum_from_ast_def split_beta)
    finally show "deserialize_variant (fst (vs ! i), struct_from_ast (map_variant_data D (snd (vs ! i)))) = Some (arms ! i)" ..
  qed (rule D [OF that])
  then have "yields (if i < length arms then try_bind (arms ! i) (\<lambda>x. ok_ret (i, x)) else (\<lambda>_. None))
      (\<lambda>(i, d). i < length vs \<and> rel_variant_data R (snd (vs ! i)) d)" for i
    using len by (auto simp: yields_stop intro!: yields_bind_ret)
  then show ?thesis unfolding a(2) by (rule yields_len)
qed

section \<open>All serialisable types\<close>

text \<open>
  The types whose values all survive: the derived implementations expand, an enum has fewer variants than
  the macro admits, and there is no \<open>i128\<close>, some values of which do not come back.
\<close>

primrec declarable :: "sty \<Rightarrow> bool" where
  "declarable (TUint t) = True"
| "declarable (TInt t) \<longleftrightarrow> t \<noteq> TI128"
| "declarable (TScalar t) = True"
| "declarable (TOption t) = declarable t"
| "declarable (TVec sz t) = declarable t"
| "declarable (TArray n t) = declarable t"
| "declarable (TLinkedList t) = declarable t"
| "declarable (TVecDeque t) = declarable t"
| "declarable (TTuple ts) = list_all id (map declarable ts)"
| "declarable (TBox t) = declarable t"
| "declarable (TRc t) = declarable t"
| "declarable (TArc t) = declarable t"
| "declarable (TRefCell t) = declarable t"
| "declarable (TStruct name d) \<longleftrightarrow> derivable d \<and> list_all id (data_items (map_variant_data declarable d))"
| "declarable (TEnum name vs) \<longleftrightarrow> length vs < 2 ^ 32 \<and> list_all (\<lambda>(_, d). derivable d) vs
     \<and> list_all (\<lambda>(_, d). list_all id (data_items d)) (map (map_prod id (map_variant_data declarable)) vs)"

lemma yields_expanded: "(\<And>r. m = Some r \<Longrightarrow> yields r P) \<Longrightarrow> yields (expanded m) P"
  by (cases m) (simp_all add: expanded_def yields_stop)

lemma has_type_data [simp]:
  "rel_variant_data (\<lambda>p u. p u) (map_variant_data has_type d) td \<longleftrightarrow> rel_variant_data (\<lambda>u v. has_type v u) td d"
  using variant_data.rel_flip [of "\<lambda>u v. has_type v u" d td] by (simp add: variant_data.rel_map conversep.simps [abs_def])

lemma derivable_form: "rel_variant_data R td d \<Longrightarrow> derivable td \<Longrightarrow> derivable d"
  by (cases td; cases d) auto

lemma declarable_enum:
  "declarable (TEnum name vs) \<Longrightarrow> i < length vs \<Longrightarrow>
   length vs < 2 ^ 32 \<and> derivable (snd (vs ! i)) \<and> (\<forall>u \<in> set (data_items (snd (vs ! i))). declarable u)"
  by (simp add: list_all_length split_beta) (simp add: all_set_conv_all_nth)

lemma yields_val: "declarable t \<Longrightarrow> yields (decode_val t) (\<lambda>v. has_type v t)"
proof (induction t)
  case (TUint t)
  then show ?case by (auto intro!: yields_map [OF yields_uint])
next
  case (TInt t)
  then show ?case by (auto intro!: yields_map [OF yields_iint])
next
  case (TScalar t)
  then show ?case by (auto intro!: yields_map [OF yields_scalar])
next
  case (TTuple ts)
  then have y: "list_all2 yields (map decode_val ts) (map (\<lambda>t v. has_type v t) ts)"
    by (intro yields_items) (auto simp: list_all_iff)
  show ?case unfolding decode_val.simps
    by (rule yields_map [OF yields_tuple [OF y]]) (simp add: list_all2_map1 list_all2_map2)
next
  case (TStruct name d)
  then have "yields (decode_val u) (\<lambda>v. has_type v u)" if "u \<in> set (data_items d)" for u
    using that by (auto simp: list_all_iff set_data_items)
  then have y: "yields (expanded (deserialize_struct_body name (struct_from_ast (map_variant_data decode_val d))))
      (rel_variant_data (\<lambda>u v. has_type v u) d)"
    by (intro yields_expanded yields_struct)
  show ?case unfolding decode_val.simps
    by (rule yields_map [OF y]) (use TStruct.prems in \<open>auto intro: derivable_form\<close>)
next
  case (TEnum name vs)
  have D: "yields (decode_val u) (\<lambda>v. has_type v u)" if i: "i < length vs" and u: "u \<in> set (data_items (snd (vs ! i)))" for i u
  proof (rule TEnum.IH [OF nth_mem [OF i]])
    show "snd (vs ! i) \<in> Basic_BNFs.snds (vs ! i)" by (cases "vs ! i") simp
    show "u \<in> set_variant_data (snd (vs ! i))" using u by (simp add: set_data_items)
    show "declarable u" using declarable_enum [OF TEnum.prems i] u by simp
  qed
  have y: "yields (expanded (deserialize_enum name (enum_from_ast (map (map_prod id (map_variant_data decode_val)) vs))))
      (\<lambda>(i, d). i < length vs \<and> rel_variant_data (\<lambda>u v. has_type v u) (snd (vs ! i)) d)"
    by (intro yields_expanded yields_enum) (auto intro: D)
  show ?case unfolding decode_val.simps
  proof (rule yields_map [OF y])
    fix x assume "(\<lambda>(i, d). i < length vs \<and> rel_variant_data (\<lambda>u v. has_type v u) (snd (vs ! i)) d) x"
    then obtain i d where x: "x = (i, d)" "i < length vs" "rel_variant_data (\<lambda>u v. has_type v u) (snd (vs ! i)) d" by auto
    note t = declarable_enum [OF TEnum.prems x(2)]
    then have "derivable d" using derivable_form [OF x(3)] by blast
    then show "has_type (case x of (idx, d) \<Rightarrow> VEnum name (fst (vs ! idx)) idx d) (TEnum name vs)"
      using x t by simp
  qed
qed (auto simp: list_all_iff pred_option_def seq_ok_def split: boxed.splits rc.splits arc.splits refcell.splits
   intro!: yields_map [OF yields_option] yields_map [OF yields_vec] yields_map [OF yields_lists(1)]
     yields_map [OF yields_lists(2)] yields_map [OF yields_lists(3)] yields_map [OF yields_pointers(1)]
     yields_map [OF yields_pointers(2)] yields_map [OF yields_pointers(3)] yields_map [OF yields_pointers(4)])

section \<open>Properties\<close>



end
