(* ===== verification/Io_Buf_Writer.thy ===== *)
theory Io_Buf_Writer
  imports Io_Cursor
begin

text \<open>
  \<open>sgx_tstd\<close>, io/buffered: \<open>BufWriter\<close>, \<open>LineWriterShim\<close> and \<open>LineWriter\<close>.  The inner writer is an argument:
  its \<open>write\<close>, and where the code calls them its \<open>write_all\<close>, \<open>write_vectored\<close>, \<open>flush\<close> and \<open>seek\<close>.
  \<open>None\<close> is a call that does not come back, or a copy past the end of the buffer.
\<close>

section \<open>BufWriter\<close>

text \<open>\<open>bw_cap\<close> is the capacity of the vector \<open>buf\<close>.\<close>

record 'w buf_writer =
  bw_inner :: 'w
  bw_buf :: bytes
  bw_cap :: nat
  panicked :: bool

definition BufWriter_with_capacity :: "nat \<Rightarrow> 'w \<Rightarrow> 'w buf_writer" where
  "BufWriter_with_capacity capacity w = \<lparr>bw_inner = w, bw_buf = [], bw_cap = capacity, panicked = False\<rparr>"

text \<open>
  The loop of \<open>flush_buf\<close>; \<open>written\<close> is the counter of the \<open>BufGuard\<close>.  Dropping the guard removes the
  first \<open>written\<close> bytes on every exit, and \<open>drain\<close> panics when there are fewer.
\<close>

partial_function (option) flush_loop ::
  "'w write_op \<Rightarrow> bytes \<Rightarrow> nat \<Rightarrow> 'w \<Rightarrow> ((io_error + unit) \<times> nat \<times> 'w) option" where
  "flush_loop wr buffer written w =
     (if written \<ge> length buffer then Some (Inr (), written, w)
      else case wr (drop written buffer) w of
             (Inr n, w') \<Rightarrow>
               if n = 0 then Some (Inl (const_io_error WriteZero ''failed to write the buffered data''), written, w')
               else flush_loop wr buffer (written + n) w'
           | (Inl e, w') \<Rightarrow>
               if interrupted e then flush_loop wr buffer written w' else Some (Inl e, written, w'))"

definition flush_buf :: "'w write_op \<Rightarrow> 'w buf_writer \<Rightarrow> ((io_error + unit) \<times> 'w buf_writer) option" where
  "flush_buf wr b =
     (case flush_loop wr (bw_buf b) 0 (bw_inner b) of
        None \<Rightarrow> None
      | Some (r, written, w') \<Rightarrow>
          if written > length (bw_buf b) then None
          else Some (r, b\<lparr>bw_inner := w', bw_buf := drop written (bw_buf b), panicked := False\<rparr>))"

definition spare_capacity :: "'w buf_writer \<Rightarrow> nat" where
  "spare_capacity b = bw_cap b - length (bw_buf b)"

text \<open>The copy behind the end of the vector, which must stay inside its capacity.\<close>

definition write_to_buffer_unchecked :: "bytes \<Rightarrow> 'w buf_writer \<Rightarrow> 'w buf_writer option" where
  "write_to_buffer_unchecked buf b =
     (if length (bw_buf b) + length buf \<le> bw_cap b then Some (b\<lparr>bw_buf := bw_buf b @ buf\<rparr>) else None)"

definition write_to_buf :: "bytes \<Rightarrow> 'w buf_writer \<Rightarrow> (nat \<times> 'w buf_writer) option" where
  "write_to_buf buf b =
     (let amt_to_buffer = min (spare_capacity b) (length buf)
      in case write_to_buffer_unchecked (take amt_to_buffer buf) b of
           None \<Rightarrow> None
         | Some b' \<Rightarrow> Some (amt_to_buffer, b'))"

text \<open>\<open>self.flush_buf()?\<close> when a condition holds, before the rest \<open>k\<close> of a method.\<close>

definition flush_first ::
  "'w write_op \<Rightarrow> bool \<Rightarrow> ('w buf_writer \<Rightarrow> ((io_error + 'r) \<times> 'w buf_writer) option) \<Rightarrow> 'w buf_writer
   \<Rightarrow> ((io_error + 'r) \<times> 'w buf_writer) option" where
  "flush_first wr cond k b =
     (if cond then
        (case flush_buf wr b of
           None \<Rightarrow> None
         | Some (Inl e, b') \<Rightarrow> Some (Inl e, b')
         | Some (Inr _, b') \<Rightarrow> k b')
      else k b)"

definition write_cold :: "'w write_op \<Rightarrow> bytes \<Rightarrow> 'w buf_writer \<Rightarrow> ((io_error + nat) \<times> 'w buf_writer) option" where
  "write_cold wr buf b =
     flush_first wr (length buf > spare_capacity b)
       (\<lambda>b. if length buf \<ge> bw_cap b then
              (case wr buf (bw_inner b) of (r, w') \<Rightarrow> Some (r, b\<lparr>bw_inner := w', panicked := False\<rparr>))
            else map_option (\<lambda>b'. (Inr (length buf), b')) (write_to_buffer_unchecked buf b)) b"

definition write_all_cold ::
  "'w write_op \<Rightarrow> (bytes \<Rightarrow> 'w \<Rightarrow> ((io_error + unit) \<times> 'w) option) \<Rightarrow> bytes \<Rightarrow> 'w buf_writer
   \<Rightarrow> ((io_error + unit) \<times> 'w buf_writer) option" where
  "write_all_cold wr wa buf b =
     flush_first wr (length buf > spare_capacity b)
       (\<lambda>b. if length buf \<ge> bw_cap b then
              (case wa buf (bw_inner b) of
                 None \<Rightarrow> None
               | Some (r, w') \<Rightarrow> Some (r, b\<lparr>bw_inner := w', panicked := False\<rparr>))
            else map_option (\<lambda>b'. (Inr (), b')) (write_to_buffer_unchecked buf b)) b"

definition BufWriter_write :: "'w write_op \<Rightarrow> bytes \<Rightarrow> 'w buf_writer \<Rightarrow> ((io_error + nat) \<times> 'w buf_writer) option" where
  "BufWriter_write wr buf b =
     (if length buf < spare_capacity b then
        map_option (\<lambda>b'. (Inr (length buf), b')) (write_to_buffer_unchecked buf b)
      else write_cold wr buf b)"

definition BufWriter_write_all ::
  "'w write_op \<Rightarrow> (bytes \<Rightarrow> 'w \<Rightarrow> ((io_error + unit) \<times> 'w) option) \<Rightarrow> bytes \<Rightarrow> 'w buf_writer
   \<Rightarrow> ((io_error + unit) \<times> 'w buf_writer) option" where
  "BufWriter_write_all wr wa buf b =
     (if length buf < spare_capacity b then
        map_option (\<lambda>b'. (Inr (), b')) (write_to_buffer_unchecked buf b)
      else write_all_cold wr wa buf b)"

definition BufWriter_flush ::
  "'w write_op \<Rightarrow> ('w \<Rightarrow> (io_error + unit) \<times> 'w) \<Rightarrow> 'w buf_writer \<Rightarrow> ((io_error + unit) \<times> 'w buf_writer) option" where
  "BufWriter_flush wr fl b =
     flush_first wr True (\<lambda>b. case fl (bw_inner b) of (r, w') \<Rightarrow> Some (r, b\<lparr>bw_inner := w'\<rparr>)) b"

definition BufWriter_seek ::
  "'w write_op \<Rightarrow> 'w seek_op \<Rightarrow> SeekFrom \<Rightarrow> 'w buf_writer \<Rightarrow> ((io_error + nat) \<times> 'w buf_writer) option" where
  "BufWriter_seek wr seek p b =
     flush_first wr True (\<lambda>b. case seek p (bw_inner b) of (r, w') \<Rightarrow> Some (r, b\<lparr>bw_inner := w'\<rparr>)) b"

text \<open>\<open>into_inner\<close> gives the inner writer back, or the error with the writer as it is.\<close>

definition BufWriter_into_inner :: "'w write_op \<Rightarrow> 'w buf_writer \<Rightarrow> ((io_error \<times> 'w buf_writer) + 'w) option" where
  "BufWriter_into_inner wr b =
     (case flush_buf wr b of
        None \<Rightarrow> None
      | Some (Inl e, b') \<Rightarrow> Some (Inl (e, b'))
      | Some (Inr _, b') \<Rightarrow> Some (Inr (bw_inner b')))"

definition BufWriter_into_parts :: "'w buf_writer \<Rightarrow> 'w \<times> (bytes + bytes)" where
  "BufWriter_into_parts b = (bw_inner b, if \<not> panicked b then Inr (bw_buf b) else Inl (bw_buf b))"

definition BufWriter_drop :: "'w write_op \<Rightarrow> 'w buf_writer \<Rightarrow> 'w option" where
  "BufWriter_drop wr b =
     (if \<not> panicked b then map_option (\<lambda>(_, b'). bw_inner b') (flush_buf wr b) else Some (bw_inner b))"

subsection \<open>Vectored writes\<close>

definition saturated_total_len :: "bytes list \<Rightarrow> nat" where
  "saturated_total_len bufs = foldl (\<lambda>acc b. min (acc + length b) (USIZE - 1)) 0 bufs"

fun write_each_unchecked :: "bytes list \<Rightarrow> 'w buf_writer \<Rightarrow> 'w buf_writer option" where
  "write_each_unchecked [] b = Some b"
| "write_each_unchecked (buf # bufs) b =
     (case write_to_buffer_unchecked buf b of None \<Rightarrow> None | Some b' \<Rightarrow> write_each_unchecked bufs b')"

fun write_while_fits :: "bytes list \<Rightarrow> nat \<Rightarrow> 'w buf_writer \<Rightarrow> (nat \<times> 'w buf_writer) option" where
  "write_while_fits [] total_written b = Some (total_written, b)"
| "write_while_fits (buf # bufs) total_written b =
     (if length buf \<le> spare_capacity b then
        (case write_to_buffer_unchecked buf b of
           None \<Rightarrow> None
         | Some b' \<Rightarrow> write_while_fits bufs (total_written + length buf) b')
      else Some (total_written, b))"

definition BufWriter_write_vectored ::
  "bool \<Rightarrow> 'w write_op \<Rightarrow> 'w write_vectored_op \<Rightarrow> bytes list \<Rightarrow> 'w buf_writer
   \<Rightarrow> ((io_error + nat) \<times> 'w buf_writer) option" where
  "BufWriter_write_vectored is_write_vectored wr wv bufs b =
     (if is_write_vectored then
        let total = saturated_total_len bufs
        in flush_first wr (total > spare_capacity b)
             (\<lambda>b. if total \<ge> bw_cap b then
                    (case wv bufs (bw_inner b) of (r, w') \<Rightarrow> Some (r, b\<lparr>bw_inner := w', panicked := False\<rparr>))
                  else map_option (\<lambda>b'. (Inr total, b')) (write_each_unchecked bufs b)) b
      else
        (case dropWhile (\<lambda>buf. buf = []) bufs of
           [] \<Rightarrow> Some (Inr 0, b)
         | buf # rest \<Rightarrow>
             flush_first wr (length buf > spare_capacity b)
               (\<lambda>b. if length buf \<ge> bw_cap b then
                      (case wr buf (bw_inner b) of (r, w') \<Rightarrow> Some (r, b\<lparr>bw_inner := w', panicked := False\<rparr>))
                    else
                      (case write_to_buffer_unchecked buf b of
                         None \<Rightarrow> None
                       | Some b' \<Rightarrow> map_option (\<lambda>(n, b''). (Inr n, b'')) (write_while_fits rest (length buf) b'))) b))"

section \<open>LineWriter\<close>

text \<open>
  A newline is byte 10.  A \<open>LineWriter\<close> is a \<open>BufWriter\<close> used through the shim.
  \<open>self.flush_if_completed_line()?\<close> is \<open>flush_first\<close> with \<open>completed_line\<close> as its condition.
\<close>

definition completed_line :: "'w buf_writer \<Rightarrow> bool" where
  "completed_line b \<longleftrightarrow> bw_buf b \<noteq> [] \<and> last (bw_buf b) = 10"

text \<open>The part of the input to buffer after \<open>flushed\<close> bytes of the lines went to the inner writer.\<close>

definition line_tail :: "nat \<Rightarrow> nat \<Rightarrow> nat \<Rightarrow> bytes \<Rightarrow> bytes" where
  "line_tail capacity newline_idx flushed buf =
     (if flushed \<ge> newline_idx then drop flushed buf
      else if newline_idx - flushed \<le> capacity then take (newline_idx - flushed) (drop flushed buf)
      else
        let scan_area = take capacity (drop flushed buf)
        in case memrchr 10 scan_area of Some i \<Rightarrow> take (i + 1) scan_area | None \<Rightarrow> scan_area)"

definition LineWriter_write :: "'w write_op \<Rightarrow> bytes \<Rightarrow> 'w buf_writer \<Rightarrow> ((io_error + nat) \<times> 'w buf_writer) option" where
  "LineWriter_write wr buf b =
     (case memrchr 10 buf of
        None \<Rightarrow> flush_first wr (completed_line b) (BufWriter_write wr buf) b
      | Some i \<Rightarrow>
          flush_first wr True
            (\<lambda>b. case wr (take (i + 1) buf) (bw_inner b) of
                   (Inl e, w') \<Rightarrow> Some (Inl e, b\<lparr>bw_inner := w'\<rparr>)
                 | (Inr flushed, w') \<Rightarrow>
                     let b' = b\<lparr>bw_inner := w'\<rparr>
                     in if flushed = 0 then Some (Inr 0, b')
                        else if length buf < flushed then None
                        else map_option (\<lambda>(buffered, b''). (Inr (flushed + buffered), b''))
                               (write_to_buf (line_tail (bw_cap b) (i + 1) flushed buf) b')) b)"

definition LineWriter_write_all ::
  "'w write_op \<Rightarrow> (bytes \<Rightarrow> 'w \<Rightarrow> ((io_error + unit) \<times> 'w) option) \<Rightarrow> bytes \<Rightarrow> 'w buf_writer
   \<Rightarrow> ((io_error + unit) \<times> 'w buf_writer) option" where
  "LineWriter_write_all wr wa buf b =
     (case memrchr 10 buf of
        None \<Rightarrow> flush_first wr (completed_line b) (BufWriter_write_all wr wa buf) b
      | Some i \<Rightarrow>
          let lines = take (i + 1) buf; tail = drop (i + 1) buf
          in if bw_buf b = [] then
               (case wa lines (bw_inner b) of
                  None \<Rightarrow> None
                | Some (Inl e, w') \<Rightarrow> Some (Inl e, b\<lparr>bw_inner := w'\<rparr>)
                | Some (Inr _, w') \<Rightarrow> BufWriter_write_all wr wa tail (b\<lparr>bw_inner := w'\<rparr>))
             else
               (case BufWriter_write_all wr wa lines b of
                  None \<Rightarrow> None
                | Some (Inl e, b') \<Rightarrow> Some (Inl e, b')
                | Some (Inr _, b') \<Rightarrow> flush_first wr True (BufWriter_write_all wr wa tail) b'))"

section \<open>BufWriter keeps the contract of a writer\<close>

definition bw_inv :: "('w \<Rightarrow> bool) \<Rightarrow> 'w buf_writer \<Rightarrow> bool" where
  "bw_inv I b \<longleftrightarrow> I (bw_inner b) \<and> length (bw_buf b) \<le> bw_cap b \<and> \<not> panicked b"

text \<open>All the bytes it has taken: those the inner writer has, then those in the buffer.\<close>

definition bw_sunk :: "('w \<Rightarrow> bytes) \<Rightarrow> 'w buf_writer \<Rightarrow> bytes" where
  "bw_sunk sunk b = sunk (bw_inner b) @ bw_buf b"

definition bw_rank :: "('w \<Rightarrow> nat) \<Rightarrow> 'w buf_writer \<Rightarrow> nat" where
  "bw_rank rank b = rank (bw_inner b)"

text \<open>What a buffered writer reports is an error of the inner writer, or that it accepted no bytes.\<close>

definition inner_error :: "('w \<Rightarrow> bool) \<Rightarrow> 'w write_op \<Rightarrow> io_error \<Rightarrow> bool" where
  "inner_error I wr e \<longleftrightarrow> e = write_zero_error \<or> e = const_io_error WriteZero ''failed to write the buffered data'' \<or> (\<exists>buf s s'. I s \<and> wr buf s = (Inl e, s'))"

lemmas bw_defs = bw_inv_def bw_sunk_def bw_rank_def

lemma inner_error_zero [simp]:
  "inner_error I wr write_zero_error" "inner_error I wr (const_io_error WriteZero ''failed to write the buffered data'')"
  by (simp_all add: inner_error_def)

lemma inner_errorI: "wr buf s = (Inl e, s') \<Longrightarrow> I s \<Longrightarrow> inner_error I wr e"
  by (auto simp: inner_error_def)

context writer
begin

lemma write_all_inner:
  "inv s \<Longrightarrow> \<exists>r s' k. write_all wr buf s = Some (r, s') \<and> inv s' \<and> k \<le> length buf \<and> sunk s' = sunk s @ take k buf
     \<and> (r = Inr () \<and> k = length buf \<or> (\<exists>e. r = Inl e \<and> inner_error inv wr e))"
  using write_all_total [of s buf] unfolding own_error_def inner_error_def by blast

lemma flush_loop_total:
  "inv w \<Longrightarrow> k \<le> length buf \<Longrightarrow> \<exists>r n w'. flush_loop wr buf k w = Some (r, n, w') \<and> inv w' \<and> k \<le> n \<and> n \<le> length buf
     \<and> sunk w' = sunk w @ take (n - k) (drop k buf) \<and> rank w' \<le> rank w
     \<and> (r = Inr () \<and> n = length buf \<or> (\<exists>e. r = Inl e \<and> \<not> interrupted e \<and> inner_error inv wr e))"
proof (induction k w rule: progress_induct [where size = "\<lambda>k w. length buf - k" and rank = "\<lambda>k. rank"])
  case (step k w)
  obtain r w1 where w: "wr (drop k buf) w = (r, w1)" by fastforce
  consider "k = length buf" | (int) e where "k < length buf" "r = Inl e" "interrupted e"
    | (err) e where "k < length buf" "r = Inl e" "\<not> interrupted e" | (zero) "k < length buf" "r = Inr 0"
    | (ok) n where "k < length buf" "r = Inr n" "n \<noteq> 0"
    using step(3) by (cases r; cases "k = length buf") auto
  then show ?case
  proof cases
    case 1
    then show ?thesis using step(2) by (simp add: flush_loop.simps [of wr buf "length buf"])
  next
    case int
    then have "inv w1" "sunk w1 = sunk w" "rank w1 < rank w" using wr_err [OF step(2)] w by auto
    then show ?thesis using step(1) [of k w1] step(3) int w by (fastforce simp: flush_loop.simps [of wr buf k w])
  next
    case err
    then have "inv w1" "sunk w1 = sunk w" "rank w1 \<le> rank w" using wr_err [OF step(2)] w by auto
    then show ?thesis using err w inner_errorI [of wr _ w e w1 inv] step(2) by (auto simp: flush_loop.simps [of wr buf k w])
  next
    case zero
    then have "inv w1" "sunk w1 = sunk w" "rank w1 \<le> rank w" using wr_ok [OF step(2)] w by auto
    then show ?thesis using zero w by (simp add: flush_loop.simps [of wr buf k w])
  next
    case ok
    then have w1: "inv w1" "k + n \<le> length buf" "sunk w1 = sunk w @ take n (drop k buf)" "rank w1 \<le> rank w"
      using wr_ok [OF step(2)] w by fastforce+
    have "length buf - (k + n) < length buf - k" using ok by linarith
    from step(1) [OF disjI1 [OF this] w1(1,2)] obtain r' m w' where
      x: "flush_loop wr buf (k + n) w1 = Some (r', m, w')" "inv w'" "k + n \<le> m" "m \<le> length buf"
        "sunk w' = sunk w1 @ take (m - (k + n)) (drop (k + n) buf)" "rank w' \<le> rank w1"
        "r' = Inr () \<and> m = length buf \<or> (\<exists>e. r' = Inl e \<and> \<not> interrupted e \<and> inner_error inv wr e)" by blast
    have "take (m - k) (drop k buf) = take n (drop k buf) @ take (m - (k + n)) (drop (k + n) buf)"
      using x(3) take_add [of n "m - (k + n)" "drop k buf"] by (simp add: add.commute)
    then show ?thesis
      using ok w w1 x
      by (intro exI [of _ r'] exI [of _ m] exI [of _ w']) (simp add: flush_loop.simps [of wr buf k w])
  qed
qed

lemma flush_buf_total:
  assumes "bw_inv inv b"
  shows "\<exists>r b'. flush_buf wr b = Some (r, b') \<and> bw_inv inv b' \<and> bw_cap b' = bw_cap b
    \<and> bw_sunk sunk b' = bw_sunk sunk b \<and> bw_rank rank b' \<le> bw_rank rank b \<and> (\<exists>n. bw_buf b' = drop n (bw_buf b))
    \<and> (r = Inr () \<and> bw_buf b' = [] \<or> (\<exists>e. r = Inl e \<and> \<not> interrupted e \<and> inner_error inv wr e))"
proof -
  from flush_loop_total [of "bw_inner b" 0 "bw_buf b"] assms obtain r n w' where
    "flush_loop wr (bw_buf b) 0 (bw_inner b) = Some (r, n, w')" "inv w'" "n \<le> length (bw_buf b)"
    "sunk w' = sunk (bw_inner b) @ take n (bw_buf b)" "rank w' \<le> rank (bw_inner b)"
    "r = Inr () \<and> n = length (bw_buf b) \<or> (\<exists>e. r = Inl e \<and> \<not> interrupted e \<and> inner_error inv wr e)"
    by (auto simp: bw_defs)
  then show ?thesis using assms by (auto simp: flush_buf_def bw_defs)
qed

lemma flush_first_cases:
  assumes "bw_inv inv b"
  obtains (failed) e b' where "flush_first wr c k b = Some (Inl e, b')" "\<not> interrupted e \<and> inner_error inv wr e" "bw_inv inv b'"
      "bw_cap b' = bw_cap b" "bw_sunk sunk b' = bw_sunk sunk b" "bw_rank rank b' \<le> bw_rank rank b"
      "\<exists>n. bw_buf b' = drop n (bw_buf b)"
    | (continued) b1 where "flush_first wr c k b = k b1" "bw_inv inv b1" "bw_cap b1 = bw_cap b"
      "bw_sunk sunk b1 = bw_sunk sunk b" "bw_rank rank b1 \<le> bw_rank rank b" "if c then bw_buf b1 = [] else b1 = b"
proof (cases c)
  case True
  obtain r b' where f: "flush_buf wr b = Some (r, b')" "bw_inv inv b'" "bw_cap b' = bw_cap b"
    "bw_sunk sunk b' = bw_sunk sunk b" "bw_rank rank b' \<le> bw_rank rank b" "\<exists>n. bw_buf b' = drop n (bw_buf b)"
    "r = Inr () \<and> bw_buf b' = [] \<or> (\<exists>e. r = Inl e \<and> \<not> interrupted e \<and> inner_error inv wr e)"
    using flush_buf_total [OF assms] by blast
  then show thesis
    using True by (cases r) (auto simp: flush_first_def intro: failed continued)
next
  case False
  then show thesis using assms by (intro continued [of b]) (simp_all add: flush_first_def)
qed

lemma unchecked_fits:
  "bw_inv inv b \<Longrightarrow> length buf \<le> spare_capacity b \<Longrightarrow>
   write_to_buffer_unchecked buf b = Some (b\<lparr>bw_buf := bw_buf b @ buf\<rparr>) \<and> bw_inv inv (b\<lparr>bw_buf := bw_buf b @ buf\<rparr>)"
  by (auto simp: write_to_buffer_unchecked_def spare_capacity_def bw_defs)

text \<open>The slow path of a write: the flush fails, the bytes go to the inner writer directly, or they fit.\<close>

lemma cold_cases:
  fixes d :: "'s buf_writer \<Rightarrow> ((io_error + 'r) \<times> 's buf_writer) option" and ok :: "io_error + 'r" and buf :: bytes
  assumes i: "bw_inv inv b"
    and k_def: "k = (\<lambda>b. if length buf \<ge> bw_cap b then d b
      else map_option (\<lambda>b'. (ok, b')) (write_to_buffer_unchecked buf b))"
  obtains (failed) e b' where "flush_first wr (length buf > spare_capacity b) k b = Some (Inl e, b')" "\<not> interrupted e \<and> inner_error inv wr e"
      "bw_inv inv b'" "bw_cap b' = bw_cap b" "bw_sunk sunk b' = bw_sunk sunk b" "bw_rank rank b' \<le> bw_rank rank b"
      "\<exists>n. bw_buf b' = drop n (bw_buf b)"
    | (direct) b1 where "flush_first wr (length buf > spare_capacity b) k b = d b1" "bw_inv inv b1"
      "bw_cap b1 = bw_cap b" "bw_sunk sunk b1 = bw_sunk sunk b" "bw_rank rank b1 \<le> bw_rank rank b" "bw_buf b1 = []"
    | (kept) b1 where "flush_first wr (length buf > spare_capacity b) k b = Some (ok, b1)" "bw_inv inv b1"
      "bw_cap b1 = bw_cap b" "bw_sunk sunk b1 = bw_sunk sunk b @ buf" "bw_rank rank b1 \<le> bw_rank rank b"
      "bw_buf b1 = buf \<or> bw_buf b1 = bw_buf b @ buf"
proof (rule flush_first_cases [OF i, of "length buf > spare_capacity b" k])
  fix b1 assume b1: "flush_first wr (length buf > spare_capacity b) k b = k b1" "bw_inv inv b1" "bw_cap b1 = bw_cap b"
    "bw_sunk sunk b1 = bw_sunk sunk b" "bw_rank rank b1 \<le> bw_rank rank b"
    "if length buf > spare_capacity b then bw_buf b1 = [] else b1 = b"
  show thesis
  proof (cases "length buf \<ge> bw_cap b")
    case True
    have "length (bw_buf b) = 0" if "\<not> length buf > spare_capacity b"
      using that True i unfolding spare_capacity_def bw_inv_def by linarith
    then have e: "bw_buf b1 = []" using b1(6) by (auto split: if_splits)
    moreover have "k b1 = d b1" using True b1 by (simp add: k_def)
    ultimately show thesis using b1 direct by simp
  next
    case False
    have "length buf \<le> spare_capacity b1" using b1 False by (auto simp: spare_capacity_def split: if_splits)
    from unchecked_fits [OF b1(2) this] have "k b1 = Some (ok, b1\<lparr>bw_buf := bw_buf b1 @ buf\<rparr>)"
      "bw_inv inv (b1\<lparr>bw_buf := bw_buf b1 @ buf\<rparr>)"
      using False b1(3) by (simp_all add: k_def)
    then show thesis
      using b1 by (intro kept [of "b1\<lparr>bw_buf := bw_buf b1 @ buf\<rparr>"]) (auto simp: bw_sunk_def bw_rank_def split: if_splits)
  qed
qed (rule failed)

lemma bw_write_total:
  assumes i: "bw_inv inv b"
  shows "\<exists>r b'. BufWriter_write wr buf b = Some (r, b') \<and> bw_inv inv b' \<and> bw_cap b' = bw_cap b
    \<and> bw_rank rank b' \<le> bw_rank rank b
    \<and> ((\<exists>n. bw_buf b' = drop n (bw_buf b)) \<or> bw_buf b' = [] \<or> bw_buf b' = buf \<or> bw_buf b' = bw_buf b @ buf)
    \<and> ((\<exists>n. r = Inr n \<and> n \<le> length buf \<and> bw_sunk sunk b' = bw_sunk sunk b @ take n buf)
       \<or> (\<exists>e. r = Inl e \<and> inner_error inv wr e \<and> bw_sunk sunk b' = bw_sunk sunk b \<and> (interrupted e \<longrightarrow> bw_rank rank b' < bw_rank rank b)))"
proof (cases "length buf < spare_capacity b")
  case True
  then show ?thesis
    using unchecked_fits [OF i, of buf] by (simp add: BufWriter_write_def bw_sunk_def bw_rank_def)
next
  case False
  let ?d = "\<lambda>b. case wr buf (bw_inner b) of (r, w') \<Rightarrow> Some (r, b\<lparr>bw_inner := w', panicked := False\<rparr>)"
  have w: "BufWriter_write wr buf b = write_cold wr buf b" using False by (simp add: BufWriter_write_def)
  show ?thesis
  proof (cases rule: cold_cases [where d = ?d and ok = "Inr (length buf)" and buf = buf, OF i refl])
    case (2 b1)
    obtain r w' where r: "wr buf (bw_inner b1) = (r, w')" by fastforce
    moreover have "inv (bw_inner b1)" using 2 by (simp add: bw_defs)
    moreover have "inner_error inv wr e" if "r = Inl e" for e using inner_errorI [of wr buf] calculation that by blast
    ultimately show ?thesis
      unfolding w write_cold_def 2(1) using 2
      by (cases r) (auto simp: bw_defs dest!: wr_okD wr_errD)
  qed (auto simp: w write_cold_def)
qed

text \<open>The bytes of a \<open>write_all\<close> all arrive, or a prefix of them does and the error is reported.\<close>

lemma bw_write_all_total:
  assumes i: "bw_inv inv b"
  shows "\<exists>r b' k. BufWriter_write_all wr (write_all wr) buf b = Some (r, b') \<and> bw_inv inv b' \<and> bw_cap b' = bw_cap b
    \<and> k \<le> length buf \<and> bw_sunk sunk b' = bw_sunk sunk b @ take k buf
    \<and> (r = Inr () \<and> k = length buf \<and> (bw_buf b' = [] \<or> bw_buf b' = buf \<or> bw_buf b' = bw_buf b @ buf) \<or> (\<exists>e. r = Inl e \<and> inner_error inv wr e))"
proof (cases "length buf < spare_capacity b")
  case True
  then show ?thesis
    using unchecked_fits [OF i, of buf]
    by (intro exI [of _ "Inr ()"] exI [of _ "b\<lparr>bw_buf := bw_buf b @ buf\<rparr>"] exI [of _ "length buf"])
      (simp add: BufWriter_write_all_def bw_sunk_def)
next
  case False
  let ?d = "\<lambda>b. case write_all wr buf (bw_inner b) of None \<Rightarrow> None
    | Some (r, w') \<Rightarrow> Some (r, b\<lparr>bw_inner := w', panicked := False\<rparr>)"
  have w: "BufWriter_write_all wr (write_all wr) buf b = write_all_cold wr (write_all wr) buf b"
    using False by (simp add: BufWriter_write_all_def)
  show ?thesis
  proof (cases rule: cold_cases [where d = ?d and ok = "Inr ()" and buf = buf, OF i refl])
    case (2 b1)
    then have "inv (bw_inner b1)" by (simp add: bw_defs)
    from write_all_inner [OF this, of buf] obtain r w' k where
      "write_all wr buf (bw_inner b1) = Some (r, w')" "inv w'" "k \<le> length buf"
      "sunk w' = sunk (bw_inner b1) @ take k buf" "r = Inr () \<and> k = length buf \<or> (\<exists>e. r = Inl e \<and> inner_error inv wr e)"
      by blast
    then show ?thesis
      unfolding w write_all_cold_def 2(1) using 2
      by (intro exI [of _ r] exI [of _ "b1\<lparr>bw_inner := w', panicked := False\<rparr>"] exI [of _ k]) (auto simp: bw_defs)
  next
    case (1 e b')
    then show ?thesis unfolding w write_all_cold_def by (intro exI [of _ "Inl e"] exI [of _ b'] exI [of _ 0]) auto
  next
    case (3 b1)
    then show ?thesis
      unfolding w write_all_cold_def by (intro exI [of _ "Inr ()"] exI [of _ b1] exI [of _ "length buf"]) auto
  qed
qed

end

section \<open>LineWriter keeps complete lines out of the buffer\<close>

lemma memchr_Some: "memchr x bs = Some i \<Longrightarrow> bs ! i = x \<and> x \<notin> set (take i bs)"
proof -
  assume "memchr x bs = Some i"
  then have i: "i = length (takeWhile (\<lambda>b. b \<noteq> x) bs)" "i < length bs"
    by (auto simp: memchr_def Let_def split: if_splits)
  then have "take i bs = takeWhile (\<lambda>b. b \<noteq> x) bs" by (metis takeWhile_eq_take)
  then show ?thesis using i nth_length_takeWhile [of "\<lambda>b. b \<noteq> x" bs] set_takeWhileD [of x "\<lambda>b. b \<noteq> x" bs] by auto
qed

lemma memrchr_None_iff: "memrchr x bs = None \<longleftrightarrow> x \<notin> set bs"
  using memchr_None_iff [of x "rev bs"] by (auto simp: memrchr_def split: option.splits)

lemma memrchr_Some: "memrchr x bs = Some i \<Longrightarrow> i < length bs \<and> bs ! i = x \<and> x \<notin> set (drop (i + 1) bs)"
proof -
  assume "memrchr x bs = Some i"
  then obtain j where j: "memchr x (rev bs) = Some j" "i = length bs - 1 - j"
    by (auto simp: memrchr_def split: option.splits)
  then have "j < length bs" using memchr_Some_less [OF j(1)] by simp
  moreover have "take j (rev bs) = rev (drop (i + 1) bs)" using j(2) calculation by (simp add: take_rev Suc_diff_Suc)
  ultimately show ?thesis using memchr_Some [OF j(1)] j(2) by (auto simp: rev_nth)
qed

text \<open>A newline in the buffer is followed by the end of a line, so the next call flushes it.\<close>

definition line_inv :: "'w buf_writer \<Rightarrow> bool" where
  "line_inv b \<longleftrightarrow> (if 10 \<in> set (bw_buf b) then completed_line b else True)"

lemma line_tail_prefix: "\<exists>m. line_tail capacity newline_idx flushed buf = take m (drop flushed buf)"
  by (auto simp: line_tail_def Let_def intro: exI [of _ "length buf"] split: option.split)

text \<open>A newline in the part to buffer is its last byte, and then that part fits into the buffer.\<close>

lemma line_tail_newline:
  assumes "memrchr 10 buf = Some i" "flushed \<le> i + 1" "10 \<in> set (line_tail capacity (i + 1) flushed buf)"
  shows "length (line_tail capacity (i + 1) flushed buf) \<le> capacity"
    "line_tail capacity (i + 1) flushed buf \<noteq> []" "last (line_tail capacity (i + 1) flushed buf) = 10"
proof -
  note i = memrchr_Some [OF assms(1)]
  consider (none) "flushed = i + 1" | (fits) "flushed < i + 1" "i + 1 - flushed \<le> capacity"
    | (scan) "flushed < i + 1" "capacity < i + 1 - flushed" using assms(2) by linarith
  then have "length (line_tail capacity (i + 1) flushed buf) \<le> capacity
    \<and> line_tail capacity (i + 1) flushed buf \<noteq> [] \<and> last (line_tail capacity (i + 1) flushed buf) = 10"
  proof cases
    case none
    then show ?thesis using i assms(3) by (simp add: line_tail_def)
  next
    case fits
    then have t: "line_tail capacity (i + 1) flushed buf = take (i + 1 - flushed) (drop flushed buf)"
      by (simp add: line_tail_def)
    have "last (take (i + 1 - flushed) (drop flushed buf)) = 10"
      using i fits by (subst last_conv_nth) auto
    then show ?thesis unfolding t using fits i by auto
  next
    case scan
    let ?a = "take capacity (drop flushed buf)"
    have t: "line_tail capacity (i + 1) flushed buf = (case memrchr 10 ?a of Some j \<Rightarrow> take (j + 1) ?a | None \<Rightarrow> ?a)"
      using scan by (simp add: line_tail_def Let_def)
    obtain j where j: "memrchr 10 ?a = Some j"
      using assms(3) memrchr_None_iff [of 10 ?a] unfolding t by (cases "memrchr 10 ?a") auto
    note m = memrchr_Some [OF j]
    have "last (take (j + 1) ?a) = 10" using m by (subst last_conv_nth) auto
    then show ?thesis unfolding t j using m by auto
  qed
  then show "length (line_tail capacity (i + 1) flushed buf) \<le> capacity"
    "line_tail capacity (i + 1) flushed buf \<noteq> []" "last (line_tail capacity (i + 1) flushed buf) = 10" by auto
qed

lemma line_inv_drop: "line_inv b \<Longrightarrow> bw_buf b' = drop n (bw_buf b) \<Longrightarrow> line_inv b'"
  by (cases "n < length (bw_buf b)")
    (auto simp: line_inv_def completed_line_def last_drop split: if_splits dest: in_set_dropD)

context writer
begin

lemma lw_tail:
  assumes "bw_inv inv b2" "bw_buf b2 = []" "bw_cap b2 = bw_cap b" "bw_sunk sunk b2 = bw_sunk sunk b @ take n buf"
    "n \<le> length buf" "10 \<notin> set (drop n buf)"
  shows "\<exists>r b' k. BufWriter_write_all wr (write_all wr) (drop n buf) b2 = Some (r, b') \<and> bw_inv inv b' \<and> bw_cap b' = bw_cap b
    \<and> k \<le> length buf \<and> bw_sunk sunk b' = bw_sunk sunk b @ take k buf
    \<and> (r = Inr () \<and> k = length buf \<and> 10 \<notin> set (bw_buf b') \<or> (\<exists>e. r = Inl e \<and> inner_error inv wr e))"
proof -
  from bw_write_all_total [OF assms(1), of "drop n buf"] obtain r b' k where
    x: "BufWriter_write_all wr (write_all wr) (drop n buf) b2 = Some (r, b')" "bw_inv inv b'" "bw_cap b' = bw_cap b2"
      "k \<le> length (drop n buf)" "bw_sunk sunk b' = bw_sunk sunk b2 @ take k (drop n buf)"
      "r = Inr () \<and> k = length (drop n buf) \<and> (bw_buf b' = [] \<or> bw_buf b' = drop n buf \<or> bw_buf b' = bw_buf b2 @ drop n buf)
       \<or> (\<exists>e. r = Inl e \<and> inner_error inv wr e)" by blast
  then show ?thesis
    using assms by (intro exI [of _ r] exI [of _ b'] exI [of _ "n + k"]) (auto simp: take_add)
qed

lemma lw_write_all_total:
  assumes i: "bw_inv inv b" "line_inv b"
  shows "\<exists>r b' k. LineWriter_write_all wr (write_all wr) buf b = Some (r, b') \<and> bw_inv inv b' \<and> bw_cap b' = bw_cap b
    \<and> k \<le> length buf \<and> bw_sunk sunk b' = bw_sunk sunk b @ take k buf
    \<and> (r = Inr () \<and> k = length buf \<and> 10 \<notin> set (bw_buf b') \<or> (\<exists>e. r = Inl e \<and> inner_error inv wr e))"
proof (cases "memrchr 10 buf")
  case None
  then have n: "10 \<notin> set buf" by (simp add: memrchr_None_iff)
  show ?thesis
  proof (cases rule: flush_first_cases [OF i(1), of "completed_line b" "BufWriter_write_all wr (write_all wr) buf"])
    case (1 e b')
    then show ?thesis using None by (intro exI [of _ "Inl e"] exI [of _ b'] exI [of _ 0]) (simp add: LineWriter_write_all_def)
  next
    case (2 b1)
    then have "10 \<notin> set (bw_buf b1)" using i(2) by (auto simp: line_inv_def split: if_splits)
    then show ?thesis
      using bw_write_all_total [OF 2(2), of buf] 2 None n by (auto simp: LineWriter_write_all_def)
  qed
next
  case (Some j)
  note j = memrchr_Some [OF Some]
  let ?wa = "BufWriter_write_all wr (write_all wr)"
  show ?thesis
  proof (cases "bw_buf b = []")
    case True
    then have "inv (bw_inner b)" using i by (simp add: bw_defs)
    from write_all_inner [OF this, of "take (j + 1) buf"] obtain r w' k where
      x: "write_all wr (take (j + 1) buf) (bw_inner b) = Some (r, w')" "inv w'" "k \<le> length (take (j + 1) buf)"
        "sunk w' = sunk (bw_inner b) @ take k (take (j + 1) buf)"
        "r = Inr () \<and> k = length (take (j + 1) buf) \<or> (\<exists>e. r = Inl e \<and> inner_error inv wr e)" by blast
    have k: "take k (take (j + 1) buf) = take k buf" "k \<le> length buf" using x(3) by (simp_all add: min.absorb1)
    define b2 where "b2 = b\<lparr>bw_inner := w'\<rparr>"
    have b2: "bw_inv inv b2" "bw_cap b2 = bw_cap b" "bw_sunk sunk b2 = bw_sunk sunk b @ take k buf" "bw_buf b2 = []"
      using x k True i by (auto simp: b2_def bw_defs)
    show ?thesis
    proof (cases r)
      case (Inl e)
      then show ?thesis using Some True x(1,5) b2 k(2)
        by (intro exI [of _ r] exI [of _ b2] exI [of _ k]) (simp add: LineWriter_write_all_def Let_def b2_def)
    next
      case (Inr u)
      then have "k = j + 1" using x(5) j by auto
      then have "\<exists>r b' k. ?wa (drop (j + 1) buf) b2 = Some (r, b') \<and> bw_inv inv b' \<and> bw_cap b' = bw_cap b
          \<and> k \<le> length buf \<and> bw_sunk sunk b' = bw_sunk sunk b @ take k buf
          \<and> (r = Inr () \<and> k = length buf \<and> 10 \<notin> set (bw_buf b') \<or> (\<exists>e. r = Inl e \<and> inner_error inv wr e))"
        using b2 j by (intro lw_tail) auto
      then show ?thesis using Some True x(1) Inr by (simp add: LineWriter_write_all_def Let_def b2_def)
    qed
  next
    case False
    from bw_write_all_total [OF i(1), of "take (j + 1) buf"] obtain r b1 k where
      x: "?wa (take (j + 1) buf) b = Some (r, b1)" "bw_inv inv b1" "bw_cap b1 = bw_cap b" "k \<le> length (take (j + 1) buf)"
        "bw_sunk sunk b1 = bw_sunk sunk b @ take k (take (j + 1) buf)"
        "r = Inr () \<and> k = length (take (j + 1) buf) \<or> (\<exists>e. r = Inl e \<and> inner_error inv wr e)" by blast
    have k: "take k (take (j + 1) buf) = take k buf" "k \<le> length buf" using x(4) by (simp_all add: min.absorb1)
    show ?thesis
    proof (cases r)
      case (Inl e)
      then show ?thesis using Some False x k
        by (intro exI [of _ r] exI [of _ b1] exI [of _ k]) (simp add: LineWriter_write_all_def Let_def)
    next
      case (Inr u)
      then have kj: "k = j + 1" using x(6) j by auto
      have l: "LineWriter_write_all wr (write_all wr) buf b = flush_first wr True (?wa (drop (j + 1) buf)) b1"
        using Some False x(1) Inr by (simp add: LineWriter_write_all_def Let_def)
      show ?thesis
      proof (cases rule: flush_first_cases [OF x(2), of True "?wa (drop (j + 1) buf)"])
        case (1 e b')
        then show ?thesis unfolding l using x k by (intro exI [of _ "Inl e"] exI [of _ b'] exI [of _ k]) simp
      next
        case (2 b2)
        then show ?thesis unfolding l 2(1) using x k kj j by (intro lw_tail) auto
      qed
    qed
  qed
qed

lemma lw_write_total:
  assumes i: "bw_inv inv b" "line_inv b"
  shows "\<exists>r b'. LineWriter_write wr buf b = Some (r, b') \<and> bw_inv inv b' \<and> bw_cap b' = bw_cap b \<and> line_inv b'
    \<and> ((\<exists>n. r = Inr n \<and> n \<le> length buf \<and> bw_sunk sunk b' = bw_sunk sunk b @ take n buf)
       \<or> (\<exists>e. r = Inl e \<and> inner_error inv wr e \<and> bw_sunk sunk b' = bw_sunk sunk b))"
proof (cases "memrchr 10 buf")
  case None
  then have n: "10 \<notin> set buf" by (simp add: memrchr_None_iff)
  have w: "LineWriter_write wr buf b = flush_first wr (completed_line b) (BufWriter_write wr buf) b"
    using None by (simp add: LineWriter_write_def)
  show ?thesis
  proof (cases rule: flush_first_cases [OF i(1), of "completed_line b" "BufWriter_write wr buf"])
    case (1 e b')
    then show ?thesis using line_inv_drop [OF i(2)] unfolding w by auto
  next
    case (2 b1)
    then have "10 \<notin> set (bw_buf b1)" using i(2) by (auto simp: line_inv_def split: if_splits)
    moreover obtain r b' where x: "BufWriter_write wr buf b1 = Some (r, b')" "bw_inv inv b'" "bw_cap b' = bw_cap b1"
      "(\<exists>n. bw_buf b' = drop n (bw_buf b1)) \<or> bw_buf b' = [] \<or> bw_buf b' = buf \<or> bw_buf b' = bw_buf b1 @ buf"
      "(\<exists>n. r = Inr n \<and> n \<le> length buf \<and> bw_sunk sunk b' = bw_sunk sunk b1 @ take n buf)
       \<or> (\<exists>e. r = Inl e \<and> inner_error inv wr e \<and> bw_sunk sunk b' = bw_sunk sunk b1)"
      using bw_write_total [OF 2(2), of buf] by blast
    ultimately have "10 \<notin> set (bw_buf b')" using n by (auto dest: in_set_dropD)
    then show ?thesis unfolding w 2(1) using x 2 by (auto simp: line_inv_def)
  qed
next
  case (Some j)
  let ?k = "\<lambda>b. case wr (take (j + 1) buf) (bw_inner b) of
      (Inl e, w') \<Rightarrow> Some (Inl e, b\<lparr>bw_inner := w'\<rparr>)
    | (Inr flushed, w') \<Rightarrow>
        let b' = b\<lparr>bw_inner := w'\<rparr>
        in if flushed = 0 then Some (Inr 0, b') else if length buf < flushed then None
           else map_option (\<lambda>(buffered, b''). (Inr (flushed + buffered), b''))
                  (write_to_buf (line_tail (bw_cap b) (j + 1) flushed buf) b')"
  have w: "LineWriter_write wr buf b = flush_first wr True ?k b" using Some by (simp add: LineWriter_write_def)
  show ?thesis
  proof (cases rule: flush_first_cases [OF i(1), of True ?k])
    case (1 e b')
    then show ?thesis using line_inv_drop [OF i(2)] unfolding w by auto
  next
    case (2 b1)
    obtain r w' where r: "wr (take (j + 1) buf) (bw_inner b1) = (r, w')" by fastforce
    have e: "bw_buf b1 = []" "inv (bw_inner b1)" using 2 by (auto simp: bw_defs)
    show ?thesis
    proof (cases r)
      case (Inl e')
      then show ?thesis unfolding w 2(1) using r 2 e wr_err [OF e(2)] inner_errorI [of wr _ _ e' w' inv] by (auto simp: bw_defs line_inv_def)
    next
      case (Inr f)
      then have f: "inv w'" "f \<le> j + 1" "f \<le> length buf" "sunk w' = sunk (bw_inner b1) @ take f buf"
        using wr_ok [OF e(2)] r by (fastforce simp: min.absorb1)+
      define t where "t = line_tail (bw_cap b1) (j + 1) f buf"
      define b' where "b' = b1\<lparr>bw_inner := w', bw_buf := take (min (bw_cap b1) (length t)) t\<rparr>"
      obtain m where m: "t = take m (drop f buf)" using line_tail_prefix unfolding t_def by blast
      show ?thesis
      proof (cases "f = 0")
        case True
        then show ?thesis unfolding w 2(1) using r Inr 2 e f by (auto simp: bw_defs line_inv_def)
      next
        case False
        then have "?k b1 = Some (Inr (f + min (bw_cap b1) (length t)), b')"
          using r Inr f e
          by (simp add: write_to_buf_def write_to_buffer_unchecked_def spare_capacity_def t_def b'_def Let_def)
        moreover have "bw_sunk sunk b' = bw_sunk sunk b @ take (f + min (bw_cap b1) (length t)) buf"
          using 2(4) f e m by (auto simp: bw_sunk_def b'_def take_add min_def)
        moreover have "length t \<le> bw_cap b1 \<and> t \<noteq> [] \<and> last t = 10" if "10 \<in> set t"
          using line_tail_newline [OF Some f(2), of "bw_cap b1"] that unfolding t_def by blast
        then have "line_inv b'"
          by (cases "10 \<in> set t") (auto simp: line_inv_def completed_line_def b'_def min_def dest: in_set_takeD)
        moreover have "f + min (bw_cap b1) (length t) \<le> length buf" using f(3) m by (auto simp: min_def)
        moreover have "bw_inv inv b'" "bw_cap b' = bw_cap b" using 2 f by (auto simp: bw_defs b'_def)
        ultimately show ?thesis unfolding w 2(1) by auto
      qed
    qed
  qed
qed

end

locale writer_buffered = w: writer inv sunk rank wr for inv :: "'w \<Rightarrow> bool" and sunk rank wr

sublocale writer_buffered \<subseteq> bw: writer "bw_inv inv" "bw_sunk sunk" "bw_rank rank" "\<lambda>buf b. the (BufWriter_write wr buf b)"
proof (unfold_locales, goal_cases)
  case (1 b buf n b')
  then show ?case using w.bw_write_total [OF 1(1), of buf] by auto
next
  case (2 b buf e b')
  then show ?case using w.bw_write_total [OF 2(1), of buf] by auto
qed

interpretation slice_writer_buffered: writer_buffered "\<lambda>_. True" os_done "\<lambda>_. 0" mut_slice_write
  by unfold_locales

interpretation vec_writer_buffered: writer_buffered "\<lambda>_. True" "\<lambda>s. s" "\<lambda>_. 0" vec_append_write
  by unfold_locales

section \<open>Sessions\<close>

text \<open>A sequence of \<open>write_all\<close> calls, up to the first error.\<close>

fun bw_session :: "'w write_op \<Rightarrow> bytes list \<Rightarrow> 'w buf_writer \<Rightarrow> ((io_error + unit) \<times> 'w buf_writer) option" where
  "bw_session wr [] b = Some (Inr (), b)"
| "bw_session wr (d # ds) b =
     (case BufWriter_write_all wr (write_all wr) d b of
        None \<Rightarrow> None
      | Some (Inl e, b') \<Rightarrow> Some (Inl e, b')
      | Some (Inr _, b') \<Rightarrow> bw_session wr ds b')"

context writer
begin

lemma bw_session_total:
  "bw_inv inv b \<Longrightarrow> \<exists>r b' k. bw_session wr ds b = Some (r, b') \<and> bw_inv inv b' \<and> bw_cap b' = bw_cap b
     \<and> k \<le> length (concat ds) \<and> bw_sunk sunk b' = bw_sunk sunk b @ take k (concat ds)
     \<and> (r = Inr () \<and> k = length (concat ds) \<or> (\<exists>e. r = Inl e \<and> inner_error inv wr e))"
proof (induction ds arbitrary: b)
  case (Cons d ds)
  from bw_write_all_total [OF Cons.prems, of d] obtain r b1 k where
    x: "BufWriter_write_all wr (write_all wr) d b = Some (r, b1)" "bw_inv inv b1" "bw_cap b1 = bw_cap b" "k \<le> length d"
      "bw_sunk sunk b1 = bw_sunk sunk b @ take k d" "r = Inr () \<and> k = length d \<or> (\<exists>e. r = Inl e \<and> inner_error inv wr e)" by blast
  show ?case
  proof (cases r)
    case (Inl e)
    then show ?thesis using x by (intro exI [of _ r] exI [of _ b1] exI [of _ k]) simp
  next
    case (Inr u)
    from Cons.IH [OF x(2)] obtain r' b' m where
      "bw_session wr ds b1 = Some (r', b')" "bw_inv inv b'" "bw_cap b' = bw_cap b1" "m \<le> length (concat ds)"
      "bw_sunk sunk b' = bw_sunk sunk b1 @ take m (concat ds)"
      "r' = Inr () \<and> m = length (concat ds) \<or> (\<exists>e. r' = Inl e \<and> inner_error inv wr e)" by blast
    then show ?thesis
      using x Inr by (intro exI [of _ r'] exI [of _ b'] exI [of _ "k + m"]) auto
  qed
qed (auto intro!: exI [of _ 0])

end

text \<open>
  C22. \<open>BufWriter\<close> over any inner writer that keeps the contract of \<open>Write\<close>, with interruptions, short
  writes and errors: a sequence of \<open>write_all\<close> calls always comes back and never copies past the
  buffer, and what the inner writer and the buffer then hold is exactly the bytes handed in, in order,
  without loss or repetition, up to the point of the error if there was one.  \<open>into_inner\<close> hands the
  inner writer out with all of those bytes, or reports the error and keeps those not written.  An error
  is always one of the inner writer or that it accepted no bytes.
\<close>
theorem bufwriter_delivers_in_order:
  assumes w: "writer I sunk rank wr" and i: "I w"
  shows "\<exists>r b k s. bw_session wr ds (BufWriter_with_capacity cap w) = Some (r, b)
    \<and> k \<le> length (concat ds) \<and> sunk (bw_inner b) @ bw_buf b = sunk w @ take k (concat ds) \<and> length (bw_buf b) \<le> cap
    \<and> (r = Inr () \<and> k = length (concat ds) \<or> (\<exists>e. r = Inl e \<and> inner_error I wr e))
    \<and> BufWriter_into_inner wr b = Some s
    \<and> (case s of
         Inr w' \<Rightarrow> sunk w' = sunk w @ take k (concat ds)
       | Inl (e, b') \<Rightarrow> inner_error I wr e \<and> sunk (bw_inner b') @ bw_buf b' = sunk w @ take k (concat ds))"
proof -
  let ?b = "BufWriter_with_capacity cap w"
  have b: "bw_inv I ?b" using i by (simp add: bw_inv_def BufWriter_with_capacity_def)
  from writer.bw_session_total [OF w b, of ds] obtain r b' k where
    x: "bw_session wr ds ?b = Some (r, b')" "bw_inv I b'" "bw_cap b' = cap" "k \<le> length (concat ds)"
      "bw_sunk sunk b' = sunk w @ take k (concat ds)" "r = Inr () \<and> k = length (concat ds) \<or> (\<exists>e. r = Inl e \<and> inner_error I wr e)"
    by (auto simp: bw_sunk_def BufWriter_with_capacity_def)
  from writer.flush_buf_total [OF w x(2)] obtain q c where
    y: "flush_buf wr b' = Some (q, c)" "bw_sunk sunk c = bw_sunk sunk b'" "q = Inr () \<and> bw_buf c = [] \<or> (\<exists>e. q = Inl e \<and> inner_error I wr e)"
    by blast
  show ?thesis
    using x y by (cases q) (auto simp: BufWriter_into_inner_def bw_sunk_def bw_inv_def)
qed

theorem bufwriter_delivers_in_order_witness:
  "\<exists>r b k s. bw_session mut_slice_write [[1], [2, 3], [4]] (BufWriter_with_capacity 2 \<lparr>os_done = [], os_rest = [0, 0, 0]\<rparr>)
      = Some (r, b)
    \<and> k \<le> length (concat [[1], [2, 3], [4 :: u8]])
    \<and> os_done (bw_inner b) @ bw_buf b = os_done \<lparr>os_done = [], os_rest = [0, 0, 0]\<rparr> @ take k (concat [[1], [2, 3], [4]])
    \<and> length (bw_buf b) \<le> 2
    \<and> (r = Inr () \<and> k = length (concat [[1], [2, 3], [4 :: u8]])
         \<or> (\<exists>e. r = Inl e \<and> inner_error (\<lambda>_. True) mut_slice_write e))
    \<and> BufWriter_into_inner mut_slice_write b = Some s
    \<and> (case s of
         Inr w' \<Rightarrow> os_done w' = os_done \<lparr>os_done = [], os_rest = [0, 0, 0]\<rparr> @ take k (concat [[1], [2, 3], [4]])
       | Inl (e, b') \<Rightarrow> inner_error (\<lambda>_. True) mut_slice_write e \<and> os_done (bw_inner b') @ bw_buf b'
           = os_done \<lparr>os_done = [], os_rest = [0, 0, 0]\<rparr> @ take k (concat [[1], [2, 3], [4]]))"
  by (rule bufwriter_delivers_in_order [OF mut_slice_wr.writer_axioms TrueI])

text \<open>A session with a \<open>LineWriter\<close> up to the first error, with the bytes it has accepted so far.\<close>

datatype lw_call = Write bytes | Write_all bytes

fun lw_session :: "'w write_op \<Rightarrow> lw_call list \<Rightarrow> bytes \<Rightarrow> 'w buf_writer
    \<Rightarrow> ((io_error + unit) \<times> bytes \<times> 'w buf_writer) option" where
  "lw_session wr [] acc b = Some (Inr (), acc, b)"
| "lw_session wr (Write d # cs) acc b =
     (case LineWriter_write wr d b of
        None \<Rightarrow> None
      | Some (Inl e, b') \<Rightarrow> Some (Inl e, acc, b')
      | Some (Inr n, b') \<Rightarrow> lw_session wr cs (acc @ take n d) b')"
| "lw_session wr (Write_all d # cs) acc b =
     (case LineWriter_write_all wr (write_all wr) d b of
        None \<Rightarrow> None
      | Some (Inl e, b') \<Rightarrow> Some (Inl e, acc, b')
      | Some (Inr _, b') \<Rightarrow> lw_session wr cs (acc @ d) b')"

context writer
begin

lemma lw_session_total:
  "bw_inv inv b \<Longrightarrow> line_inv b \<Longrightarrow> \<exists>r acc' b'. lw_session wr cs acc b = Some (r, acc', b') \<and> bw_inv inv b'
     \<and> ((\<exists>e. r = Inl e \<and> inner_error inv wr e) \<or> r = Inr () \<and> line_inv b' \<and> (\<exists>new. acc' = acc @ new \<and> bw_sunk sunk b' = bw_sunk sunk b @ new))"
proof (induction cs arbitrary: acc b)
  case (Cons c cs)
  show ?case
  proof (cases c)
    case (Write d)
    obtain r b1 where x: "LineWriter_write wr d b = Some (r, b1)" "bw_inv inv b1" "line_inv b1"
      "(\<exists>n. r = Inr n \<and> n \<le> length d \<and> bw_sunk sunk b1 = bw_sunk sunk b @ take n d) \<or> (\<exists>e. r = Inl e \<and> inner_error inv wr e)"
      using lw_write_total [OF Cons.prems, of d] by blast
    then show ?thesis using Cons.IH [OF x(2,3)] Write by (cases r) fastforce+
  next
    case (Write_all d)
    obtain r b1 where x: "LineWriter_write_all wr (write_all wr) d b = Some (r, b1)" "bw_inv inv b1"
      "r = Inr () \<and> 10 \<notin> set (bw_buf b1) \<and> bw_sunk sunk b1 = bw_sunk sunk b @ d \<or> (\<exists>e. r = Inl e \<and> inner_error inv wr e)"
      using lw_write_all_total [OF Cons.prems, of d] by fastforce
    show ?thesis
    proof (cases r)
      case (Inl e)
      then show ?thesis using x Write_all by auto
    next
      case (Inr u)
      then have "line_inv b1" using x by (auto simp: line_inv_def)
      from Cons.IH [OF x(2) this, of "acc @ d"] show ?thesis using x Inr Write_all by fastforce
    qed
  qed
qed simp

end



end
