(* ===== verification/Io_Retry.thy ===== *)
theory Io_Retry
  imports Io_Buf_Writer Io_Laws
begin

text \<open>
  The retry loops of io/mod.rs and of \<open>BufWriter::flush_buf\<close> come back: a loop ends after finitely many calls
  on every device that is interrupted finitely often, whatever else the device does.  A device is a writer, a
  reader or a buffered reader on a state; \<open>rank\<close> bounds the calls that are still going to be interrupted.
\<close>

section \<open>Writers\<close>

lemma write_all_returns:
  fixes rank :: "'s \<Rightarrow> nat"
  assumes ok: "\<And>buf s n s'. wr buf s = (Inr n, s') \<Longrightarrow> n \<le> length buf"
    and retry: "\<And>buf s e s'. wr buf s = (Inl e, s') \<Longrightarrow> interrupted e \<Longrightarrow> rank s' < rank s"
  shows "write_all wr buf s \<noteq> None"
proof (induction buf s rule: progress_induct [where size = "\<lambda>b s. length b" and rank = "\<lambda>b. rank"])
  case (step buf s)
  obtain r s1 where w: "wr buf s = (r, s1)" by fastforce
  show ?case
  proof (cases r)
    case (Inl e)
    then show ?thesis using step [of buf s1] retry [of buf s e s1] w by (simp add: write_all.simps [of wr buf s])
  next
    case (Inr n)
    then show ?thesis using step [of "drop n buf" s1] ok [of buf s n s1] w by (simp add: write_all.simps [of wr buf s])
  qed
qed

lemma flush_loop_returns:
  fixes rank :: "'s \<Rightarrow> nat"
  assumes retry: "\<And>buf s e s'. wr buf s = (Inl e, s') \<Longrightarrow> interrupted e \<Longrightarrow> rank s' < rank s"
  shows "flush_loop wr buffer written w \<noteq> None"
proof (induction written w rule: progress_induct [where size = "\<lambda>n s. length buffer - n" and rank = "\<lambda>b. rank"])
  case (step written w)
  obtain r w1 where w: "wr (drop written buffer) w = (r, w1)" by fastforce
  show ?case
  proof (cases r)
    case (Inl e)
    then show ?thesis using step [of written w1] retry [of "drop written buffer" w e w1] w
      by (simp add: flush_loop.simps [of wr buffer written w])
  next
    case (Inr n)
    have "length buffer - (written + n) < length buffer - written" if "0 < n" "written < length buffer"
      using that by linarith
    then show ?thesis using step [of "written + n" w1] w Inr by (auto simp: flush_loop.simps [of wr buffer written w])
  qed
qed

text \<open>\<open>advance_slices\<close> never panics; slices that are left are what follows the bytes written.\<close>

lemma advance_count_bounds:
  "advance_count bufs n r a = (r', a') \<Longrightarrow> a \<le> n \<Longrightarrow>
   r \<le> r' \<and> a' = a + length (concat (take (r' - r) bufs)) \<and> a' \<le> n
   \<and> (case drop (r' - r) bufs of [] \<Rightarrow> True | b # _ \<Rightarrow> n < a' + length b)"
proof (induction bufs n r a rule: advance_count.induct)
  case (2 buf bufs n r a)
  show ?case
  proof (cases "a + length buf > n")
    case False
    then have "r + 1 \<le> r' \<and> a' = (a + length buf) + length (concat (take (r' - (r + 1)) bufs)) \<and> a' \<le> n
        \<and> (case drop (r' - (r + 1)) bufs of [] \<Rightarrow> True | b # _ \<Rightarrow> n < a' + length b)"
      using 2 by simp
    moreover from this have "r + 1 \<le> r'" by (rule conjunct1)
    then have "r' - r = Suc (r' - (r + 1))" by simp
    ultimately show ?thesis by simp
  qed (use 2 in auto)
qed auto

lemma advance_slices_total:
  "\<exists>bufs'. advance_slices bufs n = Some bufs'
     \<and> (bufs' = [] \<or> 0 < n \<and> length (concat bufs') < length (concat bufs) \<or> n = 0)"
proof -
  obtain r a where c: "advance_count bufs n 0 0 = (r, a)" by fastforce
  note b = advance_count_bounds [OF c, simplified]
  show ?thesis
  proof (cases "drop r bufs")
    case Nil
    then show ?thesis using c by (simp add: advance_slices_def)
  next
    case (Cons x xs)
    have "length (concat bufs) = length (concat (take r bufs)) + length (concat (drop r bufs))"
      by (metis append_take_drop_id concat_append length_append)
    then show ?thesis using b c Cons by (auto simp: advance_slices_def)
  qed
qed

lemma write_all_vectored_returns:
  fixes rank :: "'s \<Rightarrow> nat"
  assumes retry: "\<And>bufs s e s'. wv bufs s = (Inl e, s') \<Longrightarrow> interrupted e \<Longrightarrow> rank s' < rank s"
  shows "write_all_vectored wv bufs s \<noteq> None"
proof -
  have "write_all_vectored_loop wv bufs s \<noteq> None" for bufs s
  proof (induction bufs s rule: progress_induct [where size = "\<lambda>b s. length (concat b)" and rank = "\<lambda>b. rank"])
    case (step bufs s)
    obtain r s1 where w: "wv bufs s = (r, s1)" by fastforce
    show ?case
    proof (cases r)
      case (Inl e)
      then show ?thesis using step [of bufs s1] retry [of bufs s e s1] w
        by (simp add: write_all_vectored_loop.simps [of wv bufs s])
    next
      case (Inr n)
      obtain bufs' where "advance_slices bufs n = Some bufs'"
        "bufs' = [] \<or> 0 < n \<and> length (concat bufs') < length (concat bufs) \<or> n = 0" using advance_slices_total by blast
      then show ?thesis using step [of bufs' s1] w Inr
        by (auto simp: write_all_vectored_loop.simps [of wv bufs s] write_all_vectored_loop.simps [of wv "[]"])
    qed
  qed
  then show ?thesis using advance_slices_total [of bufs 0] by (auto simp: write_all_vectored_def)
qed

section \<open>Readers\<close>

lemma read_exact_returns:
  fixes rank :: "'s \<Rightarrow> nat"
  assumes ok: "\<And>buf s n buf' s'. rd buf s = (Inr n, buf', s') \<Longrightarrow> n \<le> length buf \<and> length buf' = length buf"
    and retry: "\<And>buf s e buf' s'. rd buf s = (Inl e, buf', s') \<Longrightarrow> interrupted e \<Longrightarrow> length buf' = length buf \<and> rank s' < rank s"
  shows "default_read_exact rd buf s \<noteq> None"
proof (induction buf s rule: progress_induct [where size = "\<lambda>b s. length b" and rank = "\<lambda>b. rank"])
  case (step buf s)
  obtain r buf1 s1 where w: "rd buf s = (r, buf1, s1)" by (metis prod_cases3)
  show ?case
  proof (cases r)
    case (Inl e)
    then show ?thesis using step [of buf1 s1] retry [of buf s e buf1 s1] w
      by (simp add: default_read_exact.simps [of rd buf s])
  next
    case (Inr n)
    then show ?thesis using step [of "drop n buf1" s1] ok [of buf s n buf1 s1] w
      by (auto simp: default_read_exact.simps [of rd buf s] bind_eq_None_conv)
  qed
qed

lemma read_until_returns:
  fixes rank :: "'s \<Rightarrow> nat"
  assumes ok: "\<And>s bs s'. fill s = (Inr bs, s') \<Longrightarrow> bs \<noteq> [] \<Longrightarrow> rank (consume (length bs) s') < rank s"
    and retry: "\<And>s e s'. fill s = (Inl e, s') \<Longrightarrow> interrupted e \<Longrightarrow> rank s' < rank s"
  shows "read_until fill consume delim buf s \<noteq> None"
proof -
  have "read_until_loop fill consume delim buf n s \<noteq> None" for buf n
  proof (induction "rank s" arbitrary: s buf n rule: less_induct)
    case less
    obtain r s1 where w: "fill s = (r, s1)" by fastforce
    show ?case
    proof (cases r)
      case (Inl e)
      then show ?thesis using less retry [of s e s1] w by (simp add: read_until_loop.simps [of fill consume delim buf n s])
    next
      case (Inr bs)
      then show ?thesis using less ok [of s bs s1] w
        by (simp add: read_until_loop.simps [of fill consume delim buf n s] split: option.splits)
    qed
  qed
  then show ?thesis by (simp add: read_until_def)
qed

text \<open>Without the bound a loop can go on for ever: a writer that is always interrupted keeps \<open>write_all\<close> busy.\<close>

lemma write_all_always_interrupted:
  fixes s :: 'a
  shows "buf \<noteq> [] \<Longrightarrow> write_all (\<lambda>_ s. (Inl (Os 4), s)) buf s = None"
proof -
  have "interrupted (Os 4)" by (simp only: interrupted_os_iff)
  then have i: "decode_error_kind 4 = Interrupted" by simp
  have "buf \<noteq> [] \<longrightarrow> wr \<noteq> (\<lambda>_ s. (Inl (Os 4), s))" if "write_all wr buf s = Some y" for wr buf y and s :: 'a
    by (rule write_all.raw_induct [OF _ that, where P = "\<lambda>wr buf s y. buf \<noteq> [] \<longrightarrow> wr \<noteq> (\<lambda>_ s. (Inl (Os 4), s))"])
      (use i in \<open>auto split: if_splits, blast\<close>)
  then show "buf \<noteq> [] \<Longrightarrow> ?thesis" by (cases "write_all (\<lambda>_ s. (Inl (Os 4), s)) buf s") blast+
qed

section \<open>Properties\<close>


text \<open>A device that is interrupted a number of times, then moves one byte per call.\<close>

definition shaky_write :: "(nat \<times> bytes) write_op" where
  "shaky_write buf s =
     (if fst s = 0 then (Inr (min 1 (length buf)), (0, snd s @ take 1 buf)) else (Inl (Os 4), (fst s - 1, snd s)))"

definition shaky_read :: "(nat \<times> bytes) read_op" where
  "shaky_read buf s =
     (if fst s = 0 then (let n = min 1 (min (length buf) (length (snd s))) in
        (Inr n, take n (snd s) @ drop n buf, (0, drop n (snd s))))
      else (Inl (Os 4), buf, (fst s - 1, snd s)))"

definition shaky_fill :: "(nat \<times> bytes) fill_op" where
  "shaky_fill s = (if fst s = 0 then (Inr (take 1 (snd s)), s) else (Inl (Os 4), (fst s - 1, snd s)))"

lemmas shaky_defs = shaky_write_def shaky_read_def shaky_fill_def


end
