(* ===== verification/Io_Buf_Reader.thy ===== *)
theory Io_Buf_Reader
  imports Io_Cursor
begin

text \<open>
  \<open>sgx_tstd\<close>, io/buffered/bufreader.rs: \<open>BufReader\<close>.  Its buffer is a box of bytes that start out
  uninitialised, \<open>None\<close> in the model; the first \<open>init\<close> of them are known to be initialised and the bytes
  from \<open>pos\<close> to \<open>cap\<close> are the ones read ahead.  The inner reader is given by its \<open>read\<close> and \<open>read_buf\<close>.
\<close>

type_synonym 's read_buf_op = "read_buf \<Rightarrow> 's \<Rightarrow> ((io_error + unit) \<times> read_buf \<times> 's) option"

record 'r buf_reader =
  br_inner :: 'r
  br_buf :: "u8 option list"
  br_pos :: nat
  br_cap :: nat
  br_init :: nat

definition BufReader_with_capacity :: "nat \<Rightarrow> 'r \<Rightarrow> 'r buf_reader" where
  "BufReader_with_capacity capacity r =
     \<lparr>br_inner = r, br_buf = replicate capacity None, br_pos = 0, br_cap = 0, br_init = 0\<rparr>"

text \<open>The bytes read ahead; \<open>None\<close> when one of them were uninitialised memory.\<close>

definition BufReader_buffer :: "'r buf_reader \<Rightarrow> bytes option" where
  "BufReader_buffer b = those (take (br_cap b - br_pos b) (drop (br_pos b) (br_buf b)))"

definition discard_buffer :: "'r buf_reader \<Rightarrow> 'r buf_reader" where
  "discard_buffer b = b\<lparr>br_pos := 0, br_cap := 0\<rparr>"

definition BufReader_fill_buf :: "'r read_buf_op \<Rightarrow> 'r buf_reader \<Rightarrow> ((io_error + bytes) \<times> 'r buf_reader) option" where
  "BufReader_fill_buf rdb b =
     (let done = (\<lambda>b. map_option (\<lambda>bs. (Inr bs, b)) (BufReader_buffer b))
      in if br_pos b \<ge> br_cap b then
           (case rdb (assume_init (br_init b) (ReadBuf_uninit (br_buf b))) (br_inner b) of
              None \<Rightarrow> None
            | Some (Inl e, rb, s) \<Rightarrow> Some (Inl e, b\<lparr>br_inner := s, br_buf := rb_buf rb\<rparr>)
            | Some (Inr _, rb, s) \<Rightarrow>
                done (b\<lparr>br_inner := s, br_buf := rb_buf rb, br_cap := rb_filled rb, br_init := rb_initialized rb,
                        br_pos := 0\<rparr>))
         else done b)"

definition BufReader_consume :: "nat \<Rightarrow> 'r buf_reader \<Rightarrow> 'r buf_reader" where
  "BufReader_consume amt b = b\<lparr>br_pos := min ((br_pos b + amt) mod USIZE) (br_cap b)\<rparr>"

definition BufReader_read ::
  "'r read_op \<Rightarrow> 'r read_buf_op \<Rightarrow> bytes \<Rightarrow> 'r buf_reader \<Rightarrow> ((io_error + nat) \<times> bytes \<times> 'r buf_reader) option" where
  "BufReader_read rd rdb buf b =
     (if br_pos b = br_cap b \<and> length buf \<ge> length (br_buf b) then
        let b = discard_buffer b
        in case rd buf (br_inner b) of (r, buf', s) \<Rightarrow> Some (r, buf', b\<lparr>br_inner := s\<rparr>)
      else
        (case BufReader_fill_buf rdb b of
           None \<Rightarrow> None
         | Some (Inl e, b') \<Rightarrow> Some (Inl e, buf, b')
         | Some (Inr rem, b') \<Rightarrow>
             (case slice_read buf rem of
                (Inl e, buf', _) \<Rightarrow> Some (Inl e, buf', b')
              | (Inr nread, buf', _) \<Rightarrow> Some (Inr nread, buf', BufReader_consume nread b'))))"

text \<open>\<open>read_exact\<close> falls back to the provided method over its own \<open>read\<close>.\<close>

definition BufReader_read_exact ::
  "'r read_op \<Rightarrow> 'r read_buf_op \<Rightarrow> bytes \<Rightarrow> 'r buf_reader \<Rightarrow> ((io_error + unit) \<times> bytes \<times> 'r buf_reader) option" where
  "BufReader_read_exact rd rdb buf b =
     (case BufReader_buffer b of
        None \<Rightarrow> None
      | Some bs \<Rightarrow>
          if length bs \<ge> length buf then
            Some (Inr (), take (length buf) bs, BufReader_consume (length buf) b)
          else default_read_exact (\<lambda>buf b. the (BufReader_read rd rdb buf b)) buf b)"

definition BufReader_read_to_end ::
  "(bytes \<Rightarrow> 'r \<Rightarrow> (io_error + nat) \<times> bytes \<times> 'r) \<Rightarrow> bytes \<Rightarrow> 'r buf_reader
   \<Rightarrow> ((io_error + nat) \<times> bytes \<times> 'r buf_reader) option" where
  "BufReader_read_to_end rte buf b =
     (case BufReader_buffer b of
        None \<Rightarrow> None
      | Some bs \<Rightarrow>
          let nread = br_cap b - br_pos b;
              b' = discard_buffer b
          in case rte (buf @ bs) (br_inner b') of
               (r, buf', s) \<Rightarrow> Some (map_ok (\<lambda>n. nread + n) r, buf', b'\<lparr>br_inner := s\<rparr>))"

text \<open>An \<open>i64\<close> subtraction that reports overflow.\<close>

definition checked_sub_i64 :: "int \<Rightarrow> int \<Rightarrow> int option" where
  "checked_sub_i64 a b = (if - (2 ^ 63) \<le> a - b \<and> a - b < 2 ^ 63 then Some (a - b) else None)"

definition BufReader_seek :: "'r seek_op \<Rightarrow> SeekFrom \<Rightarrow> 'r buf_reader \<Rightarrow> (io_error + nat) \<times> 'r buf_reader" where
  "BufReader_seek seek p b =
     (let finish = (\<lambda>(r, s) b. case r of
                       Inl e \<Rightarrow> (Inl e, b\<lparr>br_inner := s\<rparr>)
                     | Inr n \<Rightarrow> (Inr n, discard_buffer (b\<lparr>br_inner := s\<rparr>)))
      in case p of
           Current n \<Rightarrow>
             (let remainder = int (br_cap b - br_pos b)
              in case checked_sub_i64 n remainder of
                   Some offset \<Rightarrow> finish (seek (Current offset) (br_inner b)) b
                 | None \<Rightarrow>
                     (case seek (Current (- remainder)) (br_inner b) of
                        (Inl e, s) \<Rightarrow> (Inl e, b\<lparr>br_inner := s\<rparr>)
                      | (Inr _, s) \<Rightarrow>
                          let b' = discard_buffer (b\<lparr>br_inner := s\<rparr>)
                          in finish (seek (Current n) (br_inner b')) b'))
         | _ \<Rightarrow> finish (seek p (br_inner b)) b)"

definition BufReader_seek_relative :: "'r seek_op \<Rightarrow> int \<Rightarrow> 'r buf_reader \<Rightarrow> (io_error + unit) \<times> 'r buf_reader" where
  "BufReader_seek_relative seek offset b =
     (let slow = (case BufReader_seek seek (Current offset) b of (r, b') \<Rightarrow> (map_ok (\<lambda>_. ()) r, b'))
      in if offset < 0 then
           (if int (br_pos b) + offset \<ge> 0 then (Inr (), b\<lparr>br_pos := nat (int (br_pos b) + offset)\<rparr>) else slow)
         else
           (if int (br_pos b) + offset \<le> int (br_cap b) then (Inr (), b\<lparr>br_pos := nat (int (br_pos b) + offset)\<rparr>)
            else slow))"

text \<open>\<open>stream_position\<close> panics when the inner position is less than what was read ahead.\<close>

definition BufReader_stream_position :: "('r \<Rightarrow> (io_error + nat) \<times> 'r) \<Rightarrow> 'r buf_reader \<Rightarrow> ((io_error + nat) \<times> 'r buf_reader) option" where
  "BufReader_stream_position sp b =
     (let remainder = br_cap b - br_pos b
      in case sp (br_inner b) of
           (Inl e, s) \<Rightarrow> Some (Inl e, b\<lparr>br_inner := s\<rparr>)
         | (Inr p, s) \<Rightarrow> if p < remainder then None else Some (Inr (p - remainder), b\<lparr>br_inner := s\<rparr>))"

section \<open>Readers with \<open>read_buf\<close>\<close>

lemma those_eq_Some: "those xs = Some ys \<longleftrightarrow> xs = map Some ys"
  by (induction xs arbitrary: ys) (auto split: option.splits)

text \<open>\<open>read_buf\<close> adds what \<open>read\<close> would have returned to the filled part of the buffer.\<close>

locale rb_reader = reader inv avail rank rd for inv :: "'s \<Rightarrow> bool" and avail rank rd +
  fixes rdb :: "'s read_buf_op"
  assumes rdb_total: "inv s \<Longrightarrow> rb_inv rb \<Longrightarrow> filled rb = Some old \<Longrightarrow> \<exists>r rb' s'. rdb rb s = Some (r, rb', s')
      \<and> rb_inv rb' \<and> rb_capacity rb' = rb_capacity rb \<and> rb_initialized rb \<le> rb_initialized rb' \<and> inv s'
      \<and> ((\<exists>n. r = Inr () \<and> n \<le> remaining rb \<and> n \<le> length (avail s) \<and> filled rb' = Some (old @ take n (avail s))
            \<and> rb_filled rb' = rb_filled rb + n \<and> avail s' = drop n (avail s) \<and> (n = 0 \<longrightarrow> remaining rb = 0 \<or> avail s = []))
         \<or> (\<exists>e. r = Inl e \<and> avail s' = avail s \<and> (interrupted e \<longrightarrow> rank s' < rank s)))"

context reader
begin

text \<open>The provided \<open>read_buf\<close> over \<open>read\<close> keeps the contract.\<close>

lemma default_read_buf_total:
  assumes i: "inv s" "rb_inv rb" "filled rb = Some old"
  shows "\<exists>r rb' s'. default_read_buf rd rb s = Some (r, rb', s')
      \<and> rb_inv rb' \<and> rb_capacity rb' = rb_capacity rb \<and> rb_initialized rb \<le> rb_initialized rb' \<and> inv s'
      \<and> ((\<exists>n. r = Inr () \<and> n \<le> remaining rb \<and> n \<le> length (avail s) \<and> filled rb' = Some (old @ take n (avail s))
            \<and> rb_filled rb' = rb_filled rb + n \<and> avail s' = drop n (avail s) \<and> (n = 0 \<longrightarrow> remaining rb = 0 \<or> avail s = []))
         \<or> (\<exists>e. r = Inl e \<and> avail s' = avail s \<and> (interrupted e \<longrightarrow> rank s' < rank s)))"
proof -
  obtain bs rb1 where b: "initialize_unfilled rb = Some (bs, rb1)" "length bs = remaining rb" "rb_inv rb1"
    "rb_capacity rb1 = rb_capacity rb" "rb_filled rb1 = rb_filled rb" "filled rb1 = filled rb"
    "rb_filled rb + remaining rb \<le> rb_initialized rb1" "rb_initialized rb \<le> rb_initialized rb1"
    using initialize_unfilled_to_ok [OF i(2) order.refl] unfolding initialize_unfilled_def by metis
  obtain r bs' s1 where r: "rd bs s = (r, bs', s1)" by (metis prod_cases3)
  have l: "length bs' = length bs" using rd_ok [OF i(1)] rd_err [OF i(1)] r by (cases r) auto
  have rem: "remaining rb1 = remaining rb" using b by (simp add: remaining_def)
  define rb2 where "rb2 = store_unfilled bs' rb1"
  have "length bs' \<le> remaining rb1" using l b rem by simp
  note st = store_unfilled_props [OF b(3) this, folded rb2_def]
  have c: "rb_capacity rb2 = rb_capacity rb" using st(1) b(4) by (simp add: rb_capacity_def)
  show ?thesis
  proof (cases r)
    case (Inl e)
    then show ?thesis using r b st c rd_err [OF i(1)] unfolding default_read_buf_def rb2_def by auto
  next
    case (Inr n)
    then have n: "n \<le> length bs" "inv s1" "n \<le> length (avail s)" "take n bs' = take n (avail s)"
      "avail s1 = drop n (avail s)" "n = 0 \<longrightarrow> bs = [] \<or> avail s = []"
      using rd_ok [OF i(1)] r by auto
    define rb' where "rb' = rb2\<lparr>rb_filled := rb_filled rb + n\<rparr>"
    have f: "rb_filled rb + n \<le> rb_initialized rb1" "(rb_filled rb + n) mod USIZE = rb_filled rb + n"
      using n(1) b(2,7) rb_inv_bounds(2) [OF i(2), of n] by simp_all
    have "add_filled n rb2 = Some rb'"
      using f st b by (simp add: add_filled_def set_filled_def rb'_def)
    moreover have "rb_inv rb'" using st f by (simp add: rb_inv_def rb'_def)
    moreover from this have "filled rb' = Some (old @ take n (avail s))"
    proof -
      have "take (rb_filled rb + n) (rb_buf rb2) = take (rb_filled rb + n) (take (rb_filled rb1 + length bs') (rb_buf rb2))"
        using n(1) l b(5) by (simp add: min.absorb1)
      also have "\<dots> = take (rb_filled rb) (rb_buf rb1) @ map Some (take n bs')"
        using st(7) b i(2) by (simp add: take_map rb_inv_def rb_capacity_def min.absorb1)
      finally have "filled rb' = those (take (rb_filled rb) (rb_buf rb1) @ map Some (take n (avail s)))"
        using n(4) by (simp add: filled_def rb'_def)
      moreover have "take (rb_filled rb) (rb_buf rb1) = map Some old"
        using i(3) b(5,6) by (simp add: filled_def those_eq_Some)
      ultimately show ?thesis using those_Some [of "old @ take n (avail s)"] by simp
    qed
    ultimately show ?thesis
      using r Inr b st c n unfolding default_read_buf_def rb2_def [symmetric] by (auto simp: rb'_def rb_capacity_def rb2_def)
  qed
qed

end

section \<open>BufReader keeps the contracts\<close>

definition br_inv :: "('r \<Rightarrow> bool) \<Rightarrow> 'r buf_reader \<Rightarrow> bool" where
  "br_inv I b \<longleftrightarrow> I (br_inner b) \<and> br_pos b \<le> br_cap b \<and> br_cap b \<le> br_init b \<and> br_init b \<le> length (br_buf b)
     \<and> list_all (\<lambda>x. x \<noteq> None) (take (br_init b) (br_buf b)) \<and> length (br_buf b) < USIZE"

definition br_ahead :: "'r buf_reader \<Rightarrow> bytes" where
  "br_ahead b = map the (take (br_cap b - br_pos b) (drop (br_pos b) (br_buf b)))"

definition br_avail :: "('r \<Rightarrow> bytes) \<Rightarrow> 'r buf_reader \<Rightarrow> bytes" where
  "br_avail avail b = br_ahead b @ avail (br_inner b)"

definition br_rank :: "('r \<Rightarrow> nat) \<Rightarrow> 'r buf_reader \<Rightarrow> nat" where
  "br_rank rank b = rank (br_inner b)"

lemma br_buffer: "br_inv I b \<Longrightarrow> BufReader_buffer b = Some (br_ahead b)"
proof -
  assume b: "br_inv I b"
  then have "list_all (\<lambda>x. x \<noteq> None) (take (br_cap b) (br_buf b))"
    unfolding br_inv_def by (auto intro: list_all_take_le)
  then have "list_all (\<lambda>x. x \<noteq> None) (drop (br_pos b) (take (br_cap b) (br_buf b)))"
    by (metis append_take_drop_id list_all_append)
  then show ?thesis unfolding BufReader_buffer_def br_ahead_def by (simp add: those_map_the drop_take)
qed

lemma br_ahead_length: "br_inv I b \<Longrightarrow> length (br_ahead b) = br_cap b - br_pos b"
  by (auto simp: br_inv_def br_ahead_def)

lemma br_consume:
  assumes "br_inv I b" "n \<le> length (br_ahead b)"
  shows "br_inv I (BufReader_consume n b) \<and> br_ahead (BufReader_consume n b) = drop n (br_ahead b)
    \<and> br_inner (BufReader_consume n b) = br_inner b"
proof -
  have n: "br_pos b + n \<le> br_cap b" using assms br_ahead_length [OF assms(1)] by (auto simp: br_inv_def)
  moreover have "(br_pos b + n) mod USIZE = br_pos b + n" using n assms(1) by (auto simp: br_inv_def)
  ultimately show ?thesis
    using assms(1) by (auto simp: br_inv_def BufReader_consume_def br_ahead_def drop_map drop_take add.commute)
qed

context rb_reader
begin

lemma br_fill_buf_total:
  assumes b: "br_inv inv b"
  shows "\<exists>r b'. BufReader_fill_buf rdb b = Some (r, b') \<and> br_inv inv b' \<and> br_avail avail b' = br_avail avail b
    \<and> ((\<exists>bs. r = Inr bs \<and> bs = br_ahead b' \<and> (bs = [] \<longrightarrow> br_buf b = [] \<or> br_avail avail b = [])
          \<and> length (br_buf b') = length (br_buf b))
       \<or> (\<exists>e. r = Inl e \<and> (interrupted e \<longrightarrow> br_rank rank b' < br_rank rank b) \<and> length (br_buf b') = length (br_buf b)))"
proof (cases "br_pos b \<ge> br_cap b")
  case False
  then have "br_ahead b \<noteq> []" using br_ahead_length [OF b] by auto
  then show ?thesis using False b br_buffer [OF b] by (simp add: BufReader_fill_buf_def)
next
  case True
  let ?rb = "assume_init (br_init b) (ReadBuf_uninit (br_buf b))"
  have rb: "rb_inv ?rb" "filled ?rb = Some []" "rb_capacity ?rb = length (br_buf b)" "remaining ?rb = length (br_buf b)"
    "rb_initialized ?rb = br_init b" "rb_filled ?rb = 0"
    using b by (auto simp: br_inv_def rb_inv_def assume_init_def ReadBuf_uninit_def filled_def remaining_def rb_capacity_def)
  have a: "br_ahead b = []" using True by (simp add: br_ahead_def)
  have s: "inv (br_inner b)" using b by (simp add: br_inv_def)
  from rdb_total [OF s rb(1,2)] obtain r rb' s' where
    x: "rdb ?rb (br_inner b) = Some (r, rb', s')" "rb_inv rb'" "rb_capacity rb' = length (br_buf b)"
      "br_init b \<le> rb_initialized rb'" "inv s'"
      "(\<exists>n. r = Inr () \<and> filled rb' = Some (take n (avail (br_inner b))) \<and> rb_filled rb' = n \<and> n \<le> length (avail (br_inner b))
          \<and> avail s' = drop n (avail (br_inner b)) \<and> (n = 0 \<longrightarrow> br_buf b = [] \<or> avail (br_inner b) = []))
       \<or> (\<exists>e. r = Inl e \<and> avail s' = avail (br_inner b) \<and> (interrupted e \<longrightarrow> rank s' < rank (br_inner b)))"
    unfolding rb by auto
  show ?thesis
  proof (cases r)
    case (Inl e)
    then show ?thesis
      using x True b a
      by (auto simp: BufReader_fill_buf_def br_inv_def br_avail_def br_rank_def br_ahead_def rb_inv_def rb_capacity_def
          intro: list_all_take_le)
  next
    case (Inr u)
    define b' where "b' = b\<lparr>br_inner := s', br_buf := rb_buf rb', br_cap := rb_filled rb', br_init := rb_initialized rb',
      br_pos := 0\<rparr>"
    have i: "br_inv inv b'" using x b by (simp add: br_inv_def b'_def rb_inv_def rb_capacity_def)
    have "br_ahead b' = the (filled rb')" using rb_inv_filled [OF x(2)] by (simp add: br_ahead_def b'_def)
    then show ?thesis
      using x Inr True br_buffer [OF i] i a
      by (auto simp: BufReader_fill_buf_def b'_def [symmetric] br_avail_def rb_capacity_def) (auto simp: b'_def)
  qed
qed

lemma br_read_total:
  assumes b: "br_inv inv b"
  shows "\<exists>r buf' b'. BufReader_read rd rdb buf b = Some (r, buf', b') \<and> br_inv inv b' \<and> length buf' = length buf
    \<and> ((\<exists>n. r = Inr n \<and> n \<le> length buf \<and> n \<le> length (br_avail avail b) \<and> take n buf' = take n (br_avail avail b)
          \<and> br_avail avail b' = drop n (br_avail avail b) \<and> (n = 0 \<longrightarrow> buf = [] \<or> br_avail avail b = []))
       \<or> (\<exists>e. r = Inl e \<and> br_avail avail b' = br_avail avail b \<and> (interrupted e \<longrightarrow> br_rank rank b' < br_rank rank b)))"
proof (cases "br_pos b = br_cap b \<and> length buf \<ge> length (br_buf b)")
  case True
  obtain r buf' s where r: "rd buf (br_inner b) = (r, buf', s)" by (metis prod_cases3)
  have "inv (br_inner b)" using b by (simp add: br_inv_def)
  then have "inv s \<and> length buf' = length buf \<and> ((\<exists>n. r = Inr n \<and> n \<le> length buf \<and> n \<le> length (avail (br_inner b))
        \<and> take n buf' = take n (avail (br_inner b)) \<and> avail s = drop n (avail (br_inner b))
        \<and> (n = 0 \<longrightarrow> buf = [] \<or> avail (br_inner b) = []))
      \<or> (\<exists>e. r = Inl e \<and> avail s = avail (br_inner b) \<and> (interrupted e \<longrightarrow> rank s < rank (br_inner b))))"
    using r rd_ok rd_err by (cases r) blast+
  then show ?thesis
    using True b r
    by (simp add: BufReader_read_def discard_buffer_def br_inv_def br_avail_def br_ahead_def br_rank_def)
next
  case False
  from br_fill_buf_total [OF b] obtain r b1 where
    x: "BufReader_fill_buf rdb b = Some (r, b1)" "br_inv inv b1" "br_avail avail b1 = br_avail avail b"
      "(\<exists>bs. r = Inr bs \<and> bs = br_ahead b1 \<and> (bs = [] \<longrightarrow> br_buf b = [] \<or> br_avail avail b = []))
       \<or> (\<exists>e. r = Inl e \<and> (interrupted e \<longrightarrow> br_rank rank b1 < br_rank rank b))" by blast
  have w: "BufReader_read rd rdb buf b = (case r of Inl e \<Rightarrow> Some (Inl e, buf, b1)
    | Inr rem \<Rightarrow> (case slice_read buf rem of (Inl e, buf', _) \<Rightarrow> Some (Inl e, buf', b1)
      | (Inr nread, buf', _) \<Rightarrow> Some (Inr nread, buf', BufReader_consume nread b1)))"
    using False x(1) by (cases r) (auto simp: BufReader_read_def)
  show ?thesis
  proof (cases r)
    case (Inl e)
    then show ?thesis using x w by auto
  next
    case (Inr bs)
    have ne: "br_buf b \<noteq> []" using False b by (auto simp: br_inv_def)
    define n where "n = min (length buf) (length bs)"
    have bs: "bs = br_ahead b1" using x(4) Inr by auto
    have n: "n \<le> length (br_ahead b1)" by (simp add: n_def bs)
    note c = br_consume [OF x(2) n]
    have "BufReader_read rd rdb buf b = Some (Inr n, take n bs @ drop n buf, BufReader_consume n b1)"
      using w Inr by (simp add: slice_read_def Let_def n_def)
    moreover have "take n (take n bs @ drop n buf) = take n (br_avail avail b)" "n \<le> length (br_avail avail b)"
      "br_avail avail (BufReader_consume n b1) = drop n (br_avail avail b)"
      using x(3) [symmetric] bs n c
      by (simp_all add: br_avail_def [of avail b1] br_avail_def [of avail "BufReader_consume n b1"])
    moreover have "n = 0 \<longrightarrow> buf = [] \<or> br_avail avail b = []"
      using x(4) Inr ne by (auto simp: n_def min_def split: if_splits)
    moreover have "n \<le> length buf" "length (take n bs @ drop n buf) = length buf" by (simp_all add: n_def)
    ultimately show ?thesis using c by blast
  qed
qed

end

locale reader_buffered = r: rb_reader inv avail rank rd rdb for inv :: "'r \<Rightarrow> bool" and avail rank rd rdb

sublocale reader_buffered \<subseteq> br: reader "br_inv inv" "br_avail avail" "br_rank rank"
  "\<lambda>buf b. the (BufReader_read rd rdb buf b)"
proof (unfold_locales, goal_cases)
  case (1 b buf n buf' b')
  then show ?case using r.br_read_total [OF 1(1), of buf] by auto
next
  case (2 b buf e buf' b')
  then show ?case using r.br_read_total [OF 2(1), of buf] by auto
qed

text \<open>As a \<open>BufRead\<close> it needs a buffer: with a capacity of 0 \<open>fill_buf\<close> would look like the end of the stream.\<close>

sublocale reader_buffered \<subseteq> brb: buffered "\<lambda>b. br_inv inv b \<and> br_buf b \<noteq> []" "br_avail avail" "br_rank rank"
  "\<lambda>b. the (BufReader_fill_buf rdb b)" BufReader_consume
proof (unfold_locales, goal_cases)
  case (1 b bs b')
  then have "br_inv inv b'" "bs = br_ahead b'" "br_avail avail b = br_ahead b' @ avail (br_inner b')"
    "bs = [] \<longrightarrow> br_avail avail b = []" "br_buf b' \<noteq> []"
    using r.br_fill_buf_total [of b] by (auto simp: br_avail_def [of avail b'])
  then show ?case by (auto simp: br_avail_def [of avail b'])
next
  case (2 b e b')
  then show ?case using r.br_fill_buf_total [of b] by auto
next
  case (3 b bs b' n)
  then have "br_inv inv b'" "bs = br_ahead b'" "br_avail avail b = br_ahead b' @ avail (br_inner b')" "br_buf b' \<noteq> []"
    using r.br_fill_buf_total [of b] by (auto simp: br_avail_def [of avail b'])
  then show ?case
    using br_consume [of inv b' n] 3(3)
    by (auto simp: br_avail_def [of avail "BufReader_consume n b'"]) (simp add: BufReader_consume_def)
next
  case (4 b)
  then show ?case using br_consume [of inv b 0] by (auto simp: br_avail_def BufReader_consume_def)
qed

text \<open>The byte slice brings its own \<open>read_buf\<close>; the cursor uses the provided one.\<close>

lemma rb_append_initialized: "rb_append bs rb = Some rb' \<Longrightarrow> rb_initialized rb \<le> rb_initialized rb'"
  by (auto simp: rb_append_def add_filled_def set_filled_def assume_init_def store_unfilled_def split: if_splits)

interpretation slice_rb: rb_reader "\<lambda>_. True" "\<lambda>s. s" "\<lambda>_. 0" slice_read slice_read_buf
proof (unfold_locales, goal_cases)
  case (1 s rb old)
  let ?n = "min (remaining rb) (length s)"
  have "length (take ?n s) \<le> remaining rb" by simp
  from rb_append_ok [OF 1(2) this 1(3)] obtain rb' where a: "rb_append (take ?n s) rb = Some rb'" "rb_inv rb'"
    "rb_capacity rb' = rb_capacity rb" "filled rb' = Some (old @ take ?n s)" "rb_filled rb' = rb_filled rb + length (take ?n s)" .
  have "?n = 0 \<longrightarrow> remaining rb = 0 \<or> s = []" by (auto simp: min_def split: if_splits)
  moreover have "length (take ?n s) = ?n" "?n \<le> remaining rb" "?n \<le> length s" by simp_all
  ultimately show ?case using a rb_append_initialized [OF a(1)] unfolding slice_read_buf_def Let_def by fastforce
qed

interpretation cursor_rb: rb_reader cursor_inv remaining_slice "\<lambda>_. 0" Cursor_read "default_read_buf Cursor_read"
  by unfold_locales (rule cursor_rd.default_read_buf_total)

interpretation slice_rbf: reader_buffered "\<lambda>_. True" "\<lambda>s. s" "\<lambda>_. 0" slice_read slice_read_buf
  by unfold_locales

interpretation cursor_rbf: reader_buffered cursor_inv remaining_slice "\<lambda>_. 0" Cursor_read "default_read_buf Cursor_read"
  by unfold_locales

text \<open>An error of the inner reader that no loop retries.\<close>

definition br_own_error :: "('r \<Rightarrow> bool) \<Rightarrow> 'r read_op \<Rightarrow> 'r read_buf_op \<Rightarrow> io_error \<Rightarrow> bool" where
  "br_own_error I rd rdb e \<longleftrightarrow> \<not> interrupted e \<and>
     ((\<exists>buf s buf' s'. I s \<and> rd buf s = (Inl e, buf', s')) \<or> (\<exists>rb s rb' s'. I s \<and> rdb rb s = Some (Inl e, rb', s')))"

lemma fill_buf_error:
  "BufReader_fill_buf rdb b = Some (Inl e, b') \<Longrightarrow> \<exists>rb rb' s'. rdb rb (br_inner b) = Some (Inl e, rb', s')"
  by (auto simp: BufReader_fill_buf_def Let_def split: if_splits option.splits prod.splits sum.splits)

context reader_buffered begin

lemma br_own: "br.own_error e \<Longrightarrow> br_own_error inv rd rdb e"
proof -
  assume e: "br.own_error e"
  then obtain buf b buf' b' where x: "\<not> interrupted e" "br_inv inv b" "the (BufReader_read rd rdb buf b) = (Inl e, buf', b')"
    unfolding br.own_error_def by blast
  then have r: "BufReader_read rd rdb buf b = Some (Inl e, buf', b')" using r.br_read_total [OF x(2), of buf] by auto
  have "inv (br_inner b)" using x(2) by (simp add: br_inv_def)
  then show ?thesis
    using r x(1) fill_buf_error [of rdb b e]
    by (auto simp: BufReader_read_def br_own_error_def discard_buffer_def slice_read_def Let_def
        split: if_splits option.splits prod.splits sum.splits)
qed

lemma br_read_exact_total:
  assumes b: "br_inv inv b"
  shows "\<exists>r buf' b' k. BufReader_read_exact rd rdb buf b = Some (r, buf', b') \<and> br_inv inv b' \<and> length buf' = length buf
     \<and> k \<le> length buf \<and> k \<le> length (br_avail avail b) \<and> take k buf' = take k (br_avail avail b)
     \<and> br_avail avail b' = drop k (br_avail avail b)
     \<and> (r = Inr () \<and> k = length buf \<or>
        (\<exists>e. r = Inl e \<and> k < length buf \<and> (e = eof_error \<and> k = length (br_avail avail b) \<or> br_own_error inv rd rdb e)))"
proof (cases "length (br_ahead b) \<ge> length buf")
  case True
  have "br_inv inv (BufReader_consume (length buf) b)"
    "br_avail avail (BufReader_consume (length buf) b) = drop (length buf) (br_avail avail b)"
    using br_consume [OF b True] True by (simp_all add: br_avail_def)
  then show ?thesis
    using True br_buffer [OF b] by (simp add: BufReader_read_exact_def br_avail_def [of avail b])
next
  case False
  then have "BufReader_read_exact rd rdb buf b = default_read_exact (\<lambda>buf b. the (BufReader_read rd rdb buf b)) buf b"
    using br_buffer [OF b] by (simp add: BufReader_read_exact_def)
  then show ?thesis using br.read_exact_total [OF b, of buf] br_own by metis
qed

end

text \<open>A new buffered reader has the stream of its inner reader before it.\<close>

lemma br_new:
  "I s \<Longrightarrow> capacity < USIZE \<Longrightarrow>
   br_inv I (BufReader_with_capacity capacity s) \<and> br_avail A (BufReader_with_capacity capacity s) = A s"
  by (simp add: br_inv_def BufReader_with_capacity_def br_avail_def br_ahead_def)

text \<open>A caller that fills buffers of the given sizes one after the other with \<open>read_exact\<close>.\<close>

fun br_chunks ::
  "'r read_op \<Rightarrow> 'r read_buf_op \<Rightarrow> nat list \<Rightarrow> 'r buf_reader \<Rightarrow> (bytes list \<times> io_error option) option" where
  "br_chunks rd rdb [] b = Some ([], None)"
| "br_chunks rd rdb (n # ns) b =
     (case BufReader_read_exact rd rdb (replicate n 0) b of
        None \<Rightarrow> None
      | Some (Inl e, _, b') \<Rightarrow> Some ([], Some e)
      | Some (Inr _, bs, b') \<Rightarrow> map_option (\<lambda>(bss, r). (bs # bss, r)) (br_chunks rd rdb ns b'))"

context reader_buffered begin

lemma br_chunks_total:
  "br_inv inv b \<Longrightarrow> \<exists>bss e rest. br_chunks rd rdb ns b = Some (bss, e)
     \<and> map length bss = take (length bss) ns \<and> br_avail avail b = concat bss @ rest
     \<and> (e = None \<and> length bss = length ns
        \<or> (\<exists>x. e = Some x \<and> length bss < length ns \<and> (x = eof_error \<and> length rest < ns ! length bss \<or> br_own_error inv rd rdb x)))"
proof (induction ns arbitrary: b)
  case (Cons n ns)
  from br_read_exact_total [OF Cons.prems, of "replicate n 0"] obtain r buf' b' k where
    x: "BufReader_read_exact rd rdb (replicate n 0) b = Some (r, buf', b')" "br_inv inv b'" "length buf' = n"
      "k \<le> length (br_avail avail b)" "take k buf' = take k (br_avail avail b)" "br_avail avail b' = drop k (br_avail avail b)"
      "r = Inr () \<and> k = n \<or> (\<exists>e. r = Inl e \<and> k < n \<and> (e = eof_error \<and> k = length (br_avail avail b) \<or> br_own_error inv rd rdb e))"
    by auto
  show ?case
  proof (cases r)
    case (Inl e)
    then show ?thesis using x by (intro exI [of _ "[]"] exI [of _ "Some e"] exI [of _ "br_avail avail b"]) auto
  next
    case (Inr u)
    then have a: "br_avail avail b = buf' @ br_avail avail b'" using x by (metis append_take_drop_id sum.simps(4) take_all_iff order.refl)
    from Cons.IH [OF x(2)] obtain bss e rest where
      "br_chunks rd rdb ns b' = Some (bss, e)" "map length bss = take (length bss) ns" "br_avail avail b' = concat bss @ rest"
      "e = None \<and> length bss = length ns
        \<or> (\<exists>x. e = Some x \<and> length bss < length ns \<and> (x = eof_error \<and> length rest < ns ! length bss \<or> br_own_error inv rd rdb x))"
      by blast
    then show ?thesis using x(1,3) a Inr by (intro exI [of _ "buf' # bss"] exI [of _ e] exI [of _ rest]) auto
  qed
qed simp

end

text \<open>
  C23. A \<open>BufReader\<close> of any capacity over any reader that keeps the contract of \<open>Read\<close> shows the same stream:
  the buffers a caller fills one after the other with \<open>read_exact\<close> hold the bytes of the inner stream in
  order, with none lost, repeated or left uninitialised.  It always returns; it fails only with
  \<open>UnexpectedEof\<close>, when fewer bytes are left than the next buffer needs, or with an error of the inner
  reader that is not an interruption.
\<close>
theorem bufreader_shows_the_stream:
  assumes "rb_reader I avail rank rd rdb" "I s" "capacity < USIZE"
  shows "\<exists>bss e rest. br_chunks rd rdb ns (BufReader_with_capacity capacity s) = Some (bss, e)
     \<and> map length bss = take (length bss) ns \<and> avail s = concat bss @ rest
     \<and> (e = None \<and> length bss = length ns
        \<or> (\<exists>x. e = Some x \<and> length bss < length ns \<and> (x = eof_error \<and> length rest < ns ! length bss \<or> br_own_error I rd rdb x)))"
proof -
  have "reader_buffered I avail rank rd rdb" using assms(1) by (simp add: reader_buffered_def)
  from reader_buffered.br_chunks_total [OF this, of "BufReader_with_capacity capacity s" ns] show ?thesis
    using br_new [of I s capacity avail] assms(2,3) by simp
qed

theorem bufreader_shows_the_stream_witness:
  "\<exists>bss e rest. br_chunks slice_read slice_read_buf [1, 2, 4] (BufReader_with_capacity 2 [1, 2, 3, 4]) = Some (bss, e)
     \<and> map length bss = take (length bss) [1, 2, 4] \<and> [1, 2, 3, 4] = concat bss @ rest
     \<and> (e = None \<and> length bss = length [1, 2, 4 :: nat]
        \<or> (\<exists>x. e = Some x \<and> length bss < length [1, 2, 4 :: nat]
             \<and> (x = eof_error \<and> length rest < [1, 2, 4] ! length bss \<or> br_own_error (\<lambda>_. True) slice_read slice_read_buf x)))"
proof (rule bufreader_shows_the_stream [where avail = "\<lambda>s. s"])
  show "rb_reader (\<lambda>_. True) (\<lambda>s. s) (\<lambda>_. 0) slice_read slice_read_buf" by (rule slice_rb.rb_reader_axioms)
qed simp_all

end
