(* ===== verification/Trts.thy ===== *)
theory Trts
  imports Sgx_Types
begin

text \<open>
  \<open>sgx_trts\<close>: the enclave-range predicates and the random source (trts.rs), which wrap functions
  of Intel's runtime, and the constant-time comparison of memeq.rs.  The wrapped C functions are
  fields of \<open>trts_ext\<close>: the development never defines them.
\<close>

section \<open>Functions of the Intel runtime\<close>

record trts_ext =
  sgx_is_within_enclave :: "u64 \<Rightarrow> nat \<Rightarrow> int"
  sgx_is_outside_enclave :: "u64 \<Rightarrow> nat \<Rightarrow> int"
  sgx_read_rand :: "nat \<Rightarrow> sgx_status_t \<times> bytes"

text \<open>A slice or a boxed slice of bytes: its address and its contents.\<close>

record slice =
  sl_ptr :: u64
  sl_data :: bytes

abbreviation sl_len :: "slice \<Rightarrow> nat" where
  "sl_len s \<equiv> length (sl_data s)"

text \<open>\<open>Box::<[u8]>::default()\<close>: no bytes, at the dangling address of alignment one.\<close>

definition empty_box :: slice where
  "empty_box = \<lparr> sl_ptr = 1, sl_data = [] \<rparr>"

lemma sl_data_empty_box [simp]: "sl_data empty_box = []"
  by (simp add: empty_box_def)

section \<open>trts.rs\<close>

definition rsgx_raw_is_within_enclave :: "'z trts_ext_scheme \<Rightarrow> u64 \<Rightarrow> nat \<Rightarrow> bool" where
  "rsgx_raw_is_within_enclave env addr sz \<longleftrightarrow> sgx_is_within_enclave env addr sz \<noteq> 0"

definition rsgx_raw_is_outside_enclave :: "'z trts_ext_scheme \<Rightarrow> u64 \<Rightarrow> nat \<Rightarrow> bool" where
  "rsgx_raw_is_outside_enclave env addr sz \<longleftrightarrow> sgx_is_outside_enclave env addr sz \<noteq> 0"

definition rsgx_slice_is_within_enclave :: "'z trts_ext_scheme \<Rightarrow> slice \<Rightarrow> bool" where
  "rsgx_slice_is_within_enclave env s = rsgx_raw_is_within_enclave env (sl_ptr s) (sl_len s)"

definition rsgx_slice_is_outside_enclave :: "'z trts_ext_scheme \<Rightarrow> slice \<Rightarrow> bool" where
  "rsgx_slice_is_outside_enclave env s = rsgx_raw_is_outside_enclave env (sl_ptr s) (sl_len s)"

text \<open>\<open>rsgx_data_is_within_enclave\<close> of a reference: its address and the size of its type.\<close>

definition rsgx_data_is_within_enclave :: "'z trts_ext_scheme \<Rightarrow> u64 \<Rightarrow> nat \<Rightarrow> bool" where
  "rsgx_data_is_within_enclave env addr sz = rsgx_raw_is_within_enclave env addr sz"

definition rsgx_read_rand :: "'z trts_ext_scheme \<Rightarrow> nat \<Rightarrow> bytes SgxResult" where
  "rsgx_read_rand env n =
     (case sgx_read_rand env n of (ret, bs) \<Rightarrow> sgx_result ret bs)"

section \<open>memeq.rs\<close>

text \<open>
  The loop of \<open>consttime_memequal\<close> runs from the last byte down and collects the differences in a
  32-bit accumulator; it has no exit on a difference.
\<close>

fun memequal_loop :: "bytes \<Rightarrow> bytes \<Rightarrow> nat \<Rightarrow> u32 \<Rightarrow> u32" where
  "memequal_loop p1 p2 0 res = res"
| "memequal_loop p1 p2 (Suc len) res = memequal_loop p1 p2 len (res OR ucast (p1 ! len XOR p2 ! len))"

definition consttime_memequal :: "bytes \<Rightarrow> bytes \<Rightarrow> nat \<Rightarrow> u32" where
  "consttime_memequal b1 b2 l = 1 AND signed_drop_bit 8 (memequal_loop (take l b1) (take l b2) l 0 - 1)"

definition consttime_memeq_slice :: "slice \<Rightarrow> slice \<Rightarrow> bool" where
  "consttime_memeq_slice self other =
     (if sl_len self \<noteq> sl_len other then False
      else if sl_ptr self = sl_ptr other then True
      else consttime_memequal (sl_data self) (sl_data other) (sl_len self) \<noteq> 0)"

text \<open>The second instance compares the byte images of two values of one type.\<close>

definition consttime_memeq :: "bytes \<Rightarrow> bytes \<Rightarrow> bool" where
  "consttime_memeq self other =
     (if length self = 0 then True else consttime_memequal self other (length self) \<noteq> 0)"

lemma ucast_u8_u32_eq_0 [simp]: "(ucast (x :: u8) :: u32) = 0 \<longleftrightarrow> x = 0"
  by (auto simp: bit_eq_iff bit_simps) (use bit_imp_le_length [of x] in fastforce)

lemma word_xor_eq_0 [simp]: "(x :: 'a::len word) XOR y = 0 \<longleftrightarrow> x = y"
  by (auto simp: bit_eq_iff bit_simps)

lemma ucast_or_u8_u32: "(ucast (x :: u8) :: u32) OR ucast (y :: u8) = ucast (x OR y)"
  by (auto simp: bit_eq_iff bit_simps)

lemma memequal_loop_zero:
  "memequal_loop p1 p2 n res = 0 \<longleftrightarrow> res = 0 \<and> (\<forall>i<n. p1 ! i = p2 ! i)"
proof (induction n arbitrary: res)
  case 0
  then show ?case by simp
next
  case (Suc n)
  have "(res OR ucast (p1 ! n XOR p2 ! n) = 0) \<longleftrightarrow> res = 0 \<and> p1 ! n = p2 ! n"
    by (auto simp: or_eq_0_iff)
  then show ?case
    using Suc.IH by (auto simp: less_Suc_eq)
qed

lemma memequal_loop_byte: "\<exists>v :: u8. memequal_loop p1 p2 n (ucast (r :: u8)) = ucast v"
  by (induction n arbitrary: r) (auto simp: ucast_or_u8_u32)

lemma memequal_final:
  "1 AND signed_drop_bit 8 ((ucast (v :: u8) :: u32) - 1) = (if v = 0 then 1 else 0)"
proof (cases "v = 0")
  case True
  then show ?thesis by simp
next
  case False
  define k where "k = uint v"
  have "uint v \<noteq> 0" using False by (simp add: uint_0_iff)
  then have k: "0 < k"
    using uint_nonnegative [of v] unfolding k_def by linarith
  have k': "k < 256"
    using uint_bounded [of v] by (simp add: k_def)
  have "(ucast v :: u32) - 1 = word_of_int (k - 1)"
    by (simp add: k_def)
  moreover have "sint (word_of_int (k - 1) :: u32) = k - 1"
    unfolding sint_sbintrunc' using k k' by (intro signed_take_bit_int_eq_self) simp_all
  moreover have "drop_bit 8 (k - 1) = 0"
    using k k' by (simp add: drop_bit_eq_div)
  ultimately have "sint (signed_drop_bit 8 ((ucast v :: u32) - 1)) = 0"
    by (simp only: sint_signed_drop_bit_eq)
  then have "signed_drop_bit 8 ((ucast v :: u32) - 1) = 0"
    by (simp only: signed_eq_0_iff)
  then show ?thesis
    using False by simp
qed

lemma consttime_memequal_eq:
  assumes "l \<le> length b1" and "l \<le> length b2"
  shows "consttime_memequal b1 b2 l = (if take l b1 = take l b2 then 1 else 0)"
proof -
  obtain v :: u8 where v: "memequal_loop (take l b1) (take l b2) l 0 = ucast v"
    using memequal_loop_byte [of "take l b1" "take l b2" l 0] by auto
  have "v = 0 \<longleftrightarrow> (\<forall>i<l. take l b1 ! i = take l b2 ! i)"
    using memequal_loop_zero [of "take l b1" "take l b2" l 0] v by simp
  also have "\<dots> \<longleftrightarrow> take l b1 = take l b2"
  proof
    assume "\<forall>i<l. take l b1 ! i = take l b2 ! i"
    then show "take l b1 = take l b2"
      using assms by (intro nth_equalityI) simp_all
  qed simp
  finally show ?thesis
    by (simp only: consttime_memequal_def v memequal_final)
qed

text \<open>
  C29.  The constant-time comparison of two equally sized byte images is exactly equality: the
  branch-free arithmetic on the 32-bit accumulator neither misses a difference nor invents one.
\<close>

theorem consttime_memeq_correct:
  assumes "length a = length b"
  shows "consttime_memeq a b \<longleftrightarrow> a = b"
  using assms consttime_memequal_eq [of "length a" a b]
  by (auto simp: consttime_memeq_def)

theorem consttime_memeq_correct_witness:
  "length [1, 2, 0x80 :: u8] = length [1, 2, 0 :: u8]
     \<and> consttime_memeq [1, 2, 0x80] [1, 2, 0] = ([1, 2, 0x80 :: u8] = [1, 2, 0])
     \<and> \<not> consttime_memeq [1, 2, 0x80] [1, 2, 0]"
  using consttime_memeq_correct [of "[1, 2, 0x80]" "[1, 2, 0]"] by simp

text \<open>
  The slice instance first takes the shortcut on equal addresses; it is sound because two slices
  at one address with one length hold the same bytes.
\<close>

lemma consttime_memeq_slice_correct:
  assumes "sl_ptr a = sl_ptr b \<and> sl_len a = sl_len b \<longrightarrow> sl_data a = sl_data b"
  shows "consttime_memeq_slice a b \<longleftrightarrow> sl_data a = sl_data b"
  using assms consttime_memequal_eq [of "sl_len a" "sl_data a" "sl_data b"]
  by (auto simp: consttime_memeq_slice_def split: if_splits)

end
