(* ===== verification/Tse.thy ===== *)
theory Tse
  imports Trts
begin

text \<open>
  \<open>sgx_tse\<close> (se.rs): reports and keys.  The instructions EREPORT and EGETKEY behind
  \<open>sgx_create_report\<close>, \<open>sgx_verify_report\<close>, \<open>sgx_get_key\<close> and \<open>sgx_self_report\<close> are fields of the
  environment; a C function with an out-parameter gives its status and what it stored there.
\<close>

record tse_ext = trts_ext +
  sgx_create_report :: "bytes \<Rightarrow> bytes \<Rightarrow> sgx_status_t \<times> sgx_report_t"
  sgx_verify_report :: "sgx_report_t \<Rightarrow> sgx_status_t"
  sgx_get_key :: "sgx_key_request_t \<Rightarrow> sgx_status_t \<times> bytes"
  sgx_self_report :: sgx_report_t

definition rsgx_create_report :: "'z tse_ext_scheme \<Rightarrow> bytes \<Rightarrow> bytes \<Rightarrow> sgx_report_t SgxResult" where
  "rsgx_create_report env target_info report_data =
     (case sgx_create_report env target_info report_data of (ret, report) \<Rightarrow> sgx_result ret report)"

definition rsgx_verify_report :: "'z tse_ext_scheme \<Rightarrow> sgx_report_t \<Rightarrow> SgxError" where
  "rsgx_verify_report env report = sgx_result (sgx_verify_report env report) ()"

definition rsgx_get_key :: "'z tse_ext_scheme \<Rightarrow> sgx_key_request_t \<Rightarrow> bytes SgxResult" where
  "rsgx_get_key env key_request =
     (case sgx_get_key env key_request of (ret, key) \<Rightarrow> sgx_result ret key)"

text \<open>
  \<open>sgx_align_key_128bit_t\<close> is a key behind padding that places it in its cache line; the key field
  is all the callers use.
\<close>

definition rsgx_get_align_key :: "'z tse_ext_scheme \<Rightarrow> sgx_key_request_t \<Rightarrow> bytes SgxResult" where
  "rsgx_get_align_key env key_request =
     (case sgx_get_key env key_request of (ret, key) \<Rightarrow> sgx_result ret key)"

definition rsgx_self_report :: "'z tse_ext_scheme \<Rightarrow> sgx_report_t" where
  "rsgx_self_report env = sgx_self_report env"

lemma rsgx_get_align_key_Inr_iff:
  "rsgx_get_align_key env kr = Inr key \<longleftrightarrow> sgx_get_key env kr = (SGX_SUCCESS, key)"
  by (auto simp: rsgx_get_align_key_def split: prod.split)

end
