(* ===== verification/Tcrypto.thy ===== *)
theory Tcrypto
  imports Tse
begin

text \<open>
  \<open>sgx_tcrypto\<close> (crypto.rs), the one-shot functions: AES-128-GCM and AES-128-CMAC.  The C functions
  behind them are fields of the environment.  A pointer argument is an option (\<open>None\<close> is the null
  pointer); an out-buffer is returned as the bytes stored at its start.
\<close>

section \<open>C functions\<close>

record tcrypto_ext = tse_ext +
  sgx_rijndael128GCM_encrypt ::
    "bytes \<Rightarrow> bytes option \<Rightarrow> u32 \<Rightarrow> bytes option \<Rightarrow> bytes \<Rightarrow> u32 \<Rightarrow> bytes option \<Rightarrow> u32
       \<Rightarrow> sgx_status_t \<times> bytes \<times> bytes"
  sgx_rijndael128GCM_decrypt ::
    "bytes \<Rightarrow> bytes option \<Rightarrow> u32 \<Rightarrow> bytes option \<Rightarrow> bytes \<Rightarrow> u32 \<Rightarrow> bytes option \<Rightarrow> u32 \<Rightarrow> bytes
       \<Rightarrow> sgx_status_t \<times> bytes"
  sgx_rijndael128_cmac_msg :: "bytes \<Rightarrow> bytes \<Rightarrow> u32 \<Rightarrow> sgx_status_t \<times> bytes"

section \<open>AES-GCM\<close>

text \<open>\<open>if xs.is_empty() { ptr::null() } else { xs.as_ptr() }\<close>\<close>

definition ptr_or_null :: "bytes \<Rightarrow> bytes option" where
  "ptr_or_null xs = (if length xs \<noteq> 0 then Some xs else None)"

text \<open>
  Both functions return the status together with the final contents of their \<open>&mut\<close> arguments.
  With an empty source the destination pointer handed to C is null, so nothing is stored.
\<close>

definition rsgx_rijndael128GCM_encrypt ::
  "'z tcrypto_ext_scheme \<Rightarrow> bytes \<Rightarrow> bytes \<Rightarrow> bytes \<Rightarrow> bytes \<Rightarrow> bytes \<Rightarrow> bytes \<Rightarrow> SgxError \<times> bytes \<times> bytes" where
  "rsgx_rijndael128GCM_encrypt env key src iv aad dst mac =
     (let src_len = length src; iv_len = length iv; aad_len = length aad; dst_len = length dst in
      if src_len > MAX32 then (Inl SGX_ERROR_INVALID_PARAMETER, dst, mac)
      else if iv_len \<noteq> SGX_AESGCM_IV_SIZE then (Inl SGX_ERROR_INVALID_PARAMETER, dst, mac)
      else if aad_len > MAX32 then (Inl SGX_ERROR_INVALID_PARAMETER, dst, mac)
      else if dst_len > MAX32 then (Inl SGX_ERROR_INVALID_PARAMETER, dst, mac)
      else if dst_len < src_len then (Inl SGX_ERROR_INVALID_PARAMETER, dst, mac)
      else
        let p_aad = ptr_or_null aad;
            (p_src, p_dst) = (if src_len \<noteq> 0 then (Some src, Some dst) else (None, None));
            (ret, out, mac') = sgx_rijndael128GCM_encrypt env key p_src (of_nat src_len) p_dst iv
               (of_nat iv_len) p_aad (of_nat aad_len);
            dst' = (case p_dst of None \<Rightarrow> dst | Some d \<Rightarrow> write_at 0 out d)
        in (sgx_result ret (), dst', mac'))"

definition rsgx_rijndael128GCM_decrypt ::
  "'z tcrypto_ext_scheme \<Rightarrow> bytes \<Rightarrow> bytes \<Rightarrow> bytes \<Rightarrow> bytes \<Rightarrow> bytes \<Rightarrow> bytes \<Rightarrow> SgxError \<times> bytes" where
  "rsgx_rijndael128GCM_decrypt env key src iv aad mac dst =
     (let src_len = length src; iv_len = length iv; aad_len = length aad; dst_len = length dst in
      if src_len > MAX32 then (Inl SGX_ERROR_INVALID_PARAMETER, dst)
      else if iv_len \<noteq> SGX_AESGCM_IV_SIZE then (Inl SGX_ERROR_INVALID_PARAMETER, dst)
      else if aad_len > MAX32 then (Inl SGX_ERROR_INVALID_PARAMETER, dst)
      else if dst_len > MAX32 then (Inl SGX_ERROR_INVALID_PARAMETER, dst)
      else if dst_len < src_len then (Inl SGX_ERROR_INVALID_PARAMETER, dst)
      else
        let p_aad = ptr_or_null aad;
            (p_src, p_dst) = (if src_len \<noteq> 0 then (Some src, Some dst) else (None, None));
            (ret, out) = sgx_rijndael128GCM_decrypt env key p_src (of_nat src_len) p_dst iv
               (of_nat iv_len) p_aad (of_nat aad_len) mac;
            dst' = (case p_dst of None \<Rightarrow> dst | Some d \<Rightarrow> write_at 0 out d)
        in (sgx_result ret (), dst'))"

section \<open>AES-CMAC\<close>

definition rsgx_rijndael128_cmac_msg :: "'z tcrypto_ext_scheme \<Rightarrow> bytes \<Rightarrow> bytes \<Rightarrow> bytes SgxResult" where
  "rsgx_rijndael128_cmac_msg env key src =
     (let sz = length src in
      if sz = 0 then Inl SGX_ERROR_INVALID_PARAMETER
      else if sz > MAX32 then Inl SGX_ERROR_INVALID_PARAMETER
      else case sgx_rijndael128_cmac_msg env key src (of_nat sz) of (ret, mac) \<Rightarrow> sgx_result ret mac)"

definition rsgx_rijndael128_cmac_slice :: "'z tcrypto_ext_scheme \<Rightarrow> bytes \<Rightarrow> bytes \<Rightarrow> bytes SgxResult" where
  "rsgx_rijndael128_cmac_slice env key src =
     (let sz = length src in
      if sz = 0 then Inl SGX_ERROR_INVALID_PARAMETER
      else if sz > MAX32 then Inl SGX_ERROR_INVALID_PARAMETER
      else case sgx_rijndael128_cmac_msg env key src (of_nat sz) of (ret, mac) \<Rightarrow> sgx_result ret mac)"

definition rsgx_rijndael128_align_cmac_slice :: "'z tcrypto_ext_scheme \<Rightarrow> bytes \<Rightarrow> bytes \<Rightarrow> bytes SgxResult" where
  "rsgx_rijndael128_align_cmac_slice env key src =
     (let sz = length src in
      if sz = 0 then Inl SGX_ERROR_INVALID_PARAMETER
      else if sz > MAX32 then Inl SGX_ERROR_INVALID_PARAMETER
      else case sgx_rijndael128_cmac_msg env key src (of_nat sz) of (ret, mac) \<Rightarrow> sgx_result ret mac)"

section \<open>What callers rely on\<close>

text \<open>
  The calls of the C functions that the two wrappers make, with the null pointers they pass for
  empty inputs.
\<close>

definition c_encrypt :: "'z tcrypto_ext_scheme \<Rightarrow> bytes \<Rightarrow> bytes \<Rightarrow> bytes \<Rightarrow> bytes \<Rightarrow> bytes \<Rightarrow> sgx_status_t \<times> bytes \<times> bytes" where
  "c_encrypt env key iv aad d src =
     sgx_rijndael128GCM_encrypt env key (ptr_or_null src) (of_nat (length src))
       (if src = [] then None else Some d) iv (of_nat (length iv)) (ptr_or_null aad) (of_nat (length aad))"

definition c_decrypt :: "'z tcrypto_ext_scheme \<Rightarrow> bytes \<Rightarrow> bytes \<Rightarrow> bytes \<Rightarrow> bytes \<Rightarrow> bytes \<Rightarrow> bytes \<Rightarrow> sgx_status_t \<times> bytes" where
  "c_decrypt env key iv aad d src mac =
     sgx_rijndael128GCM_decrypt env key (ptr_or_null src) (of_nat (length src))
       (if src = [] then None else Some d) iv (of_nat (length iv)) (ptr_or_null aad) (of_nat (length aad)) mac"

text \<open>
  The documented behaviour of AES-GCM: a successful call stores as many bytes as it reads, the tag
  has 16 bytes, and decryption succeeds exactly when the tag is the one that encryption computes for
  the plaintext it stores, under the same key, nonce and associated data.
\<close>

definition gcm_spec :: "'z tcrypto_ext_scheme \<Rightarrow> bool" where
  "gcm_spec env \<longleftrightarrow>
     (\<forall>key iv aad d pt ct tag. c_encrypt env key iv aad d pt = (SGX_SUCCESS, ct, tag) \<longrightarrow>
        length ct = length pt \<and> length tag = SGX_SEAL_TAG_SIZE) \<and>
     (\<forall>key iv aad d pt ct tag. c_decrypt env key iv aad d ct tag = (SGX_SUCCESS, pt) \<longrightarrow>
        length pt = length ct) \<and>
     (\<forall>key iv aad d d' pt ct tag.
        c_decrypt env key iv aad d ct tag = (SGX_SUCCESS, pt) \<longleftrightarrow>
        c_encrypt env key iv aad d' pt = (SGX_SUCCESS, ct, tag))"

text \<open>
  The contract sealing relies on, over operations that allocate their own zeroed output buffers.
\<close>

locale aead =
  fixes spec :: "'e \<Rightarrow> bool"
    and enc :: "'e \<Rightarrow> bytes \<Rightarrow> bytes \<Rightarrow> bytes \<Rightarrow> bytes \<Rightarrow> (bytes \<times> bytes) SgxResult"
    and dec :: "'e \<Rightarrow> bytes \<Rightarrow> bytes \<Rightarrow> bytes \<Rightarrow> bytes \<Rightarrow> bytes \<Rightarrow> bytes SgxResult"
  assumes enc_length: "spec env \<Longrightarrow> enc env key iv aad pt = Inr (ct, tag) \<Longrightarrow>
      length ct = length pt \<and> length tag = SGX_SEAL_TAG_SIZE"
    and dec_iff: "spec env \<Longrightarrow>
      dec env key iv aad ct tag = Inr pt \<longleftrightarrow> enc env key iv aad pt = Inr (ct, tag)"
begin

lemma dec_enc: "spec env \<Longrightarrow> enc env key iv aad pt = Inr (ct, tag) \<Longrightarrow> dec env key iv aad ct tag = Inr pt"
  by (simp add: dec_iff)

lemma dec_length: "spec env \<Longrightarrow> dec env key iv aad ct tag = Inr pt \<Longrightarrow> length pt = length ct"
  using enc_length dec_iff by fastforce

lemma dec_unique:
  assumes "spec env"
    and "dec env key iv aad ct tag = Inr pt"
    and "dec env key iv aad ct' tag' = Inr pt"
  shows "ct = ct' \<and> tag = tag'"
  using assms by (simp add: dec_iff)

end

definition gcm_enc :: "'z tcrypto_ext_scheme \<Rightarrow> bytes \<Rightarrow> bytes \<Rightarrow> bytes \<Rightarrow> bytes \<Rightarrow> (bytes \<times> bytes) SgxResult" where
  "gcm_enc env key iv aad pt =
     (case rsgx_rijndael128GCM_encrypt env key pt iv aad (replicate (length pt) 0) (replicate SGX_SEAL_TAG_SIZE 0)
      of (r, dst, mac) \<Rightarrow> map_ok (\<lambda>_. (dst, mac)) r)"

definition gcm_dec :: "'z tcrypto_ext_scheme \<Rightarrow> bytes \<Rightarrow> bytes \<Rightarrow> bytes \<Rightarrow> bytes \<Rightarrow> bytes \<Rightarrow> bytes SgxResult" where
  "gcm_dec env key iv aad ct tag =
     (case rsgx_rijndael128GCM_decrypt env key ct iv aad tag (replicate (length ct) 0)
      of (r, dst) \<Rightarrow> map_ok (\<lambda>_. dst) r)"

lemma write_at_whole: "length out = length d \<Longrightarrow> write_at 0 out d = out"
  by (simp add: write_at_def)

lemma gcm_spec_enc_length:
  "gcm_spec env \<Longrightarrow> c_encrypt env key iv aad d pt = (SGX_SUCCESS, ct, tag) \<Longrightarrow>
     length ct = length pt \<and> length tag = SGX_SEAL_TAG_SIZE"
  unfolding gcm_spec_def by (drule conjunct1) simp

lemma gcm_spec_dec_length:
  "gcm_spec env \<Longrightarrow> c_decrypt env key iv aad d ct tag = (SGX_SUCCESS, pt) \<Longrightarrow> length pt = length ct"
  unfolding gcm_spec_def by blast

lemma gcm_spec_dec_iff:
  "gcm_spec env \<Longrightarrow> c_decrypt env key iv aad d ct tag = (SGX_SUCCESS, pt) \<longleftrightarrow>
     c_encrypt env key iv aad d' pt = (SGX_SUCCESS, ct, tag)"
  unfolding gcm_spec_def by blast

lemma gcm_enc_eq:
  "gcm_enc env key iv aad pt =
     (if length pt > MAX32 \<or> length iv \<noteq> 12 \<or> length aad > MAX32 then Inl SGX_ERROR_INVALID_PARAMETER
      else case c_encrypt env key iv aad (replicate (length pt) 0) pt of (ret, out, mac) \<Rightarrow>
        sgx_result ret (if pt = [] then [] else write_at 0 out (replicate (length pt) 0), mac))"
  by (cases "pt = []")
    (simp_all add: gcm_enc_def rsgx_rijndael128GCM_encrypt_def Let_def ptr_or_null_def c_encrypt_def
      sgx_result_def split: prod.split)

lemma gcm_dec_eq:
  "gcm_dec env key iv aad ct tag =
     (if length ct > MAX32 \<or> length iv \<noteq> 12 \<or> length aad > MAX32 then Inl SGX_ERROR_INVALID_PARAMETER
      else case c_decrypt env key iv aad (replicate (length ct) 0) ct tag of (ret, out) \<Rightarrow>
        sgx_result ret (if ct = [] then [] else write_at 0 out (replicate (length ct) 0)))"
  by (cases "ct = []")
    (simp_all add: gcm_dec_def rsgx_rijndael128GCM_decrypt_def Let_def ptr_or_null_def c_decrypt_def
      sgx_result_def split: prod.split)

lemma gcm_enc_Inr_iff:
  assumes "gcm_spec env"
  shows "gcm_enc env key iv aad pt = Inr (ct, tag) \<longleftrightarrow>
     length iv = 12 \<and> length pt \<le> MAX32 \<and> length aad \<le> MAX32 \<and>
     c_encrypt env key iv aad (replicate (length pt) 0) pt = (SGX_SUCCESS, ct, tag)"
proof -
  obtain ret out mac where c: "c_encrypt env key iv aad (replicate (length pt) 0) pt = (ret, out, mac)"
    by (cases "c_encrypt env key iv aad (replicate (length pt) 0) pt") auto
  have "(if pt = [] then [] else write_at 0 out (replicate (length pt) 0)) = out" if "ret = SGX_SUCCESS"
    using gcm_spec_enc_length [OF assms c [unfolded that]] by (auto simp: write_at_whole)
  then show ?thesis
    unfolding gcm_enc_eq c by auto
qed

lemma gcm_dec_Inr_iff:
  assumes "gcm_spec env"
  shows "gcm_dec env key iv aad ct tag = Inr pt \<longleftrightarrow>
     length iv = 12 \<and> length ct \<le> MAX32 \<and> length aad \<le> MAX32 \<and>
     c_decrypt env key iv aad (replicate (length ct) 0) ct tag = (SGX_SUCCESS, pt)"
proof -
  obtain ret out where c: "c_decrypt env key iv aad (replicate (length ct) 0) ct tag = (ret, out)"
    by (cases "c_decrypt env key iv aad (replicate (length ct) 0) ct tag") auto
  have "(if ct = [] then [] else write_at 0 out (replicate (length ct) 0)) = out" if "ret = SGX_SUCCESS"
    using gcm_spec_dec_length [OF assms c [unfolded that]] by (auto simp: write_at_whole)
  then show ?thesis
    unfolding gcm_dec_eq c by auto
qed

interpretation gcm: aead gcm_spec gcm_enc gcm_dec
proof
  fix env :: "'z tcrypto_ext_scheme" and key iv aad pt ct tag
  assume spec: "gcm_spec env"
  then show "length ct = length pt \<and> length tag = SGX_SEAL_TAG_SIZE"
    if "gcm_enc env key iv aad pt = Inr (ct, tag)"
    using that gcm_spec_enc_length [OF spec, of key iv aad "replicate (length pt) 0" pt ct tag]
    by (simp add: gcm_enc_Inr_iff [OF spec])
  show "gcm_dec env key iv aad ct tag = Inr pt \<longleftrightarrow> gcm_enc env key iv aad pt = Inr (ct, tag)"
    unfolding gcm_enc_Inr_iff [OF spec] gcm_dec_Inr_iff [OF spec]
    using gcm_spec_dec_iff [OF spec, of key iv aad "replicate (length ct) 0" ct tag pt "replicate (length pt) 0"]
      gcm_spec_dec_length [OF spec, of key iv aad "replicate (length ct) 0" ct tag pt]
    by auto
qed

end
