(* ===== verification/Tseal.thy ===== *)
theory Tseal
  imports Tcrypto
begin

text \<open>
  \<open>sgx_tseal\<close>, the untyped core (internal.rs): sealed blobs, their sizes, sealing and unsealing of
  data and of data that is only authenticated.  The raw C image of a blob is in \<open>Tseal_Raw\<close>, the
  typed interface in \<open>Tseal_Typed\<close>.

  Integers: lengths are \<open>usize\<close> values (naturals), sizes in a blob are 32-bit words whose addition
  wraps.  The address of the \<open>k\<close>-th box an operation allocates is \<open>alloc_addr env k len\<close>.
\<close>

section \<open>Environment and data\<close>

record tseal_ext = tcrypto_ext +
  alloc_addr :: "nat \<Rightarrow> nat \<Rightarrow> u64"
  sgx_calc_sealed_data_size :: "u32 \<Rightarrow> u32 \<Rightarrow> u32"
  sgx_get_add_mac_txt_len :: "bytes \<Rightarrow> u32"
  sgx_get_encrypt_txt_len :: "bytes \<Rightarrow> u32"

definition KEY_POLICY_KSS :: u16 where
  "KEY_POLICY_KSS = SGX_KEYPOLICY_CONFIGID OR SGX_KEYPOLICY_ISVFAMILYID OR SGX_KEYPOLICY_ISVEXTPRODID"

record SgxInternalUnsealedData =
  ud_payload_size :: u32
  ud_decrypt :: slice
  ud_additional :: slice

record SgxPayload =
  pl_payload_size :: u32
  pl_reserved :: bytes
  pl_payload_tag :: bytes
  pl_encrypt :: slice
  pl_additional :: slice

record SgxInternalSealedData =
  sd_key_request :: sgx_key_request_t
  payload_data :: SgxPayload

definition default_key_request :: sgx_key_request_t where
  "default_key_request =
     \<lparr> key_name = 0, key_policy = 0, kr_isv_svn = 0, kr_reserved1 = 0, kr_cpu_svn = replicate 16 0,
       attribute_mask = \<lparr> attr_flags = 0, attr_xfrm = 0 \<rparr>, kr_key_id = replicate 32 0,
       misc_mask = 0, kr_config_svn = 0, kr_reserved2 = replicate 434 0 \<rparr>"

definition SgxInternalSealedData_new :: SgxInternalSealedData where
  "SgxInternalSealedData_new =
     \<lparr> sd_key_request = default_key_request,
       payload_data = \<lparr> pl_payload_size = 0, pl_reserved = replicate 12 0,
         pl_payload_tag = replicate SGX_SEAL_TAG_SIZE 0, pl_encrypt = empty_box, pl_additional = empty_box \<rparr> \<rparr>"

text \<open>\<open>vec.into_boxed_slice()\<close>: an empty vector has no allocation.\<close>

definition new_box :: "'z tseal_ext_scheme \<Rightarrow> nat \<Rightarrow> bytes \<Rightarrow> slice" where
  "new_box env k bs =
     (if bs = [] then empty_box else \<lparr> sl_ptr = alloc_addr env k (length bs), sl_data = bs \<rparr>)"

lemma sl_data_new_box [simp]: "sl_data (new_box env k bs) = bs"
  by (simp add: new_box_def)

abbreviation get_payload_size :: "SgxInternalSealedData \<Rightarrow> u32" where
  "get_payload_size sd \<equiv> pl_payload_size (payload_data sd)"
abbreviation get_payload_tag :: "SgxInternalSealedData \<Rightarrow> bytes" where
  "get_payload_tag sd \<equiv> pl_payload_tag (payload_data sd)"
abbreviation get_encrypt_txt :: "SgxInternalSealedData \<Rightarrow> slice" where
  "get_encrypt_txt sd \<equiv> pl_encrypt (payload_data sd)"
abbreviation get_additional_txt :: "SgxInternalSealedData \<Rightarrow> slice" where
  "get_additional_txt sd \<equiv> pl_additional (payload_data sd)"

section \<open>Sizes\<close>

text \<open>\<open>size_of::<sgx_sealed_data_t>()\<close> and \<open>size_of::<SgxInternalSealedData>()\<close> on the 64-bit target.\<close>

abbreviation SEALED_DATA_SIZE :: nat where "SEALED_DATA_SIZE \<equiv> 560"
abbreviation INTERNAL_SEALED_DATA_SIZE :: nat where "INTERNAL_SEALED_DATA_SIZE \<equiv> 576"

definition calc_raw_sealed_data_size :: "u32 \<Rightarrow> u32 \<Rightarrow> u32" where
  "calc_raw_sealed_data_size add_mac_txt_size encrypt_txt_size =
     (let sealed_data_size = of_nat SEALED_DATA_SIZE in
      if add_mac_txt_size > u32_MAX - encrypt_txt_size then u32_MAX
      else let payload_size = add_mac_txt_size + encrypt_txt_size in
        if payload_size > u32_MAX - sealed_data_size then u32_MAX
        else sealed_data_size + payload_size)"

definition get_add_mac_txt_len :: "SgxInternalSealedData \<Rightarrow> u32" where
  "get_add_mac_txt_len sd =
     (let data_size = sl_len (get_additional_txt sd) in
      if data_size > unat (get_payload_size sd) \<or> data_size \<ge> MAX32 then u32_MAX else of_nat data_size)"

definition get_encrypt_txt_len :: "SgxInternalSealedData \<Rightarrow> u32" where
  "get_encrypt_txt_len sd =
     (let data_size = sl_len (get_encrypt_txt sd) in
      if data_size > unat (get_payload_size sd) \<or> data_size \<ge> MAX32 then u32_MAX else of_nat data_size)"

section \<open>Sealing\<close>

text \<open>
  The two functions that handle the sealing key return, next to the result, what the key variable
  holds when the function is left (\<open>None\<close> when no key was ever obtained).
\<close>

definition seal_data_iv ::
  "'z tseal_ext_scheme \<Rightarrow> slice \<Rightarrow> slice \<Rightarrow> bytes \<Rightarrow> sgx_key_request_t
     \<Rightarrow> SgxInternalSealedData SgxResult \<times> bytes option" where
  "seal_data_iv env additional_text encrypt_text payload_iv key_request =
     (case map_err (\<lambda>ret. if ret \<noteq> SGX_ERROR_OUT_OF_MEMORY then SGX_ERROR_UNEXPECTED else ret)
             (rsgx_get_align_key env key_request) of
        Inl e \<Rightarrow> (Inl e, None)
      | Inr seal_key \<Rightarrow>
          (let sealed_data = SgxInternalSealedData_new;
               encrypt = new_box env 0 (replicate (sl_len encrypt_text) 0);
               (r, dst, mac) = rsgx_rijndael128GCM_encrypt env seal_key (sl_data encrypt_text) payload_iv
                  (sl_data additional_text) (sl_data encrypt) (get_payload_tag sealed_data)
           in case r of
                Inl e \<Rightarrow> (Inl e, Some (replicate 16 0))
              | Inr _ \<Rightarrow>
                  let payload = payload_data sealed_data
                        \<lparr> pl_encrypt := encrypt \<lparr> sl_data := dst \<rparr>, pl_payload_tag := mac,
                          pl_payload_size := of_nat (sl_len encrypt_text + sl_len additional_text) \<rparr>;
                      payload' = (if sl_data additional_text \<noteq> []
                        then payload \<lparr> pl_additional := new_box env 1 (sl_data additional_text) \<rparr> else payload)
                  in (Inr (sealed_data \<lparr> payload_data := payload' \<rparr>), Some (replicate 16 0))))"

text \<open>The guards on the key policy and on the attribute mask, shared by \<open>seal_data_ex\<close> and \<open>mac_aadata_ex\<close>.\<close>

definition key_policy_rejected :: "u16 \<Rightarrow> bool" where
  "key_policy_rejected kp \<longleftrightarrow>
     kp AND NOT (SGX_KEYPOLICY_MRENCLAVE OR SGX_KEYPOLICY_MRSIGNER OR KEY_POLICY_KSS
                  OR SGX_KEYPOLICY_NOISVPRODID) \<noteq> 0
     \<or> kp AND (SGX_KEYPOLICY_MRENCLAVE OR SGX_KEYPOLICY_MRSIGNER) = 0"

definition attribute_mask_rejected :: "sgx_attributes_t \<Rightarrow> bool" where
  "attribute_mask_rejected am \<longleftrightarrow>
     attr_flags am AND SGX_FLAGS_INITTED = 0 \<or> attr_flags am AND SGX_FLAGS_DEBUG = 0"

text \<open>The key request both functions build from the enclave's own report and a random key id.\<close>

definition seal_key_request :: "sgx_report_t \<Rightarrow> u16 \<Rightarrow> sgx_attributes_t \<Rightarrow> u32 \<Rightarrow> bytes \<Rightarrow> sgx_key_request_t" where
  "seal_key_request report kp am mm key_id =
     \<lparr> key_name = SGX_KEYSELECT_SEAL, key_policy = kp, kr_isv_svn = rb_isv_svn (report_body report),
       kr_reserved1 = 0, kr_cpu_svn = rb_cpu_svn (report_body report), attribute_mask = am,
       kr_key_id = key_id, misc_mask = mm, kr_config_svn = rb_config_svn (report_body report),
       kr_reserved2 = replicate 434 0 \<rparr>"

definition seal_data_ex ::
  "'z tseal_ext_scheme \<Rightarrow> u16 \<Rightarrow> sgx_attributes_t \<Rightarrow> u32 \<Rightarrow> slice \<Rightarrow> slice
     \<Rightarrow> SgxInternalSealedData SgxResult" where
  "seal_data_ex env kp am mm additional_text encrypt_text =
     (let additional_len = sl_len additional_text; encrypt_len = sl_len encrypt_text in
      if additional_len \<ge> MAX32 \<or> encrypt_len \<ge> MAX32 then Inl SGX_ERROR_INVALID_PARAMETER
      else if calc_raw_sealed_data_size (of_nat additional_len) (of_nat encrypt_len) = u32_MAX
        then Inl SGX_ERROR_INVALID_PARAMETER
      else if encrypt_len = 0 then Inl SGX_ERROR_INVALID_PARAMETER
      else if key_policy_rejected kp then Inl SGX_ERROR_INVALID_PARAMETER
      else if attribute_mask_rejected am then Inl SGX_ERROR_INVALID_PARAMETER
      else if \<not> rsgx_slice_is_within_enclave env encrypt_text then Inl SGX_ERROR_INVALID_PARAMETER
      else if additional_len > 0 \<and> \<not> rsgx_slice_is_within_enclave env additional_text
              \<and> \<not> rsgx_slice_is_outside_enclave env additional_text
        then Inl SGX_ERROR_INVALID_PARAMETER
      else
        let report = rsgx_self_report env in
        res_bind (rsgx_read_rand env 32) (\<lambda>key_id.
          let key_request = seal_key_request report kp am mm key_id;
              payload_iv = replicate SGX_SEAL_IV_SIZE 0;
              result = fst (seal_data_iv env additional_text encrypt_text payload_iv key_request)
          in map_ok (\<lambda>sealed_data. sealed_data \<lparr> sd_key_request := key_request \<rparr>) result))"

text \<open>The default policy: sealed to the signer, with the KSS fields when the enclave uses KSS.\<close>

definition default_attribute_mask :: sgx_attributes_t where
  "default_attribute_mask = \<lparr> attr_flags = TSEAL_DEFAULT_FLAGSMASK, attr_xfrm = 0 \<rparr>"

definition default_key_policy :: "sgx_report_t \<Rightarrow> u16" where
  "default_key_policy report =
     (if attr_flags (rb_attributes (report_body report)) AND SGX_FLAGS_KSS \<noteq> 0
      then SGX_KEYPOLICY_MRSIGNER OR KEY_POLICY_KSS else SGX_KEYPOLICY_MRSIGNER)"

definition seal_data :: "'z tseal_ext_scheme \<Rightarrow> slice \<Rightarrow> slice \<Rightarrow> SgxInternalSealedData SgxResult" where
  "seal_data env additional_text encrypt_text =
     (let report = rsgx_self_report env in
      seal_data_ex env (default_key_policy report) default_attribute_mask TSEAL_DEFAULT_MISCMASK
        additional_text encrypt_text)"

definition mac_aadata_ex ::
  "'z tseal_ext_scheme \<Rightarrow> u16 \<Rightarrow> sgx_attributes_t \<Rightarrow> u32 \<Rightarrow> slice \<Rightarrow> SgxInternalSealedData SgxResult" where
  "mac_aadata_ex env kp am mm additional_text =
     (let additional_len = sl_len additional_text in
      if additional_len \<ge> MAX32 then Inl SGX_ERROR_INVALID_PARAMETER
      else if calc_raw_sealed_data_size (of_nat additional_len) 0 = u32_MAX
        then Inl SGX_ERROR_INVALID_PARAMETER
      else if additional_len = 0 then Inl SGX_ERROR_INVALID_PARAMETER
      else if key_policy_rejected kp then Inl SGX_ERROR_INVALID_PARAMETER
      else if attribute_mask_rejected am then Inl SGX_ERROR_INVALID_PARAMETER
      else if \<not> rsgx_slice_is_within_enclave env additional_text
              \<and> \<not> rsgx_slice_is_outside_enclave env additional_text
        then Inl SGX_ERROR_INVALID_PARAMETER
      else
        let report = rsgx_self_report env in
        res_bind (rsgx_read_rand env 32) (\<lambda>key_id.
          let key_request = seal_key_request report kp am mm key_id;
              payload_iv = replicate SGX_SEAL_IV_SIZE 0;
              result = fst (seal_data_iv env additional_text empty_box payload_iv key_request)
          in map_ok (\<lambda>sealed_data. sealed_data \<lparr> sd_key_request := key_request \<rparr>) result))"

definition mac_aadata :: "'z tseal_ext_scheme \<Rightarrow> slice \<Rightarrow> SgxInternalSealedData SgxResult" where
  "mac_aadata env additional_text =
     (let report = rsgx_self_report env in
      mac_aadata_ex env (default_key_policy report) default_attribute_mask TSEAL_DEFAULT_MISCMASK
        additional_text)"

section \<open>Unsealing\<close>

definition unseal_data_helper ::
  "'z tseal_ext_scheme \<Rightarrow> SgxInternalSealedData \<Rightarrow> SgxInternalUnsealedData SgxResult \<times> bytes option" where
  "unseal_data_helper env sd =
     (case map_err (\<lambda>ret. if ret = SGX_ERROR_INVALID_CPUSVN \<or> ret = SGX_ERROR_INVALID_ISVSVN
                \<or> ret = SGX_ERROR_OUT_OF_MEMORY then ret else SGX_ERROR_MAC_MISMATCH)
             (rsgx_get_align_key env (sd_key_request sd)) of
        Inl e \<Rightarrow> (Inl e, None)
      | Inr seal_key \<Rightarrow>
          (let payload_iv = replicate SGX_SEAL_IV_SIZE 0;
               decrypt = new_box env 0 (replicate (sl_len (get_encrypt_txt sd)) 0);
               (r, dst) = rsgx_rijndael128GCM_decrypt env seal_key (sl_data (get_encrypt_txt sd)) payload_iv
                  (sl_data (get_additional_txt sd)) (get_payload_tag sd) (sl_data decrypt)
           in case r of
                Inl e \<Rightarrow> (Inl e, Some (replicate 16 0))
              | Inr _ \<Rightarrow>
                  (Inr \<lparr> ud_payload_size = get_payload_size sd, ud_decrypt = decrypt \<lparr> sl_data := dst \<rparr>,
                         ud_additional = (if sl_len (get_additional_txt sd) > 0
                           then new_box env 1 (sl_data (get_additional_txt sd)) else empty_box) \<rparr>,
                   Some (replicate 16 0))))"

text \<open>\<open>self_addr\<close> is the address of the blob itself.\<close>

definition unseal_data ::
  "'z tseal_ext_scheme \<Rightarrow> u64 \<Rightarrow> SgxInternalSealedData \<Rightarrow> SgxInternalUnsealedData SgxResult" where
  "unseal_data env self_addr sd =
     (let additional_len = get_add_mac_txt_len sd; encrypt_len = get_encrypt_txt_len sd in
      if additional_len = u32_MAX \<or> encrypt_len = u32_MAX then Inl SGX_ERROR_MAC_MISMATCH
      else if calc_raw_sealed_data_size additional_len encrypt_len = u32_MAX then Inl SGX_ERROR_MAC_MISMATCH
      else if encrypt_len < 1 then Inl SGX_ERROR_MAC_MISMATCH
      else if additional_len + encrypt_len \<noteq> get_payload_size sd then Inl SGX_ERROR_MAC_MISMATCH
      else if \<not> rsgx_raw_is_within_enclave env self_addr INTERNAL_SEALED_DATA_SIZE
        then Inl SGX_ERROR_INVALID_PARAMETER
      else if \<not> rsgx_slice_is_within_enclave env (get_encrypt_txt sd) then Inl SGX_ERROR_INVALID_PARAMETER
      else if additional_len > 0 \<and> \<not> rsgx_slice_is_within_enclave env (get_additional_txt sd)
        then Inl SGX_ERROR_INVALID_PARAMETER
      else fst (unseal_data_helper env sd))"

definition unmac_aadata ::
  "'z tseal_ext_scheme \<Rightarrow> u64 \<Rightarrow> SgxInternalSealedData \<Rightarrow> SgxInternalUnsealedData SgxResult" where
  "unmac_aadata env self_addr sd =
     (let additional_len = get_add_mac_txt_len sd; encrypt_len = get_encrypt_txt_len sd in
      if additional_len = u32_MAX \<or> encrypt_len = u32_MAX then Inl SGX_ERROR_MAC_MISMATCH
      else if additional_len < 1 then Inl SGX_ERROR_MAC_MISMATCH
      else if encrypt_len \<noteq> 0 then Inl SGX_ERROR_MAC_MISMATCH
      else if calc_raw_sealed_data_size additional_len encrypt_len = u32_MAX then Inl SGX_ERROR_MAC_MISMATCH
      else if additional_len + encrypt_len \<noteq> get_payload_size sd then Inl SGX_ERROR_MAC_MISMATCH
      else if \<not> rsgx_raw_is_within_enclave env self_addr INTERNAL_SEALED_DATA_SIZE
        then Inl SGX_ERROR_INVALID_PARAMETER
      else if \<not> rsgx_slice_is_within_enclave env (get_additional_txt sd) then Inl SGX_ERROR_INVALID_PARAMETER
      else fst (unseal_data_helper env sd))"


section \<open>Size arithmetic\<close>

text \<open>
  The size of a blob saturates: it is the exact sum of the parts, or \<open>u32::MAX\<close> when the sum does
  not fit.
\<close>

lemma unat_calc_raw_sealed_data_size:
  "unat (calc_raw_sealed_data_size a e) = min (unat a + unat e + SEALED_DATA_SIZE) MAX32"
proof -
  have less: "x > u32_MAX - y \<longleftrightarrow> unat x + unat y > MAX32" for x y :: u32
    using unat_u32_less [of y] by (auto simp: word_less_nat_alt)
  show ?thesis
  proof (cases "unat a + unat e > MAX32")
    case True
    then show ?thesis by (simp add: calc_raw_sealed_data_size_def less)
  next
    case False
    then have sum: "unat (a + e) = unat a + unat e" by (simp add: unat_add_u32)
    have "unat ((of_nat SEALED_DATA_SIZE :: u32) + (a + e)) = SEALED_DATA_SIZE + (unat a + unat e)"
      if "unat a + unat e + SEALED_DATA_SIZE \<le> MAX32"
      using that sum by (subst unat_add_u32) simp_all
    then show ?thesis
      using False sum by (simp add: calc_raw_sealed_data_size_def less min_def)
  qed
qed

lemma calc_raw_sealed_data_size_MAX_iff:
  "calc_raw_sealed_data_size a e = u32_MAX \<longleftrightarrow> MAX32 \<le> unat a + unat e + SEALED_DATA_SIZE"
  using unat_calc_raw_sealed_data_size [of a e] by (auto simp: word_unat_eq_iff)


section \<open>Well-formed blobs\<close>

text \<open>
  \<open>blob_ok\<close>: the payload size is the exact sum of the two parts and the raw image of the blob has a
  size below \<open>u32::MAX\<close>.
\<close>

definition blob_ok :: "SgxInternalSealedData \<Rightarrow> bool" where
  "blob_ok sd \<longleftrightarrow>
     unat (get_payload_size sd) = sl_len (get_encrypt_txt sd) + sl_len (get_additional_txt sd)
     \<and> unat (get_payload_size sd) + SEALED_DATA_SIZE < MAX32"

lemma blob_ok_lens:
  assumes "blob_ok sd"
  shows "unat (get_add_mac_txt_len sd) = sl_len (get_additional_txt sd)"
    and "unat (get_encrypt_txt_len sd) = sl_len (get_encrypt_txt sd)"
  using assms
  by (simp_all add: blob_ok_def get_add_mac_txt_len_def get_encrypt_txt_len_def Let_def unat_of_nat_u32)

lemma lens_MAX_iff:
  "get_add_mac_txt_len sd = u32_MAX \<longleftrightarrow>
     sl_len (get_additional_txt sd) > unat (get_payload_size sd) \<or> sl_len (get_additional_txt sd) \<ge> MAX32"
  "get_encrypt_txt_len sd = u32_MAX \<longleftrightarrow>
     sl_len (get_encrypt_txt sd) > unat (get_payload_size sd) \<or> sl_len (get_encrypt_txt sd) \<ge> MAX32"
  by (auto simp: get_add_mac_txt_len_def get_encrypt_txt_len_def Let_def word_unat_eq_iff unat_of_nat_u32)

text \<open>The size checks shared by unsealing and by the raw conversions accept exactly these blobs.\<close>

lemma size_checks_iff:
  "(\<not> (get_add_mac_txt_len sd = u32_MAX \<or> get_encrypt_txt_len sd = u32_MAX)
    \<and> calc_raw_sealed_data_size (get_add_mac_txt_len sd) (get_encrypt_txt_len sd) \<noteq> u32_MAX
    \<and> get_add_mac_txt_len sd + get_encrypt_txt_len sd = get_payload_size sd) \<longleftrightarrow> blob_ok sd"
proof (cases "get_add_mac_txt_len sd = u32_MAX \<or> get_encrypt_txt_len sd = u32_MAX")
  case True
  then show ?thesis by (auto simp: lens_MAX_iff blob_ok_def)
next
  case False
  then have small: "sl_len (get_additional_txt sd) < MAX32" "sl_len (get_encrypt_txt sd) < MAX32"
    and "get_add_mac_txt_len sd = of_nat (sl_len (get_additional_txt sd))"
    and "get_encrypt_txt_len sd = of_nat (sl_len (get_encrypt_txt sd))"
    by (auto simp: lens_MAX_iff) (simp_all add: get_add_mac_txt_len_def get_encrypt_txt_len_def Let_def)
  then have len: "unat (get_add_mac_txt_len sd) = sl_len (get_additional_txt sd)"
    "unat (get_encrypt_txt_len sd) = sl_len (get_encrypt_txt sd)"
    by (simp_all add: unat_of_nat_u32)
  have sum: "get_add_mac_txt_len sd + get_encrypt_txt_len sd = get_payload_size sd \<longleftrightarrow>
      sl_len (get_additional_txt sd) + sl_len (get_encrypt_txt sd) = unat (get_payload_size sd)"
    if "sl_len (get_additional_txt sd) + sl_len (get_encrypt_txt sd) \<le> MAX32"
    using that len by (simp add: word_unat_eq_iff unat_add_u32)
  show ?thesis
    using False sum len by (auto simp: calc_raw_sealed_data_size_MAX_iff blob_ok_def)
qed


section \<open>Sealing and unsealing as operations on keys\<close>

abbreviation seal_iv :: bytes where
  "seal_iv \<equiv> replicate SGX_SEAL_IV_SIZE 0"

text \<open>The blob that \<open>seal_data_iv\<close> builds from a ciphertext and its tag.\<close>

definition sealed_blob :: "'z tseal_ext_scheme \<Rightarrow> bytes \<Rightarrow> bytes \<Rightarrow> bytes \<Rightarrow> SgxInternalSealedData" where
  "sealed_blob env add ct tag =
     \<lparr> sd_key_request = default_key_request,
       payload_data = \<lparr> pl_payload_size = of_nat (length ct + length add), pl_reserved = replicate 12 0,
         pl_payload_tag = tag, pl_encrypt = new_box env 0 ct, pl_additional = new_box env 1 add \<rparr> \<rparr>"

lemma new_box_update: "length d = length bs \<Longrightarrow> new_box env k bs \<lparr> sl_data := d \<rparr> = new_box env k d"
  by (auto simp: new_box_def empty_box_def)

lemma new_box_Nil: "new_box env k [] = empty_box"
  by (simp add: new_box_def)

lemma seal_data_iv_Inr_iff:
  assumes "gcm_spec env"
  shows "fst (seal_data_iv env add pt iv kr) = Inr sd \<longleftrightarrow>
    (\<exists>key ct tag. sgx_get_key env kr = (SGX_SUCCESS, key)
       \<and> gcm_enc env key iv (sl_data add) (sl_data pt) = Inr (ct, tag)
       \<and> sd = sealed_blob env (sl_data add) ct tag)"
proof (cases "rsgx_get_align_key env kr")
  case (Inl e)
  then show ?thesis
    using rsgx_get_align_key_Inr_iff [of env kr] by (auto simp: seal_data_iv_def)
next
  case (Inr key)
  obtain r dst mac where c: "rsgx_rijndael128GCM_encrypt env key (sl_data pt) iv (sl_data add)
      (replicate (sl_len pt) 0) (replicate SGX_SEAL_TAG_SIZE 0) = (r, dst, mac)"
    by (metis prod_cases3)
  have enc: "gcm_enc env key iv (sl_data add) (sl_data pt) = map_ok (\<lambda>_. (dst, mac)) r"
    by (simp add: gcm_enc_def c)
  have key: "sgx_get_key env kr = (SGX_SUCCESS, k) \<longleftrightarrow> k = key" for k
    using Inr rsgx_get_align_key_Inr_iff [of env kr] by auto
  show ?thesis
  proof (cases r)
    case (Inl e)
    then have "fst (seal_data_iv env add pt iv kr) = Inl e"
      using Inr c by (simp add: seal_data_iv_def SgxInternalSealedData_new_def)
    then show ?thesis using Inl by (simp add: key enc)
  next
    case r: (Inr u)
    then have "length dst = sl_len pt"
      using gcm.enc_length [OF assms, of key iv "sl_data add" "sl_data pt" dst mac] enc by simp
    then have "fst (seal_data_iv env add pt iv kr) = Inr (sealed_blob env (sl_data add) dst mac)"
      using Inr c r by (cases "sl_data add = []") (simp_all add: seal_data_iv_def
          SgxInternalSealedData_new_def sealed_blob_def new_box_update new_box_Nil Let_def)
    then show ?thesis using r by (auto simp: key enc)
  qed
qed

lemma unseal_data_helper_Inr_iff:
  assumes "gcm_spec env"
  shows "fst (unseal_data_helper env sd) = Inr ud \<longleftrightarrow>
    (\<exists>key pt. sgx_get_key env (sd_key_request sd) = (SGX_SUCCESS, key)
       \<and> gcm_dec env key seal_iv (sl_data (get_additional_txt sd)) (sl_data (get_encrypt_txt sd))
            (get_payload_tag sd) = Inr pt
       \<and> ud = \<lparr> ud_payload_size = get_payload_size sd, ud_decrypt = new_box env 0 pt,
                ud_additional = new_box env 1 (sl_data (get_additional_txt sd)) \<rparr>)"
proof (cases "rsgx_get_align_key env (sd_key_request sd)")
  case (Inl e)
  then show ?thesis
    using rsgx_get_align_key_Inr_iff [of env "sd_key_request sd"] by (auto simp: unseal_data_helper_def)
next
  case (Inr key)
  obtain r dst where c: "rsgx_rijndael128GCM_decrypt env key (sl_data (get_encrypt_txt sd)) seal_iv
      (sl_data (get_additional_txt sd)) (get_payload_tag sd) (replicate (sl_len (get_encrypt_txt sd)) 0) = (r, dst)"
    by (metis surj_pair)
  have dec: "gcm_dec env key seal_iv (sl_data (get_additional_txt sd)) (sl_data (get_encrypt_txt sd))
      (get_payload_tag sd) = map_ok (\<lambda>_. dst) r"
    by (simp add: gcm_dec_def c)
  have key: "sgx_get_key env (sd_key_request sd) = (SGX_SUCCESS, k) \<longleftrightarrow> k = key" for k
    using Inr rsgx_get_align_key_Inr_iff [of env "sd_key_request sd"] by auto
  show ?thesis
  proof (cases r)
    case (Inl e)
    then have "fst (unseal_data_helper env sd) = Inl e"
      using Inr c by (simp add: unseal_data_helper_def)
    then show ?thesis using Inl by (simp add: key dec)
  next
    case r: (Inr u)
    then have "length dst = sl_len (get_encrypt_txt sd)"
      using gcm.dec_length [OF assms, of key seal_iv "sl_data (get_additional_txt sd)"
          "sl_data (get_encrypt_txt sd)" "get_payload_tag sd" dst] dec by simp
    then have "fst (unseal_data_helper env sd) =
        Inr \<lparr> ud_payload_size = get_payload_size sd, ud_decrypt = new_box env 0 dst,
              ud_additional = new_box env 1 (sl_data (get_additional_txt sd)) \<rparr>"
      using Inr c r by (simp add: unseal_data_helper_def new_box_update new_box_Nil)
    then show ?thesis using r by (auto simp: key dec)
  qed
qed


section \<open>What is accepted\<close>

text \<open>The inputs \<open>seal_data_ex\<close> accepts, and those of \<open>mac_aadata_ex\<close>.\<close>

definition seal_policy_ok :: "u16 \<Rightarrow> sgx_attributes_t \<Rightarrow> bool" where
  "seal_policy_ok kp am \<longleftrightarrow> \<not> key_policy_rejected kp \<and> \<not> attribute_mask_rejected am"

definition seal_input_ok :: "'z tseal_ext_scheme \<Rightarrow> slice \<Rightarrow> slice \<Rightarrow> bool" where
  "seal_input_ok env add pt \<longleftrightarrow>
     sl_len pt > 0 \<and> sl_len add + sl_len pt + SEALED_DATA_SIZE < MAX32
     \<and> rsgx_slice_is_within_enclave env pt
     \<and> (sl_len add > 0 \<longrightarrow> rsgx_slice_is_within_enclave env add \<or> rsgx_slice_is_outside_enclave env add)"

definition mac_input_ok :: "'z tseal_ext_scheme \<Rightarrow> slice \<Rightarrow> bool" where
  "mac_input_ok env add \<longleftrightarrow>
     sl_len add > 0 \<and> sl_len add + SEALED_DATA_SIZE < MAX32
     \<and> (rsgx_slice_is_within_enclave env add \<or> rsgx_slice_is_outside_enclave env add)"

definition seal_with_fresh_key :: "'z tseal_ext_scheme \<Rightarrow> u16 \<Rightarrow> sgx_attributes_t \<Rightarrow> u32 \<Rightarrow> slice \<Rightarrow> slice
    \<Rightarrow> SgxInternalSealedData SgxResult" where
  "seal_with_fresh_key env kp am mm add pt =
     res_bind (rsgx_read_rand env 32) (\<lambda>key_id.
       let kr = seal_key_request (rsgx_self_report env) kp am mm key_id in
       map_ok (\<lambda>sd. sd \<lparr> sd_key_request := kr \<rparr>) (fst (seal_data_iv env add pt seal_iv kr)))"

lemma calc_raw_of_nat_MAX_iff:
  assumes "a < MAX32" and "e < MAX32"
  shows "calc_raw_sealed_data_size (of_nat a) (of_nat e) = u32_MAX \<longleftrightarrow> MAX32 \<le> a + e + SEALED_DATA_SIZE"
  using assms by (simp add: calc_raw_sealed_data_size_MAX_iff unat_of_nat_u32)

lemma seal_data_ex_eq:
  "seal_data_ex env kp am mm add pt =
     (if seal_policy_ok kp am \<and> seal_input_ok env add pt then seal_with_fresh_key env kp am mm add pt
      else Inl SGX_ERROR_INVALID_PARAMETER)"
proof (cases "sl_len add \<ge> MAX32 \<or> sl_len pt \<ge> MAX32")
  case True
  then show ?thesis by (auto simp: seal_data_ex_def seal_input_ok_def)
next
  case False
  then have c: "calc_raw_sealed_data_size (of_nat (sl_len add)) (of_nat (sl_len pt)) = u32_MAX \<longleftrightarrow>
      \<not> (sl_len add + sl_len pt + SEALED_DATA_SIZE < MAX32)"
    using calc_raw_of_nat_MAX_iff [of "sl_len add" "sl_len pt"] by auto
  show ?thesis
    using False unfolding seal_data_ex_def Let_def c seal_input_ok_def seal_policy_ok_def
      seal_with_fresh_key_def by simp
qed

lemma mac_aadata_ex_eq:
  "mac_aadata_ex env kp am mm add =
     (if seal_policy_ok kp am \<and> mac_input_ok env add then seal_with_fresh_key env kp am mm add empty_box
      else Inl SGX_ERROR_INVALID_PARAMETER)"
proof (cases "sl_len add \<ge> MAX32")
  case True
  then show ?thesis by (auto simp: mac_aadata_ex_def mac_input_ok_def)
next
  case False
  then have c: "calc_raw_sealed_data_size (of_nat (sl_len add)) 0 = u32_MAX \<longleftrightarrow>
      \<not> (sl_len add + SEALED_DATA_SIZE < MAX32)"
    using calc_raw_of_nat_MAX_iff [of "sl_len add" 0] by auto
  show ?thesis
    using False unfolding mac_aadata_ex_def Let_def c mac_input_ok_def seal_policy_ok_def
      seal_with_fresh_key_def by simp
qed

text \<open>Unsealing accepts well-formed blobs in enclave memory.\<close>

definition unseal_input_ok :: "'z tseal_ext_scheme \<Rightarrow> u64 \<Rightarrow> SgxInternalSealedData \<Rightarrow> bool" where
  "unseal_input_ok env self_addr sd \<longleftrightarrow>
     rsgx_raw_is_within_enclave env self_addr INTERNAL_SEALED_DATA_SIZE
     \<and> (sl_len (get_encrypt_txt sd) > 0 \<longrightarrow> rsgx_slice_is_within_enclave env (get_encrypt_txt sd))
     \<and> (sl_len (get_additional_txt sd) > 0 \<longrightarrow> rsgx_slice_is_within_enclave env (get_additional_txt sd))"

lemma unseal_data_eq:
  "unseal_data env self_addr sd =
     (if \<not> blob_ok sd \<or> sl_len (get_encrypt_txt sd) = 0 then Inl SGX_ERROR_MAC_MISMATCH
      else if \<not> unseal_input_ok env self_addr sd then Inl SGX_ERROR_INVALID_PARAMETER
      else fst (unseal_data_helper env sd))"
proof (cases "blob_ok sd")
  case True
  then show ?thesis
    using blob_ok_lens [OF True] size_checks_iff [of sd]
    by (auto simp: unseal_data_def Let_def unseal_input_ok_def word_less_nat_alt)
next
  case False
  then show ?thesis
    using size_checks_iff [of sd] by (auto simp: unseal_data_def Let_def)
qed

lemma unmac_aadata_eq:
  "unmac_aadata env self_addr sd =
     (if \<not> blob_ok sd \<or> sl_len (get_encrypt_txt sd) \<noteq> 0 \<or> sl_len (get_additional_txt sd) = 0
        then Inl SGX_ERROR_MAC_MISMATCH
      else if \<not> unseal_input_ok env self_addr sd then Inl SGX_ERROR_INVALID_PARAMETER
      else fst (unseal_data_helper env sd))"
proof (cases "blob_ok sd")
  case True
  have "get_encrypt_txt_len sd = 0 \<longleftrightarrow> sl_len (get_encrypt_txt sd) = 0"
    using blob_ok_lens [OF True] by (simp add: word_unat_eq_iff)
  then show ?thesis
    using blob_ok_lens [OF True] size_checks_iff [of sd] True
    by (auto simp: unmac_aadata_def Let_def unseal_input_ok_def word_less_nat_alt)
next
  case False
  then show ?thesis
    using size_checks_iff [of sd] by (auto simp: unmac_aadata_def Let_def)
qed


section \<open>Sealed blobs are well formed\<close>

text \<open>The memory of an enclave's allocator lies inside the enclave.\<close>

definition alloc_in_enclave :: "'z tseal_ext_scheme \<Rightarrow> bool" where
  "alloc_in_enclave env \<longleftrightarrow> (\<forall>k n. n > 0 \<longrightarrow> sgx_is_within_enclave env (alloc_addr env k n) n \<noteq> 0)"

lemma new_box_within:
  "alloc_in_enclave env \<Longrightarrow> bs \<noteq> [] \<Longrightarrow> rsgx_slice_is_within_enclave env (new_box env k bs)"
  by (simp add: alloc_in_enclave_def new_box_def rsgx_slice_is_within_enclave_def
      rsgx_raw_is_within_enclave_def)

lemma seal_with_fresh_key_Inr:
  assumes spec: "gcm_spec env" and seal: "seal_with_fresh_key env kp am mm add pt = Inr sd"
  obtains key_id kr key ct tag where
    "sgx_read_rand env 32 = (SGX_SUCCESS, key_id)"
    and "kr = seal_key_request (rsgx_self_report env) kp am mm key_id"
    and "sgx_get_key env kr = (SGX_SUCCESS, key)"
    and "gcm_enc env key seal_iv (sl_data add) (sl_data pt) = Inr (ct, tag)"
    and "sd = sealed_blob env (sl_data add) ct tag \<lparr> sd_key_request := kr \<rparr>"
proof -
  from seal obtain key_id where r: "rsgx_read_rand env 32 = Inr key_id"
    and s: "map_ok (\<lambda>sd. sd \<lparr> sd_key_request := seal_key_request (rsgx_self_report env) kp am mm key_id \<rparr>)
        (fst (seal_data_iv env add pt seal_iv (seal_key_request (rsgx_self_report env) kp am mm key_id))) = Inr sd"
    by (auto simp: seal_with_fresh_key_def res_bind_Inr_iff Let_def)
  from r have "sgx_read_rand env 32 = (SGX_SUCCESS, key_id)"
    by (auto simp: rsgx_read_rand_def split: prod.splits)
  then show thesis
    using s that by (auto simp: map_ok_Inr_iff seal_data_iv_Inr_iff [OF spec])
qed

lemma seal_with_fresh_key_ok:
  assumes "gcm_spec env" and "sgx_read_rand env 32 = (SGX_SUCCESS, key_id)"
    and "kr = seal_key_request (rsgx_self_report env) kp am mm key_id"
    and "sgx_get_key env kr = (SGX_SUCCESS, key)"
    and "gcm_enc env key seal_iv (sl_data add) (sl_data pt) = Inr (ct, tag)"
  shows "seal_with_fresh_key env kp am mm add pt =
    Inr (sealed_blob env (sl_data add) ct tag \<lparr> sd_key_request := kr \<rparr>)"
proof -
  have "fst (seal_data_iv env add pt seal_iv kr) = Inr (sealed_blob env (sl_data add) ct tag)"
    using assms(4,5) by (simp add: seal_data_iv_Inr_iff [OF assms(1)])
  then show ?thesis
    using assms(2,3) by (simp add: seal_with_fresh_key_def rsgx_read_rand_def Let_def)
qed

lemma sealed_blob_ok:
  assumes "length ct + length add + SEALED_DATA_SIZE < MAX32"
  shows "blob_ok (sealed_blob env add ct tag \<lparr> sd_key_request := kr \<rparr>)"
proof -
  have "unat (of_nat (length ct + length add) :: u32) = length ct + length add"
    using assms by (intro unat_of_nat_u32) simp
  then show ?thesis
    using assms by (simp add: blob_ok_def sealed_blob_def)
qed

lemma unseal_input_ok_sealed:
  assumes "alloc_in_enclave env"
    and "rsgx_raw_is_within_enclave env self_addr INTERNAL_SEALED_DATA_SIZE"
  shows "unseal_input_ok env self_addr (sealed_blob env add ct tag \<lparr> sd_key_request := kr \<rparr>)"
  using assms by (simp add: unseal_input_ok_def sealed_blob_def new_box_within)

text \<open>The helper recovers what was encrypted under the key of the blob's key request.\<close>

lemma unseal_data_helper_sealed:
  assumes spec: "gcm_spec env" and "sgx_get_key env kr = (SGX_SUCCESS, key)"
    and "gcm_enc env key seal_iv add pt = Inr (ct, tag)"
  shows "fst (unseal_data_helper env (sealed_blob env add ct tag \<lparr> sd_key_request := kr \<rparr>)) =
    Inr \<lparr> ud_payload_size = of_nat (length pt + length add), ud_decrypt = new_box env 0 pt,
          ud_additional = new_box env 1 add \<rparr>"
proof -
  have "gcm_dec env key seal_iv add ct tag = Inr pt" "length ct = length pt"
    using assms gcm.dec_enc gcm.enc_length [OF spec] by blast+
  then show ?thesis
    using assms(2) by (simp add: unseal_data_helper_Inr_iff [OF spec] sealed_blob_def)
qed


text \<open>What the two sealing functions have in common, seen from unsealing.\<close>

lemma fresh_key_blob:
  assumes spec: "gcm_spec env" and seal: "seal_with_fresh_key env kp am mm add pt = Inr sd"
    and len: "sl_len add + sl_len pt + SEALED_DATA_SIZE < MAX32"
  shows "blob_ok sd"
    and "sl_len (get_encrypt_txt sd) = sl_len pt"
    and "sl_data (get_additional_txt sd) = sl_data add"
    and "fst (unseal_data_helper env sd) =
      Inr \<lparr> ud_payload_size = of_nat (sl_len pt + sl_len add),
            ud_decrypt = new_box env 0 (sl_data pt), ud_additional = new_box env 1 (sl_data add) \<rparr>"
proof -
  obtain kr key ct tag where key: "sgx_get_key env kr = (SGX_SUCCESS, key)"
    and enc: "gcm_enc env key seal_iv (sl_data add) (sl_data pt) = Inr (ct, tag)"
    and sd: "sd = sealed_blob env (sl_data add) ct tag \<lparr> sd_key_request := kr \<rparr>"
    using seal_with_fresh_key_Inr [OF spec seal] by metis
  have ct: "length ct = sl_len pt"
    using gcm.enc_length [OF spec enc] by simp
  then show "blob_ok sd" "sl_len (get_encrypt_txt sd) = sl_len pt"
    "sl_data (get_additional_txt sd) = sl_data add"
    using len sealed_blob_ok [of ct "sl_data add"] by (simp_all add: sd sealed_blob_def)
  show "fst (unseal_data_helper env sd) =
      Inr \<lparr> ud_payload_size = of_nat (sl_len pt + sl_len add),
            ud_decrypt = new_box env 0 (sl_data pt), ud_additional = new_box env 1 (sl_data add) \<rparr>"
    unfolding sd by (rule unseal_data_helper_sealed [OF spec key enc])
qed

lemma fresh_key_blob_accepted:
  assumes spec: "gcm_spec env" and seal: "seal_with_fresh_key env kp am mm add pt = Inr sd"
    and "alloc_in_enclave env"
    and "rsgx_raw_is_within_enclave env self_addr INTERNAL_SEALED_DATA_SIZE"
  shows "unseal_input_ok env self_addr sd"
  by (rule seal_with_fresh_key_Inr [OF spec seal]) (simp add: unseal_input_ok_sealed [OF assms(3,4)])

section \<open>A concrete environment\<close>

text \<open>
  An environment in which the documented behaviour holds: the cipher is the identity and the tag is
  the key.  The enclave occupies the addresses from \<open>0x1000\<close> up.  The theorems are applied to it.
\<close>

definition demo_report :: sgx_report_t where
  "demo_report =
     \<lparr> report_body = \<lparr> rb_cpu_svn = replicate 16 3, rb_misc_select = 0, rb_reserved1 = [], rb_isv_ext_prod_id = [],
         rb_attributes = \<lparr> attr_flags = 0x85, attr_xfrm = 3 \<rparr>, rb_mr_enclave = [], rb_reserved2 = [],
         rb_mr_signer = [], rb_reserved3 = [], rb_config_id = [], rb_isv_prod_id = 1, rb_isv_svn = 2,
         rb_config_svn = 0, rb_reserved4 = [], rb_isv_family_id = [], rb_report_data = [] \<rparr>,
       report_key_id = [], report_mac = [] \<rparr>"

definition demo_env :: tseal_ext where
  "demo_env =
     \<lparr> sgx_is_within_enclave = (\<lambda>p n. if p \<ge> 0x1000 then 1 else 0),
       sgx_is_outside_enclave = (\<lambda>p n. if p < 0x1000 then 1 else 0),
       sgx_read_rand = (\<lambda>n. (SGX_SUCCESS, replicate n 7)),
       sgx_create_report = (\<lambda>ti rd. (SGX_SUCCESS, demo_report)),
       sgx_verify_report = (\<lambda>r. SGX_SUCCESS),
       sgx_get_key = (\<lambda>kr. if key_policy kr AND 3 = 0 then (SGX_ERROR_INVALID_PARAMETER, [])
                      else (SGX_SUCCESS, replicate 16 9)),
       sgx_self_report = demo_report,
       sgx_rijndael128GCM_encrypt = (\<lambda>key src n d iv m aad k.
          (SGX_SUCCESS, case src of None \<Rightarrow> [] | Some s \<Rightarrow> s, take 16 (key @ replicate 16 0))),
       sgx_rijndael128GCM_decrypt = (\<lambda>key src n d iv m aad k tag.
          if tag = take 16 (key @ replicate 16 0) then (SGX_SUCCESS, case src of None \<Rightarrow> [] | Some s \<Rightarrow> s)
          else (SGX_ERROR_MAC_MISMATCH, [])),
       sgx_rijndael128_cmac_msg = (\<lambda>key src n. (SGX_SUCCESS, take 16 (key @ replicate 16 0))),
       alloc_addr = (\<lambda>k n. if k = 0 then 0x2000 else 0x3000),
       sgx_calc_sealed_data_size = calc_raw_sealed_data_size,
       sgx_get_add_mac_txt_len = (\<lambda>h. le_word (read_at 528 4 h) - le_word (read_at 512 4 h)),
       sgx_get_encrypt_txt_len = (\<lambda>h. le_word (read_at 512 4 h)) \<rparr>"

lemma c_encrypt_demo: "c_encrypt demo_env key iv aad d pt = (SGX_SUCCESS, pt, take 16 (key @ replicate 16 0))"
  by (simp add: c_encrypt_def demo_env_def ptr_or_null_def)

lemma c_decrypt_demo:
  "c_decrypt demo_env key iv aad d ct tag =
     (if tag = take 16 (key @ replicate 16 0) then (SGX_SUCCESS, ct) else (SGX_ERROR_MAC_MISMATCH, []))"
  by (simp add: c_decrypt_def demo_env_def ptr_or_null_def)

lemma gcm_spec_demo: "gcm_spec demo_env"
  unfolding gcm_spec_def c_encrypt_demo c_decrypt_demo by auto

lemma alloc_in_enclave_demo: "alloc_in_enclave demo_env"
  by (simp add: alloc_in_enclave_def demo_env_def)

definition demo_secret :: slice where
  "demo_secret = \<lparr> sl_ptr = 0x5000, sl_data = [1, 2, 3] \<rparr>"

definition demo_label :: slice where
  "demo_label = \<lparr> sl_ptr = 0x100, sl_data = [4, 5] \<rparr>"

lemma demo_checks:
  "rsgx_slice_is_within_enclave demo_env demo_secret"
  "rsgx_slice_is_outside_enclave demo_env demo_label"
  "rsgx_raw_is_within_enclave demo_env 0x4000 INTERNAL_SEALED_DATA_SIZE"
  "sl_data demo_secret = [1, 2, 3]" "sl_data demo_label = [4, 5]"
  by (simp_all add: rsgx_slice_is_within_enclave_def rsgx_slice_is_outside_enclave_def
      rsgx_raw_is_within_enclave_def rsgx_raw_is_outside_enclave_def demo_env_def demo_secret_def demo_label_def)

lemma seal_with_fresh_key_demo:
  assumes "kp AND 3 \<noteq> 0" and "sl_len pt \<le> MAX32" and "sl_len add \<le> MAX32"
  shows "\<exists>kr. seal_with_fresh_key demo_env kp am mm add pt =
    Inr (sealed_blob demo_env (sl_data add) (sl_data pt) (replicate 16 9) \<lparr> sd_key_request := kr \<rparr>)"
proof -
  define kr where "kr = seal_key_request (rsgx_self_report demo_env) kp am mm (replicate 32 7)"
  have "sgx_get_key demo_env kr = (SGX_SUCCESS, replicate 16 9)"
    using assms(1) by (simp add: demo_env_def kr_def seal_key_request_def)
  moreover have "sgx_read_rand demo_env 32 = (SGX_SUCCESS, replicate 32 7)"
    by (simp add: demo_env_def)
  moreover have "gcm_enc demo_env (replicate 16 9) seal_iv (sl_data add) (sl_data pt)
      = Inr (sl_data pt, replicate 16 9)"
    using assms by (simp add: gcm_enc_Inr_iff [OF gcm_spec_demo] c_encrypt_demo)
  ultimately show ?thesis
    using seal_with_fresh_key_ok [OF gcm_spec_demo _ kr_def] by blast
qed

lemma default_policy_ok: "seal_policy_ok (default_key_policy report) default_attribute_mask"
  by (simp add: seal_policy_ok_def key_policy_rejected_def attribute_mask_rejected_def KEY_POLICY_KSS_def
      default_key_policy_def default_attribute_mask_def key_policy_defs attribute_flag_defs)

lemma seal_data_demo: "\<exists>sd. seal_data demo_env demo_label demo_secret = Inr sd"
proof -
  have "default_key_policy (rsgx_self_report demo_env) AND 3 \<noteq> 0"
    by (simp add: default_key_policy_def KEY_POLICY_KSS_def key_policy_defs)
  moreover have "seal_input_ok demo_env demo_label demo_secret"
    by (simp add: seal_input_ok_def demo_checks)
  ultimately show ?thesis
    using seal_with_fresh_key_demo [of _ demo_secret demo_label]
    by (fastforce simp: seal_data_def seal_data_ex_eq default_policy_ok demo_checks)
qed

lemma mac_aadata_demo: "\<exists>sd. mac_aadata demo_env demo_label = Inr sd"
proof -
  have "default_key_policy (rsgx_self_report demo_env) AND 3 \<noteq> 0"
    by (simp add: default_key_policy_def KEY_POLICY_KSS_def key_policy_defs)
  moreover have "mac_input_ok demo_env demo_label"
    by (simp add: mac_input_ok_def demo_checks)
  ultimately show ?thesis
    using seal_with_fresh_key_demo [of _ empty_box demo_label]
    by (fastforce simp: mac_aadata_def mac_aadata_ex_eq default_policy_ok demo_checks)
qed

section \<open>Properties\<close>

text \<open>
  C7.  Round trip of sealing: whatever \<open>seal_data_ex\<close> returns, unsealing it on the same platform (the
  same key for the same key request) gives back exactly the secret, the associated data and the sum
  of their lengths, on every input the function accepts.
\<close>

theorem seal_unseal_roundtrip:
  assumes "gcm_spec env" and "alloc_in_enclave env"
    and "rsgx_raw_is_within_enclave env self_addr INTERNAL_SEALED_DATA_SIZE"
    and "seal_data_ex env kp am mm add pt = Inr sd"
  shows "unseal_data env self_addr sd =
    Inr \<lparr> ud_payload_size = of_nat (sl_len pt + sl_len add),
          ud_decrypt = new_box env 0 (sl_data pt), ud_additional = new_box env 1 (sl_data add) \<rparr>"
proof -
  have ok: "seal_input_ok env add pt" and seal: "seal_with_fresh_key env kp am mm add pt = Inr sd"
    using assms(4) by (simp_all add: seal_data_ex_eq split: if_splits)
  show ?thesis
    using fresh_key_blob [OF assms(1) seal] fresh_key_blob_accepted [OF assms(1) seal assms(2,3)] ok
    by (auto simp: unseal_data_eq seal_input_ok_def)
qed

theorem seal_unseal_roundtrip_witness:
  "\<exists>sd. seal_data demo_env demo_label demo_secret = Inr sd
     \<and> unseal_data demo_env 0x4000 sd =
         Inr \<lparr> ud_payload_size = 5, ud_decrypt = new_box demo_env 0 [1, 2, 3],
               ud_additional = new_box demo_env 1 [4, 5] \<rparr>"
proof -
  obtain sd where sd: "seal_data demo_env demo_label demo_secret = Inr sd"
    using seal_data_demo by blast
  then show ?thesis
    using seal_unseal_roundtrip [OF gcm_spec_demo alloc_in_enclave_demo demo_checks(3)
        sd [unfolded seal_data_def Let_def]]
    by (simp add: demo_checks)
qed

text \<open>
  C26.  Round trip of authenticated-only data: the blob of \<open>mac_aadata_ex\<close> passes \<open>unmac_aadata\<close>,
  which returns the data, and neither kind of blob passes the check meant for the other kind:
  \<open>unseal_data\<close> refuses a blob of \<open>mac_aadata_ex\<close> and \<open>unmac_aadata\<close> one of \<open>seal_data_ex\<close>.
\<close>

theorem mac_roundtrip_and_separation:
  assumes "gcm_spec env" and "alloc_in_enclave env"
    and "rsgx_raw_is_within_enclave env self_addr INTERNAL_SEALED_DATA_SIZE"
    and "mac_aadata_ex env kp am mm add = Inr sd"
    and "seal_data_ex env kp' am' mm' add' pt' = Inr sd'"
  shows "unmac_aadata env self_addr sd =
      Inr \<lparr> ud_payload_size = of_nat (sl_len add), ud_decrypt = empty_box,
            ud_additional = new_box env 1 (sl_data add) \<rparr>
    \<and> unseal_data env self_addr sd = Inl SGX_ERROR_MAC_MISMATCH
    \<and> unmac_aadata env self_addr sd' = Inl SGX_ERROR_MAC_MISMATCH"
proof (intro conjI)
  have ok: "mac_input_ok env add" and seal: "seal_with_fresh_key env kp am mm add empty_box = Inr sd"
    using assms(4) by (simp_all add: mac_aadata_ex_eq split: if_splits)
  note blob = fresh_key_blob [OF assms(1) seal] fresh_key_blob_accepted [OF assms(1) seal assms(2,3)]
  show "unmac_aadata env self_addr sd =
      Inr \<lparr> ud_payload_size = of_nat (sl_len add), ud_decrypt = empty_box,
            ud_additional = new_box env 1 (sl_data add) \<rparr>"
    using blob ok by (auto simp: unmac_aadata_eq mac_input_ok_def new_box_Nil)
  show "unseal_data env self_addr sd = Inl SGX_ERROR_MAC_MISMATCH"
    using blob ok by (auto simp: unseal_data_eq mac_input_ok_def)
  have ok': "seal_input_ok env add' pt'" and seal': "seal_with_fresh_key env kp' am' mm' add' pt' = Inr sd'"
    using assms(5) by (simp_all add: seal_data_ex_eq split: if_splits)
  show "unmac_aadata env self_addr sd' = Inl SGX_ERROR_MAC_MISMATCH"
    using fresh_key_blob [OF assms(1) seal'] ok' by (auto simp: unmac_aadata_eq seal_input_ok_def)
qed

theorem mac_roundtrip_and_separation_witness:
  "\<exists>sd sd'. mac_aadata demo_env demo_label = Inr sd \<and> seal_data demo_env demo_label demo_secret = Inr sd'
     \<and> unmac_aadata demo_env 0x4000 sd =
         Inr \<lparr> ud_payload_size = 2, ud_decrypt = empty_box, ud_additional = new_box demo_env 1 [4, 5] \<rparr>
     \<and> unseal_data demo_env 0x4000 sd = Inl SGX_ERROR_MAC_MISMATCH
     \<and> unmac_aadata demo_env 0x4000 sd' = Inl SGX_ERROR_MAC_MISMATCH"
proof -
  obtain sd sd' where sd: "mac_aadata demo_env demo_label = Inr sd"
    and sd': "seal_data demo_env demo_label demo_secret = Inr sd'"
    using mac_aadata_demo seal_data_demo by blast
  then show ?thesis
    using mac_roundtrip_and_separation [OF gcm_spec_demo alloc_in_enclave_demo demo_checks(3)
        sd [unfolded mac_aadata_def Let_def] sd' [unfolded seal_data_def Let_def]]
    by (simp add: demo_checks)
qed


text \<open>
  C5.  Authenticity: whatever \<open>unseal_data\<close> releases is what sealing under the key of the blob's key
  request turns into exactly the ciphertext and the tag of the blob; the associated data handed out
  is the associated data that was authenticated, and the payload size is the true sum of lengths.
\<close>

theorem unseal_authentic:
  assumes "gcm_spec env" and "unseal_data env self_addr sd = Inr ud"
  shows "\<exists>key. sgx_get_key env (sd_key_request sd) = (SGX_SUCCESS, key)
    \<and> gcm_enc env key seal_iv (sl_data (ud_additional ud)) (sl_data (ud_decrypt ud))
        = Inr (sl_data (get_encrypt_txt sd), get_payload_tag sd)
    \<and> sl_data (ud_additional ud) = sl_data (get_additional_txt sd)
    \<and> unat (ud_payload_size ud) = sl_len (ud_decrypt ud) + sl_len (ud_additional ud)"
proof -
  have ok: "blob_ok sd" and helper: "fst (unseal_data_helper env sd) = Inr ud"
    using assms(2) by (simp_all add: unseal_data_eq split: if_splits)
  from helper obtain key pt where key: "sgx_get_key env (sd_key_request sd) = (SGX_SUCCESS, key)"
    and dec: "gcm_dec env key seal_iv (sl_data (get_additional_txt sd)) (sl_data (get_encrypt_txt sd))
        (get_payload_tag sd) = Inr pt"
    and ud: "ud = \<lparr> ud_payload_size = get_payload_size sd, ud_decrypt = new_box env 0 pt,
        ud_additional = new_box env 1 (sl_data (get_additional_txt sd)) \<rparr>"
    by (auto simp: unseal_data_helper_Inr_iff [OF assms(1)])
  have "gcm_enc env key seal_iv (sl_data (get_additional_txt sd)) pt
      = Inr (sl_data (get_encrypt_txt sd), get_payload_tag sd)"
    using dec by (simp only: gcm.dec_iff [OF assms(1)])
  then show ?thesis
    using key ok gcm.dec_length [OF assms(1) dec] by (simp add: ud blob_ok_def)
qed

theorem unseal_authentic_witness:
  "\<exists>sd ud key. unseal_data demo_env 0x4000 sd = Inr ud
     \<and> sgx_get_key demo_env (sd_key_request sd) = (SGX_SUCCESS, key)
     \<and> gcm_enc demo_env key seal_iv (sl_data (ud_additional ud)) [1, 2, 3]
         = Inr (sl_data (get_encrypt_txt sd), get_payload_tag sd)"
proof -
  obtain sd where sd: "seal_data demo_env demo_label demo_secret = Inr sd"
    using seal_data_demo by blast
  have ok: "seal_input_ok demo_env demo_label demo_secret"
    and seal: "seal_with_fresh_key demo_env (default_key_policy (rsgx_self_report demo_env))
      default_attribute_mask TSEAL_DEFAULT_MISCMASK demo_label demo_secret = Inr sd"
    using sd by (simp_all add: seal_data_def Let_def seal_data_ex_eq split: if_splits)
  have "unseal_data demo_env 0x4000 sd = Inr \<lparr> ud_payload_size = 5, ud_decrypt = new_box demo_env 0 [1, 2, 3],
      ud_additional = new_box demo_env 1 [4, 5] \<rparr>"
    using fresh_key_blob [OF gcm_spec_demo seal]
      fresh_key_blob_accepted [OF gcm_spec_demo seal alloc_in_enclave_demo demo_checks(3)] ok
    by (auto simp: unseal_data_eq seal_input_ok_def demo_checks)
  then show ?thesis
    using unseal_authentic [OF gcm_spec_demo, of "0x4000" sd] by fastforce
qed

text \<open>
  C27.  Every error of \<open>unseal_data\<close>: an inconsistent blob is a MAC mismatch before any key is derived,
  a blob outside the enclave an invalid parameter; of the errors of key derivation only three are
  reported as they are, every other one is a MAC mismatch; after that the result is that of the
  authenticated decryption.
\<close>

theorem unseal_data_decision:
  "unseal_data env self_addr sd =
     (if blob_ok sd \<and> sl_len (get_encrypt_txt sd) > 0 then
        if unseal_input_ok env self_addr sd then
          case sgx_get_key env (sd_key_request sd) of (ret, key) \<Rightarrow>
            if ret = SGX_SUCCESS then
              map_ok (\<lambda>pt. \<lparr> ud_payload_size = get_payload_size sd,
                              ud_decrypt = new_box env 0 (replicate (sl_len (get_encrypt_txt sd)) 0) \<lparr> sl_data := pt \<rparr>,
                              ud_additional = new_box env 1 (sl_data (get_additional_txt sd)) \<rparr>)
                (gcm_dec env key seal_iv (sl_data (get_additional_txt sd)) (sl_data (get_encrypt_txt sd))
                   (get_payload_tag sd))
            else if ret \<in> {SGX_ERROR_INVALID_CPUSVN, SGX_ERROR_INVALID_ISVSVN, SGX_ERROR_OUT_OF_MEMORY}
              then Inl ret
            else Inl SGX_ERROR_MAC_MISMATCH
        else Inl SGX_ERROR_INVALID_PARAMETER
      else Inl SGX_ERROR_MAC_MISMATCH)"
proof -
  obtain ret key where k: "sgx_get_key env (sd_key_request sd) = (ret, key)"
    by (metis surj_pair)
  obtain r dst where c: "rsgx_rijndael128GCM_decrypt env key (sl_data (get_encrypt_txt sd)) seal_iv
      (sl_data (get_additional_txt sd)) (get_payload_tag sd) (replicate (sl_len (get_encrypt_txt sd)) 0) = (r, dst)"
    by (metis surj_pair)
  show ?thesis
    unfolding unseal_data_eq unseal_data_helper_def rsgx_get_align_key_def gcm_dec_def
    by (cases r) (auto simp: k c sgx_result_def new_box_Nil)
qed

text \<open>
  \<open>seal_data\<close> chooses a policy that \<open>seal_data_ex\<close> never refuses, whatever the enclave's report
  says: it fails with an invalid parameter exactly on an empty secret, on a total size that does not
  stay below \<open>u32::MAX\<close>, on a secret outside the enclave and on associated data that straddles the
  enclave boundary.
\<close>

theorem seal_data_accepts:
  "seal_data env add pt =
     (if seal_input_ok env add pt
      then seal_with_fresh_key env (default_key_policy (rsgx_self_report env)) default_attribute_mask
             TSEAL_DEFAULT_MISCMASK add pt
      else Inl SGX_ERROR_INVALID_PARAMETER)"
  by (simp add: seal_data_def seal_data_ex_eq default_policy_ok)

text \<open>
  The size of a raw blob saturates instead of wrapping: it is the exact sum of the header and
  the two parts, or \<open>u32::MAX\<close> when that sum does not fit into 32 bits.
\<close>

theorem calc_raw_sealed_data_size_saturates:
  "unat (calc_raw_sealed_data_size a e) = min (unat a + unat e + SEALED_DATA_SIZE) MAX32"
  by (rule unat_calc_raw_sealed_data_size)


end
