(* ===== verification/Tseal_Raw.thy ===== *)
theory Tseal_Raw
  imports Tseal
begin

text \<open>
  \<open>sgx_tseal\<close>, the conversions between a blob and its C image \<open>sgx_sealed_data_t\<close> (internal.rs,
  \<open>to_raw_sealed_data_t\<close> and \<open>from_raw_sealed_data_t\<close>).  The image is a header of 560 bytes (key
  request at 0, \<open>plain_text_offset\<close> at 512, \<open>payload_size\<close> at 528, tag at 544) followed by the
  ciphertext and the associated data.

  The caller describes memory by an address and a length; an access outside the memory block that is
  really there is \<open>Ub\<close>.  The block may be untrusted memory, which can change while it is being read:
  \<open>from_raw_sealed_data_t\<close> takes the contents seen by each of its reads.
\<close>

section \<open>Model\<close>

text \<open>A store through a raw pointer into the block.\<close>

definition store :: "nat \<Rightarrow> bytes \<Rightarrow> bytes outcome \<Rightarrow> bytes outcome" where
  "store off bs m =
     (case m of Done buf \<Rightarrow> if in_buf off (length bs) buf then Done (write_at off bs buf) else Ub
      | Panic \<Rightarrow> Panic | Ub \<Rightarrow> Ub)"

definition to_raw_sealed_data_t ::
  "'z tseal_ext_scheme \<Rightarrow> SgxInternalSealedData \<Rightarrow> u64 \<Rightarrow> u32 \<Rightarrow> bytes \<Rightarrow> bytes option outcome" where
  "to_raw_sealed_data_t env sd p len buf =
     (if p = 0 then Done None
      else if \<not> rsgx_raw_is_within_enclave env p (unat len) \<and> \<not> rsgx_raw_is_outside_enclave env p (unat len)
        then Done None
      else
        let additional_len = get_add_mac_txt_len sd; encrypt_len = get_encrypt_txt_len sd in
        if additional_len = u32_MAX \<or> encrypt_len = u32_MAX then Done None
        else if additional_len + encrypt_len \<noteq> get_payload_size sd then Done None
        else
          let sealed_data_size = sgx_calc_sealed_data_size env additional_len encrypt_len in
          if sealed_data_size = u32_MAX then Done None
          else if len < sealed_data_size then Done None
          else
            let m0 = Done buf;
                m1 = (if encrypt_len > 0
                      then store SEALED_DATA_SIZE (take (unat encrypt_len) (sl_data (get_encrypt_txt sd))) m0
                      else m0);
                m2 = (if additional_len > 0
                      then store (SEALED_DATA_SIZE + unat encrypt_len)
                             (take (unat additional_len) (sl_data (get_additional_txt sd))) m1
                      else m1);
                m3 = store 0 (bytes_of_key_request (sd_key_request sd)) m2;
                m4 = store 512 (le_bytes 4 encrypt_len) m3;
                m5 = store 528 (le_bytes 4 (get_payload_size sd)) m4;
                m6 = store 544 (get_payload_tag sd) m5
            in case m6 of Done buf' \<Rightarrow> Done (Some buf') | Panic \<Rightarrow> Panic | Ub \<Rightarrow> Ub)"

definition plain_text_offset_of :: "bytes \<Rightarrow> u32" where
  "plain_text_offset_of h = le_word (read_at 512 4 h)"

definition payload_size_of :: "bytes \<Rightarrow> u32" where
  "payload_size_of h = le_word (read_at 528 4 h)"

text \<open>\<open>mem i\<close> is what the block holds at the \<open>i\<close>-th read.\<close>

definition from_raw_sealed_data_t ::
  "'z tseal_ext_scheme \<Rightarrow> u64 \<Rightarrow> u32 \<Rightarrow> (nat \<Rightarrow> bytes) \<Rightarrow> SgxInternalSealedData option outcome" where
  "from_raw_sealed_data_t env p len mem =
     (if p = 0 then Done None
      else if \<not> rsgx_raw_is_within_enclave env p (unat len) \<and> \<not> rsgx_raw_is_outside_enclave env p (unat len)
        then Done None
      else if unat len < SEALED_DATA_SIZE then Done None
      else if \<not> (\<forall>i < 10. in_buf 0 SEALED_DATA_SIZE (mem i)) then Ub
      else if plain_text_offset_of (mem 0) > payload_size_of (mem 1) then Done None
      else
        let additional_len = sgx_get_add_mac_txt_len env (mem 2);
            encrypt_len = sgx_get_encrypt_txt_len env (mem 3) in
        if additional_len = u32_MAX \<or> encrypt_len = u32_MAX then Done None
        else if additional_len + encrypt_len \<noteq> payload_size_of (mem 4) then Done None
        else
          let sealed_data_size = sgx_calc_sealed_data_size env additional_len encrypt_len in
          if sealed_data_size = u32_MAX then Done None
          else if len < sealed_data_size then Done None
          else if encrypt_len > 0 \<and> \<not> in_buf SEALED_DATA_SIZE (unat encrypt_len) (mem 5) then Ub
          else if additional_len > 0
                  \<and> \<not> in_buf (SEALED_DATA_SIZE + unat encrypt_len) (unat additional_len) (mem 6) then Ub
          else
            let encrypt = (if encrypt_len > 0
                  then read_at SEALED_DATA_SIZE (unat encrypt_len) (mem 5) else []);
                additional = (if additional_len > 0
                  then read_at (SEALED_DATA_SIZE + unat encrypt_len) (unat additional_len) (mem 6) else [])
            in Done (Some
                 \<lparr> sd_key_request = key_request_of_bytes (read_at 0 512 (mem 7)),
                   payload_data =
                     \<lparr> pl_payload_size = payload_size_of (mem 8), pl_reserved = replicate 12 0,
                       pl_payload_tag = read_at 544 SGX_SEAL_TAG_SIZE (mem 9),
                       pl_encrypt = new_box env 0 encrypt, pl_additional = new_box env 1 additional \<rparr> \<rparr>))"

text \<open>
  The documented behaviour of the three C helpers: the size saturates at \<open>u32::MAX\<close>, and on a header
  whose offset is not beyond its payload they give the two parts of the payload.
\<close>

definition calc_size_spec :: "'z tseal_ext_scheme \<Rightarrow> bool" where
  "calc_size_spec env \<longleftrightarrow>
     (\<forall>a e. unat (sgx_calc_sealed_data_size env a e) = min (unat a + unat e + SEALED_DATA_SIZE) MAX32)"

definition txt_len_spec :: "'z tseal_ext_scheme \<Rightarrow> bool" where
  "txt_len_spec env \<longleftrightarrow>
     (\<forall>h. plain_text_offset_of h \<le> payload_size_of h \<longrightarrow>
        sgx_get_encrypt_txt_len env h = plain_text_offset_of h
        \<and> sgx_get_add_mac_txt_len env h = payload_size_of h - plain_text_offset_of h)"

definition region_ok :: "'z tseal_ext_scheme \<Rightarrow> u64 \<Rightarrow> u32 \<Rightarrow> bool" where
  "region_ok env p len \<longleftrightarrow> p \<noteq> 0
     \<and> (rsgx_raw_is_within_enclave env p (unat len) \<or> rsgx_raw_is_outside_enclave env p (unat len))"

definition wf_sealed :: "SgxInternalSealedData \<Rightarrow> bool" where
  "wf_sealed sd \<longleftrightarrow> wf_key_request (sd_key_request sd) \<and> length (get_payload_tag sd) = SGX_SEAL_TAG_SIZE"

section \<open>Sizes\<close>

lemma calc_size_MAX_iff:
  "calc_size_spec env \<Longrightarrow>
     sgx_calc_sealed_data_size env a e = u32_MAX \<longleftrightarrow> MAX32 \<le> unat a + unat e + SEALED_DATA_SIZE"
  by (auto simp: calc_size_spec_def word_unat_eq_iff min_def)

lemma calc_size_exact:
  "calc_size_spec env \<Longrightarrow> sgx_calc_sealed_data_size env a e \<noteq> u32_MAX \<Longrightarrow>
     unat (sgx_calc_sealed_data_size env a e) = unat a + unat e + SEALED_DATA_SIZE"
  by (simp add: calc_size_MAX_iff) (simp add: calc_size_spec_def)


section \<open>Writing the image\<close>

definition raw_image :: "SgxInternalSealedData \<Rightarrow> bytes \<Rightarrow> bytes" where
  "raw_image sd buf =
     write_at 544 (get_payload_tag sd)
      (write_at 528 (le_bytes 4 (get_payload_size sd))
       (write_at 512 (le_bytes 4 (get_encrypt_txt_len sd))
        (write_at 0 (bytes_of_key_request (sd_key_request sd))
         (write_at (SEALED_DATA_SIZE + sl_len (get_encrypt_txt sd)) (sl_data (get_additional_txt sd))
          (write_at SEALED_DATA_SIZE (sl_data (get_encrypt_txt sd)) buf)))))"

lemma write_at_Nil [simp]: "write_at off [] buf = buf"
  by (simp add: write_at_def)

lemma store_Done: "off + length bs \<le> length buf \<Longrightarrow> store off bs (Done buf) = Done (write_at off bs buf)"
  by (simp add: store_def in_buf_def)

lemma length_write_at_le: "off + length bs \<le> length buf \<Longrightarrow> length (write_at off bs buf) = length buf"
  by (simp add: length_write_at in_buf_def)

lemmas store_simps = store_Done length_write_at_le

lemma to_raw_eq:
  assumes "calc_size_spec env" and "length buf = unat len" and "wf_sealed sd"
  shows "to_raw_sealed_data_t env sd p len buf =
    (if region_ok env p len \<and> blob_ok sd \<and> unat (get_payload_size sd) + SEALED_DATA_SIZE \<le> unat len
     then Done (Some (raw_image sd buf)) else Done None)"
proof (cases "blob_ok sd")
  case True
  note lens = blob_ok_lens [OF True]
  have sz: "unat (get_payload_size sd) = sl_len (get_encrypt_txt sd) + sl_len (get_additional_txt sd)"
    and small: "\<not> MAX32 \<le> unat (get_payload_size sd) + SEALED_DATA_SIZE"
    using True by (simp_all add: blob_ok_def)
  have calc: "sgx_calc_sealed_data_size env (get_add_mac_txt_len sd) (get_encrypt_txt_len sd) \<noteq> u32_MAX"
    using lens sz small by (simp add: calc_size_MAX_iff [OF assms(1)])
  have less: "len < sgx_calc_sealed_data_size env (get_add_mac_txt_len sd) (get_encrypt_txt_len sd) \<longleftrightarrow>
      \<not> unat (get_payload_size sd) + SEALED_DATA_SIZE \<le> unat len"
    using calc_size_exact [OF assms(1) calc] lens sz by (auto simp: word_less_nat_alt)
  have pos: "0 < get_encrypt_txt_len sd \<longleftrightarrow> sl_data (get_encrypt_txt sd) \<noteq> []"
    "0 < get_add_mac_txt_len sd \<longleftrightarrow> sl_data (get_additional_txt sd) \<noteq> []"
    using lens by (simp_all add: word_less_nat_alt)
  have chk: "\<not> (get_add_mac_txt_len sd = u32_MAX \<or> get_encrypt_txt_len sd = u32_MAX)"
    "get_add_mac_txt_len sd + get_encrypt_txt_len sd = get_payload_size sd"
    using True size_checks_iff [of sd] by auto
  show ?thesis
    using True assms(2,3) chk calc sz
    by (simp add: to_raw_sealed_data_t_def region_ok_def Let_def less pos lens store_simps raw_image_def
        wf_sealed_def)
next
  case False
  have "get_add_mac_txt_len sd + get_encrypt_txt_len sd = get_payload_size sd \<Longrightarrow>
      \<not> (get_add_mac_txt_len sd = u32_MAX \<or> get_encrypt_txt_len sd = u32_MAX) \<Longrightarrow>
      sgx_calc_sealed_data_size env (get_add_mac_txt_len sd) (get_encrypt_txt_len sd) = u32_MAX"
    using False size_checks_iff [of sd]
    by (auto simp: calc_size_MAX_iff [OF assms(1)] calc_raw_sealed_data_size_MAX_iff)
  then show ?thesis
    using False by (auto simp: to_raw_sealed_data_t_def Let_def)
qed

section \<open>Reading it back\<close>

lemma raw_image_reads:
  assumes "wf_sealed sd"
    and "SEALED_DATA_SIZE + sl_len (get_encrypt_txt sd) + sl_len (get_additional_txt sd) \<le> length buf"
  shows "length (raw_image sd buf) = length buf"
    and "read_at 0 512 (raw_image sd buf) = bytes_of_key_request (sd_key_request sd)"
    and "plain_text_offset_of (raw_image sd buf) = get_encrypt_txt_len sd"
    and "payload_size_of (raw_image sd buf) = get_payload_size sd"
    and "read_at 544 SGX_SEAL_TAG_SIZE (raw_image sd buf) = get_payload_tag sd"
    and "read_at SEALED_DATA_SIZE (sl_len (get_encrypt_txt sd)) (raw_image sd buf) = sl_data (get_encrypt_txt sd)"
    and "read_at (SEALED_DATA_SIZE + sl_len (get_encrypt_txt sd)) (sl_len (get_additional_txt sd))
           (raw_image sd buf) = sl_data (get_additional_txt sd)"
    and "drop (SEALED_DATA_SIZE + sl_len (get_encrypt_txt sd) + sl_len (get_additional_txt sd)) (raw_image sd buf)
       = drop (SEALED_DATA_SIZE + sl_len (get_encrypt_txt sd) + sl_len (get_additional_txt sd)) buf"
  using assms
  by (simp_all add: raw_image_def plain_text_offset_of_def payload_size_of_def wf_sealed_def
      length_write_at_le read_write_same read_write_before read_write_after in_buf_def)
    (simp add: write_at_def ac_simps)


text \<open>The blob read from an image: the contents of the boxes, in new boxes.\<close>

definition reboxed :: "'z tseal_ext_scheme \<Rightarrow> SgxInternalSealedData \<Rightarrow> SgxInternalSealedData" where
  "reboxed env sd =
     \<lparr> sd_key_request = sd_key_request sd,
       payload_data = \<lparr> pl_payload_size = get_payload_size sd, pl_reserved = replicate 12 0,
         pl_payload_tag = get_payload_tag sd, pl_encrypt = new_box env 0 (sl_data (get_encrypt_txt sd)),
         pl_additional = new_box env 1 (sl_data (get_additional_txt sd)) \<rparr> \<rparr>"

lemma reboxed_sel:
  "sd_key_request (reboxed env sd) = sd_key_request sd"
  "get_payload_size (reboxed env sd) = get_payload_size sd"
  "get_payload_tag (reboxed env sd) = get_payload_tag sd"
  "sl_data (get_encrypt_txt (reboxed env sd)) = sl_data (get_encrypt_txt sd)"
  "sl_data (get_additional_txt (reboxed env sd)) = sl_data (get_additional_txt sd)"
  by (simp_all add: reboxed_def)

lemma from_raw_image:
  assumes calc: "calc_size_spec env" and lsp: "txt_len_spec env"
    and wf: "wf_sealed sd" and ok: "blob_ok sd" and reg: "region_ok env p len"
    and len: "unat (get_payload_size sd) + SEALED_DATA_SIZE \<le> unat len" "length buf = unat len"
  shows "from_raw_sealed_data_t env p len (\<lambda>_. raw_image sd buf) = Done (Some (reboxed env sd))"
proof -
  note lens = blob_ok_lens [OF ok]
  have sz: "unat (get_payload_size sd) = sl_len (get_encrypt_txt sd) + sl_len (get_additional_txt sd)"
    and small: "\<not> MAX32 \<le> unat (get_payload_size sd) + SEALED_DATA_SIZE"
    using ok by (simp_all add: blob_ok_def)
  have "SEALED_DATA_SIZE + sl_len (get_encrypt_txt sd) + sl_len (get_additional_txt sd) \<le> length buf"
    using len sz by simp
  note reads = raw_image_reads [OF wf this]
  have le: "get_encrypt_txt_len sd \<le> get_payload_size sd"
    using lens sz by (simp add: word_le_nat_alt)
  have sum: "get_add_mac_txt_len sd + get_encrypt_txt_len sd = get_payload_size sd"
    and notmax: "\<not> (get_add_mac_txt_len sd = u32_MAX \<or> get_encrypt_txt_len sd = u32_MAX)"
    using ok size_checks_iff [of sd] by auto
  have diff: "get_payload_size sd - get_encrypt_txt_len sd = get_add_mac_txt_len sd"
    by (simp add: sum [symmetric])
  have c_enc: "sgx_get_encrypt_txt_len env (raw_image sd buf) = get_encrypt_txt_len sd"
    and c_add: "sgx_get_add_mac_txt_len env (raw_image sd buf) = get_add_mac_txt_len sd"
    using lsp [unfolded txt_len_spec_def, rule_format, of "raw_image sd buf"] le
    unfolding reads(3,4) diff by simp_all
  have cmax: "sgx_calc_sealed_data_size env (get_add_mac_txt_len sd) (get_encrypt_txt_len sd) \<noteq> u32_MAX"
    using lens sz small by (simp add: calc_size_MAX_iff [OF calc])
  have less: "\<not> len < sgx_calc_sealed_data_size env (get_add_mac_txt_len sd) (get_encrypt_txt_len sd)"
    using calc_size_exact [OF calc cmax] lens sz len by (auto simp: word_less_nat_alt)
  have pos: "0 < get_encrypt_txt_len sd \<longleftrightarrow> sl_data (get_encrypt_txt sd) \<noteq> []"
    "0 < get_add_mac_txt_len sd \<longleftrightarrow> sl_data (get_additional_txt sd) \<noteq> []"
    using lens by (simp_all add: word_less_nat_alt)
  have kr: "key_request_of_bytes (bytes_of_key_request (sd_key_request sd)) = sd_key_request sd"
    using wf by (simp add: wf_sealed_def)
  show ?thesis
    using reg len sz sum notmax cmax less le
    by (simp add: from_raw_sealed_data_t_def region_ok_def Let_def c_enc c_add pos lens kr in_buf_def
        reboxed_def reads not_less)
qed


lemma blob_ok_reboxed [simp]: "blob_ok (reboxed env sd) = blob_ok sd"
  by (simp add: blob_ok_def reboxed_def)

lemma unseal_reboxed:
  assumes "alloc_in_enclave env"
    and "rsgx_raw_is_within_enclave env self_addr INTERNAL_SEALED_DATA_SIZE"
    and "blob_ok sd" and "sl_len (get_encrypt_txt sd) > 0"
  shows "unseal_data env self_addr (reboxed env sd) = fst (unseal_data_helper env sd)"
proof -
  have "unseal_input_ok env self_addr (reboxed env sd)"
    using assms by (simp add: unseal_input_ok_def reboxed_def new_box_within)
  moreover have "unseal_data_helper env (reboxed env sd) = unseal_data_helper env sd"
    by (simp only: unseal_data_helper_def reboxed_sel)
  ultimately show ?thesis
    using assms by (simp add: unseal_data_eq reboxed_sel)
qed

lemma fresh_key_blob_wf:
  assumes spec: "gcm_spec env" and seal: "seal_with_fresh_key env kp am mm add pt = Inr sd"
    and "length (rb_cpu_svn (report_body (rsgx_self_report env))) = 16"
    and "\<And>key_id. sgx_read_rand env 32 = (SGX_SUCCESS, key_id) \<Longrightarrow> length key_id = 32"
  shows "wf_sealed sd"
proof -
  from seal_with_fresh_key_Inr [OF spec seal] obtain key_id kr key ct tag where
    "sgx_read_rand env 32 = (SGX_SUCCESS, key_id)"
    and "kr = seal_key_request (rsgx_self_report env) kp am mm key_id"
    and "gcm_enc env key seal_iv (sl_data add) (sl_data pt) = Inr (ct, tag)"
    and "sd = sealed_blob env (sl_data add) ct tag \<lparr> sd_key_request := kr \<rparr>"
    by metis
  then show ?thesis
    using assms(3,4) gcm.enc_length [OF spec]
    by (fastforce simp: wf_sealed_def wf_key_request_def seal_key_request_def sealed_blob_def)
qed

section \<open>Properties\<close>

text \<open>
  C6.  Writing and reading stay inside the block the caller described.  Reading holds this even when
  the block is untrusted memory whose contents change between any two reads: the lengths that bound
  the copies are read once and checked after they are read.
\<close>

theorem raw_sealed_data_memory_safe:
  assumes "calc_size_spec env" and "wf_sealed sd" and "length buf = unat len"
    and "\<And>i. length (mem i) = unat len"
  shows "to_raw_sealed_data_t env sd p len buf \<noteq> Ub \<and> from_raw_sealed_data_t env p len mem \<noteq> Ub"
proof
  show "to_raw_sealed_data_t env sd p len buf \<noteq> Ub"
    by (simp add: to_raw_eq [OF assms(1,3,2)])
  show "from_raw_sealed_data_t env p len mem \<noteq> Ub"
    using calc_size_exact [OF assms(1), of "sgx_get_add_mac_txt_len env (mem 2)" "sgx_get_encrypt_txt_len env (mem 3)"]
    by (auto simp: from_raw_sealed_data_t_def Let_def in_buf_def assms(4) word_less_nat_alt)
qed

lemma calc_size_spec_demo: "calc_size_spec demo_env"
  by (simp add: calc_size_spec_def demo_env_def unat_calc_raw_sealed_data_size)

lemma txt_len_spec_demo: "txt_len_spec demo_env"
  by (simp add: txt_len_spec_def demo_env_def plain_text_offset_of_def payload_size_of_def)

definition demo_blob :: SgxInternalSealedData where
  "demo_blob = sealed_blob demo_env [4, 5] [1, 2, 3] (replicate 16 9)"

lemma wf_demo_blob: "wf_sealed demo_blob" "blob_ok demo_blob" "unat (get_payload_size demo_blob) = 5"
  by (simp_all add: demo_blob_def sealed_blob_def wf_sealed_def wf_key_request_def default_key_request_def
      blob_ok_def)

lemma region_demo: "region_ok demo_env 0x100 len"
  by (simp add: region_ok_def demo_env_def rsgx_raw_is_outside_enclave_def)

theorem raw_sealed_data_memory_safe_witness:
  "to_raw_sealed_data_t demo_env demo_blob 0x100 600 (replicate 600 0) \<noteq> Ub
   \<and> from_raw_sealed_data_t demo_env 0x100 600 (\<lambda>i. replicate 600 (of_nat i)) \<noteq> Ub"
  by (rule raw_sealed_data_memory_safe [OF calc_size_spec_demo wf_demo_blob(1)]) simp_all

text \<open>
  C11.  Round trip through the raw image: when \<open>to_raw_sealed_data_t\<close> accepts, reading the block back
  gives the same key request, sizes, tag, ciphertext and associated data, and the bytes of the block
  behind the image are untouched.  It accepts exactly consistent blobs for which the block is large
  enough.
\<close>

theorem raw_sealed_data_roundtrip:
  assumes "calc_size_spec env" and "txt_len_spec env" and "wf_sealed sd" and "length buf = unat len"
  shows "case to_raw_sealed_data_t env sd p len buf of
      Done (Some buf') \<Rightarrow>
        region_ok env p len \<and> blob_ok sd \<and> unat (get_payload_size sd) + SEALED_DATA_SIZE \<le> unat len
        \<and> from_raw_sealed_data_t env p len (\<lambda>_. buf') = Done (Some (reboxed env sd))
        \<and> drop (SEALED_DATA_SIZE + unat (get_payload_size sd)) buf'
            = drop (SEALED_DATA_SIZE + unat (get_payload_size sd)) buf
    | Done None \<Rightarrow>
        \<not> (region_ok env p len \<and> blob_ok sd \<and> unat (get_payload_size sd) + SEALED_DATA_SIZE \<le> unat len)
    | _ \<Rightarrow> False"
proof (cases "region_ok env p len \<and> blob_ok sd \<and> unat (get_payload_size sd) + SEALED_DATA_SIZE \<le> unat len")
  case True
  then have sz: "unat (get_payload_size sd) = sl_len (get_encrypt_txt sd) + sl_len (get_additional_txt sd)"
    by (simp add: blob_ok_def)
  have "drop (SEALED_DATA_SIZE + unat (get_payload_size sd)) (raw_image sd buf)
      = drop (SEALED_DATA_SIZE + unat (get_payload_size sd)) buf"
    using raw_image_reads(8) [OF assms(3), of buf] True assms(4) by (simp add: sz add.assoc)
  then show ?thesis
    using True from_raw_image [OF assms(1,2,3)] assms(4) by (simp add: to_raw_eq [OF assms(1,4,3)])
next
  case False
  then show ?thesis by (auto simp: to_raw_eq [OF assms(1,4,3)])
qed

theorem raw_sealed_data_roundtrip_witness:
  "\<exists>buf'. to_raw_sealed_data_t demo_env demo_blob 0x100 600 (replicate 600 0) = Done (Some buf')
     \<and> from_raw_sealed_data_t demo_env 0x100 600 (\<lambda>_. buf') = Done (Some (reboxed demo_env demo_blob))
     \<and> drop 565 buf' = replicate 35 0"
  using raw_sealed_data_roundtrip [OF calc_size_spec_demo txt_len_spec_demo wf_demo_blob(1),
      of "replicate 600 0" 600 "0x100"]
  by (auto simp: wf_demo_blob region_demo split: outcome.splits option.splits)

text \<open>
  C1.  End to end: a secret sealed with \<open>seal_data\<close>, written out as a raw image, read back by a later
  run and unsealed comes back unchanged together with its associated data.
\<close>

theorem seal_store_load_unseal:
  assumes "gcm_spec env" and "alloc_in_enclave env" and "calc_size_spec env" and "txt_len_spec env"
    and "rsgx_raw_is_within_enclave env self_addr INTERNAL_SEALED_DATA_SIZE"
    and "length (rb_cpu_svn (report_body (rsgx_self_report env))) = 16"
    and "\<And>key_id. sgx_read_rand env 32 = (SGX_SUCCESS, key_id) \<Longrightarrow> length key_id = 32"
    and "seal_data env add pt = Inr sd"
    and "length buf = unat len" and "to_raw_sealed_data_t env sd p len buf = Done (Some buf')"
  shows "\<exists>sd'. from_raw_sealed_data_t env p len (\<lambda>_. buf') = Done (Some sd')
    \<and> unseal_data env self_addr sd' =
        Inr \<lparr> ud_payload_size = of_nat (sl_len pt + sl_len add),
              ud_decrypt = new_box env 0 (sl_data pt), ud_additional = new_box env 1 (sl_data add) \<rparr>"
proof -
  have ok: "seal_input_ok env add pt" and seal: "seal_with_fresh_key env
      (default_key_policy (rsgx_self_report env)) default_attribute_mask TSEAL_DEFAULT_MISCMASK add pt = Inr sd"
    using assms(8) by (simp_all add: seal_data_def Let_def seal_data_ex_eq split: if_splits)
  have wf: "wf_sealed sd"
    using fresh_key_blob_wf [OF assms(1) seal assms(6)] assms(7) by blast
  note blob = fresh_key_blob [OF assms(1) seal]
  have "region_ok env p len \<and> unat (get_payload_size sd) + SEALED_DATA_SIZE \<le> unat len \<and> buf' = raw_image sd buf"
    using assms(10) by (simp add: to_raw_eq [OF assms(3,9) wf] split: if_splits)
  then have "from_raw_sealed_data_t env p len (\<lambda>_. buf') = Done (Some (reboxed env sd))"
    using from_raw_image [OF assms(3,4) wf] blob(1) ok assms(9) by (simp add: seal_input_ok_def)
  moreover have "sl_len (get_encrypt_txt sd) > 0"
    using blob(2) ok by (simp only: seal_input_ok_def)
  then have "unseal_data env self_addr (reboxed env sd) = fst (unseal_data_helper env sd)"
    using unseal_reboxed [OF assms(2,5)] blob(1) ok by (simp add: seal_input_ok_def)
  ultimately show ?thesis
    using blob(4) ok by (simp add: seal_input_ok_def)
qed

theorem seal_store_load_unseal_witness:
  "\<exists>sd buf' sd'. seal_data demo_env demo_label demo_secret = Inr sd
     \<and> to_raw_sealed_data_t demo_env sd 0x100 600 (replicate 600 0) = Done (Some buf')
     \<and> from_raw_sealed_data_t demo_env 0x100 600 (\<lambda>_. buf') = Done (Some sd')
     \<and> unseal_data demo_env 0x4000 sd' =
         Inr \<lparr> ud_payload_size = 5, ud_decrypt = new_box demo_env 0 [1, 2, 3],
               ud_additional = new_box demo_env 1 [4, 5] \<rparr>"
proof -
  obtain sd where sd: "seal_data demo_env demo_label demo_secret = Inr sd"
    using seal_data_demo by blast
  have ok: "seal_input_ok demo_env demo_label demo_secret" and seal: "seal_with_fresh_key demo_env
      (default_key_policy (rsgx_self_report demo_env)) default_attribute_mask TSEAL_DEFAULT_MISCMASK
      demo_label demo_secret = Inr sd"
    using sd by (simp_all add: seal_data_def Let_def seal_data_ex_eq split: if_splits)
  have svn: "length (rb_cpu_svn (report_body (rsgx_self_report demo_env))) = 16"
    by (simp add: rsgx_self_report_def demo_env_def demo_report_def)
  have rand: "length key_id = 32" if "sgx_read_rand demo_env 32 = (SGX_SUCCESS, key_id)" for key_id
    using that by (auto simp: demo_env_def)
  have wf: "wf_sealed sd"
    using fresh_key_blob_wf [OF gcm_spec_demo seal svn] rand by blast
  have "blob_ok sd" "unat (get_payload_size sd) = 5"
    using fresh_key_blob [OF gcm_spec_demo seal] by (auto simp: demo_checks blob_ok_def)
  then have raw: "to_raw_sealed_data_t demo_env sd 0x100 600 (replicate 600 0) = Done (Some (raw_image sd (replicate 600 0)))"
    by (simp add: to_raw_eq [OF calc_size_spec_demo _ wf] region_demo)
  have "\<exists>sd'. from_raw_sealed_data_t demo_env 0x100 600 (\<lambda>_. raw_image sd (replicate 600 0)) = Done (Some sd')
    \<and> unseal_data demo_env 0x4000 sd' =
        Inr \<lparr> ud_payload_size = of_nat (sl_len demo_secret + sl_len demo_label),
              ud_decrypt = new_box demo_env 0 (sl_data demo_secret),
              ud_additional = new_box demo_env 1 (sl_data demo_label) \<rparr>"
    by (rule seal_store_load_unseal [OF gcm_spec_demo alloc_in_enclave_demo calc_size_spec_demo txt_len_spec_demo
        demo_checks(3) svn _ sd _ raw]) (use rand in simp_all)
  then show ?thesis
    using sd raw by (auto simp: demo_checks)
qed

end
