(* ===== verification/Tseal_Typed.thy ===== *)
theory Tseal_Typed
  imports Tseal_Raw
begin

text \<open>
  \<open>sgx_tseal\<close>, the typed interface (seal.rs, aad.rs).  A type \<open>T: Copy + ContiguousMemory\<close> is given by
  its \<open>layout\<close>: its size, the bytes of a value, and the value some bytes denote.  A reference
  \<open>&T\<close> or \<open>&[T]\<close> is an address and the value there.  The wrapper structs hold nothing but the blob.
\<close>

section \<open>Types as byte images\<close>

record 'a layout =
  lay_size :: nat
  lay_bytes :: "'a \<Rightarrow> bytes"
  lay_value :: "bytes \<Rightarrow> 'a"

definition slice_bytes :: "'a layout \<Rightarrow> 'a list \<Rightarrow> bytes" where
  "slice_bytes L xs = concat (map (lay_bytes L) xs)"

text \<open>\<open>slice::from_raw_parts_mut(ptr as *mut T, n)\<close> over a byte buffer.\<close>

definition slice_values :: "'a layout \<Rightarrow> nat \<Rightarrow> bytes \<Rightarrow> 'a list" where
  "slice_values L n bs = map (\<lambda>i. lay_value L (take (lay_size L) (drop (i * lay_size L) bs))) [0..<n]"

locale contiguous =
  fixes L :: "'a layout"
  assumes size_bytes: "length (lay_bytes L x) = lay_size L"
    and value_bytes: "lay_value L (lay_bytes L x) = x"
begin

lemma length_slice_bytes: "length (slice_bytes L xs) = length xs * lay_size L"
  by (induction xs) (simp_all add: slice_bytes_def size_bytes)

lemma nth_slice_bytes:
  "i < length xs \<Longrightarrow> take (lay_size L) (drop (i * lay_size L) (slice_bytes L xs)) = lay_bytes L (xs ! i)"
proof (induction xs arbitrary: i)
  case (Cons x xs)
  then show ?case
    by (cases i) (simp_all add: slice_bytes_def size_bytes)
qed simp

lemma slice_values_bytes: "n = length xs \<Longrightarrow> slice_values L n (slice_bytes L xs) = xs"
  by (rule nth_equalityI) (simp_all add: slice_values_def nth_slice_bytes value_bytes)

end

definition u32_layout :: "u32 layout" where
  "u32_layout = \<lparr> lay_size = 4, lay_bytes = le_bytes 4, lay_value = le_word \<rparr>"

definition u64_layout :: "u64 layout" where
  "u64_layout = \<lparr> lay_size = 8, lay_bytes = le_bytes 8, lay_value = le_word \<rparr>"

definition attributes_layout :: "sgx_attributes_t layout" where
  "attributes_layout =
     \<lparr> lay_size = 16, lay_bytes = (\<lambda>a. le_bytes 8 (attr_flags a) @ le_bytes 8 (attr_xfrm a)),
       lay_value = (\<lambda>bs. \<lparr> attr_flags = le_word (take 8 bs), attr_xfrm = le_word (drop 8 bs) \<rparr>) \<rparr>"

interpretation u32_lay: contiguous u32_layout
  by unfold_locales (simp_all add: u32_layout_def)

interpretation u64_lay: contiguous u64_layout
  by unfold_locales (simp_all add: u64_layout_def)

interpretation attributes_lay: contiguous attributes_layout
  by unfold_locales (simp_all add: attributes_layout_def)

section \<open>seal.rs\<close>

record 'a SgxUnsealedData =
  su_payload_size :: u32
  su_decrypt :: 'a
  su_additional :: slice

definition SgxSealedData_seal_data ::
  "'z tseal_ext_scheme \<Rightarrow> 'a layout \<Rightarrow> slice \<Rightarrow> u64 \<Rightarrow> 'a \<Rightarrow> SgxInternalSealedData SgxResult" where
  "SgxSealedData_seal_data env L additional_text addr encrypt_text =
     (if lay_size L = 0 then Inl SGX_ERROR_INVALID_PARAMETER
      else let encrypt_slice = \<lparr> sl_ptr = addr, sl_data = lay_bytes L encrypt_text \<rparr>
        in seal_data env additional_text encrypt_slice)"

definition SgxSealedData_seal_data_ex ::
  "'z tseal_ext_scheme \<Rightarrow> 'a layout \<Rightarrow> u16 \<Rightarrow> sgx_attributes_t \<Rightarrow> u32 \<Rightarrow> slice \<Rightarrow> u64 \<Rightarrow> 'a
     \<Rightarrow> SgxInternalSealedData SgxResult" where
  "SgxSealedData_seal_data_ex env L kp am mm additional_text addr encrypt_text =
     (if lay_size L = 0 then Inl SGX_ERROR_INVALID_PARAMETER
      else let encrypt_slice = \<lparr> sl_ptr = addr, sl_data = lay_bytes L encrypt_text \<rparr>
        in seal_data_ex env kp am mm additional_text encrypt_slice)"

definition SgxSealedData_unseal_data ::
  "'z tseal_ext_scheme \<Rightarrow> 'a layout \<Rightarrow> u64 \<Rightarrow> SgxInternalSealedData \<Rightarrow> 'a SgxUnsealedData SgxResult" where
  "SgxSealedData_unseal_data env L self_addr sd =
     (if lay_size L = 0 then Inl SGX_ERROR_INVALID_PARAMETER
      else if lay_size L \<noteq> unat (get_encrypt_txt_len sd) then Inl SGX_ERROR_MAC_MISMATCH
      else map_ok (\<lambda>x. \<lparr> su_payload_size = ud_payload_size x, su_decrypt = lay_value L (sl_data (ud_decrypt x)),
                         su_additional = ud_additional x \<rparr>)
             (unseal_data env self_addr sd))"

definition SgxSealedData_from_raw_sealed_data_t ::
  "'z tseal_ext_scheme \<Rightarrow> 'a layout \<Rightarrow> u64 \<Rightarrow> u32 \<Rightarrow> (nat \<Rightarrow> bytes) \<Rightarrow> SgxInternalSealedData option outcome" where
  "SgxSealedData_from_raw_sealed_data_t env L p len mem =
     (if lay_size L = 0 then Done None else from_raw_sealed_data_t env p len mem)"

definition SgxSealedData_to_raw_sealed_data_t ::
  "'z tseal_ext_scheme \<Rightarrow> SgxInternalSealedData \<Rightarrow> u64 \<Rightarrow> u32 \<Rightarrow> bytes \<Rightarrow> bytes option outcome" where
  "SgxSealedData_to_raw_sealed_data_t env sd p len buf = to_raw_sealed_data_t env sd p len buf"

text \<open>The instance for slices.\<close>

definition SgxSealedData_slice_seal_data ::
  "'z tseal_ext_scheme \<Rightarrow> 'a layout \<Rightarrow> slice \<Rightarrow> u64 \<Rightarrow> 'a list \<Rightarrow> SgxInternalSealedData SgxResult" where
  "SgxSealedData_slice_seal_data env L additional_text addr encrypt_text =
     (let len = length encrypt_text * lay_size L in
      if lay_size L = 0 \<or> len = 0 then Inl SGX_ERROR_INVALID_PARAMETER
      else let encrypt_slice = \<lparr> sl_ptr = addr, sl_data = slice_bytes L encrypt_text \<rparr>
        in seal_data env additional_text encrypt_slice)"

definition SgxSealedData_slice_seal_data_ex ::
  "'z tseal_ext_scheme \<Rightarrow> 'a layout \<Rightarrow> u16 \<Rightarrow> sgx_attributes_t \<Rightarrow> u32 \<Rightarrow> slice \<Rightarrow> u64 \<Rightarrow> 'a list
     \<Rightarrow> SgxInternalSealedData SgxResult" where
  "SgxSealedData_slice_seal_data_ex env L kp am mm additional_text addr encrypt_text =
     (let len = length encrypt_text * lay_size L in
      if lay_size L = 0 \<or> len = 0 then Inl SGX_ERROR_INVALID_PARAMETER
      else let encrypt_slice = \<lparr> sl_ptr = addr, sl_data = slice_bytes L encrypt_text \<rparr>
        in seal_data_ex env kp am mm additional_text encrypt_slice)"

definition SgxSealedData_slice_unseal_data ::
  "'z tseal_ext_scheme \<Rightarrow> 'a layout \<Rightarrow> u64 \<Rightarrow> SgxInternalSealedData \<Rightarrow> 'a list SgxUnsealedData SgxResult" where
  "SgxSealedData_slice_unseal_data env L self_addr sd =
     (if lay_size L = 0 then Inl SGX_ERROR_INVALID_PARAMETER
      else let encrypt_len = unat (get_encrypt_txt_len sd) in
        if lay_size L > encrypt_len then Inl SGX_ERROR_MAC_MISMATCH
        else if encrypt_len mod lay_size L \<noteq> 0 then Inl SGX_ERROR_MAC_MISMATCH
        else map_ok (\<lambda>x. \<lparr> su_payload_size = ud_payload_size x,
                           su_decrypt = slice_values L (encrypt_len div lay_size L) (sl_data (ud_decrypt x)),
                           su_additional = ud_additional x \<rparr>)
               (unseal_data env self_addr sd))"

definition SgxSealedData_slice_from_raw_sealed_data_t ::
  "'z tseal_ext_scheme \<Rightarrow> 'a layout \<Rightarrow> u64 \<Rightarrow> u32 \<Rightarrow> (nat \<Rightarrow> bytes) \<Rightarrow> SgxInternalSealedData option outcome" where
  "SgxSealedData_slice_from_raw_sealed_data_t env L p len mem =
     (if lay_size L = 0 then Done None else from_raw_sealed_data_t env p len mem)"

definition SgxSealedData_slice_to_raw_sealed_data_t ::
  "'z tseal_ext_scheme \<Rightarrow> SgxInternalSealedData \<Rightarrow> u64 \<Rightarrow> u32 \<Rightarrow> bytes \<Rightarrow> bytes option outcome" where
  "SgxSealedData_slice_to_raw_sealed_data_t env sd p len buf = to_raw_sealed_data_t env sd p len buf"

section \<open>aad.rs\<close>

definition SgxMacAadata_mac_aadata ::
  "'z tseal_ext_scheme \<Rightarrow> 'a layout \<Rightarrow> u64 \<Rightarrow> 'a \<Rightarrow> SgxInternalSealedData SgxResult" where
  "SgxMacAadata_mac_aadata env L addr additional_text =
     (if lay_size L = 0 then Inl SGX_ERROR_INVALID_PARAMETER
      else let aad_slice = \<lparr> sl_ptr = addr, sl_data = lay_bytes L additional_text \<rparr>
        in mac_aadata env aad_slice)"

definition SgxMacAadata_mac_aadata_ex ::
  "'z tseal_ext_scheme \<Rightarrow> 'a layout \<Rightarrow> u16 \<Rightarrow> sgx_attributes_t \<Rightarrow> u32 \<Rightarrow> u64 \<Rightarrow> 'a
     \<Rightarrow> SgxInternalSealedData SgxResult" where
  "SgxMacAadata_mac_aadata_ex env L kp am mm addr additional_text =
     (if lay_size L = 0 then Inl SGX_ERROR_INVALID_PARAMETER
      else let aad_slice = \<lparr> sl_ptr = addr, sl_data = lay_bytes L additional_text \<rparr>
        in mac_aadata_ex env kp am mm aad_slice)"

definition SgxMacAadata_unmac_aadata ::
  "'z tseal_ext_scheme \<Rightarrow> 'a layout \<Rightarrow> u64 \<Rightarrow> SgxInternalSealedData \<Rightarrow> 'a SgxResult" where
  "SgxMacAadata_unmac_aadata env L self_addr sd =
     (if lay_size L = 0 then Inl SGX_ERROR_INVALID_PARAMETER
      else if lay_size L \<noteq> unat (get_add_mac_txt_len sd) then Inl SGX_ERROR_MAC_MISMATCH
      else map_ok (\<lambda>x. lay_value L (sl_data (ud_additional x))) (unmac_aadata env self_addr sd))"

definition SgxMacAadata_from_raw_sealed_data_t ::
  "'z tseal_ext_scheme \<Rightarrow> 'a layout \<Rightarrow> u64 \<Rightarrow> u32 \<Rightarrow> (nat \<Rightarrow> bytes) \<Rightarrow> SgxInternalSealedData option outcome" where
  "SgxMacAadata_from_raw_sealed_data_t env L p len mem =
     (if lay_size L = 0 then Done None else from_raw_sealed_data_t env p len mem)"

definition SgxMacAadata_to_raw_sealed_data_t ::
  "'z tseal_ext_scheme \<Rightarrow> SgxInternalSealedData \<Rightarrow> u64 \<Rightarrow> u32 \<Rightarrow> bytes \<Rightarrow> bytes option outcome" where
  "SgxMacAadata_to_raw_sealed_data_t env sd p len buf = to_raw_sealed_data_t env sd p len buf"

definition SgxMacAadata_slice_mac_aadata ::
  "'z tseal_ext_scheme \<Rightarrow> 'a layout \<Rightarrow> u64 \<Rightarrow> 'a list \<Rightarrow> SgxInternalSealedData SgxResult" where
  "SgxMacAadata_slice_mac_aadata env L addr additional_text =
     (let len = length additional_text * lay_size L in
      if lay_size L = 0 \<or> len = 0 then Inl SGX_ERROR_INVALID_PARAMETER
      else let aad_slice = \<lparr> sl_ptr = addr, sl_data = slice_bytes L additional_text \<rparr>
        in mac_aadata env aad_slice)"

definition SgxMacAadata_slice_mac_aadata_ex ::
  "'z tseal_ext_scheme \<Rightarrow> 'a layout \<Rightarrow> u16 \<Rightarrow> sgx_attributes_t \<Rightarrow> u32 \<Rightarrow> u64 \<Rightarrow> 'a list
     \<Rightarrow> SgxInternalSealedData SgxResult" where
  "SgxMacAadata_slice_mac_aadata_ex env L kp am mm addr additional_text =
     (let len = length additional_text * lay_size L in
      if lay_size L = 0 \<or> len = 0 then Inl SGX_ERROR_INVALID_PARAMETER
      else let aad_slice = \<lparr> sl_ptr = addr, sl_data = slice_bytes L additional_text \<rparr>
        in mac_aadata_ex env kp am mm aad_slice)"

definition SgxMacAadata_slice_unmac_aadata ::
  "'z tseal_ext_scheme \<Rightarrow> 'a layout \<Rightarrow> u64 \<Rightarrow> SgxInternalSealedData \<Rightarrow> 'a list SgxResult" where
  "SgxMacAadata_slice_unmac_aadata env L self_addr sd =
     (if lay_size L = 0 then Inl SGX_ERROR_INVALID_PARAMETER
      else let aad_len = unat (get_add_mac_txt_len sd) in
        if lay_size L > aad_len then Inl SGX_ERROR_MAC_MISMATCH
        else if aad_len mod lay_size L \<noteq> 0 then Inl SGX_ERROR_MAC_MISMATCH
        else map_ok (\<lambda>x. slice_values L (aad_len div lay_size L) (sl_data (ud_additional x)))
               (unmac_aadata env self_addr sd))"

definition SgxMacAadata_slice_from_raw_sealed_data_t ::
  "'z tseal_ext_scheme \<Rightarrow> 'a layout \<Rightarrow> u64 \<Rightarrow> u32 \<Rightarrow> (nat \<Rightarrow> bytes) \<Rightarrow> SgxInternalSealedData option outcome" where
  "SgxMacAadata_slice_from_raw_sealed_data_t env L p len mem =
     (if lay_size L = 0 then Done None else from_raw_sealed_data_t env p len mem)"

definition SgxMacAadata_slice_to_raw_sealed_data_t ::
  "'z tseal_ext_scheme \<Rightarrow> SgxInternalSealedData \<Rightarrow> u64 \<Rightarrow> u32 \<Rightarrow> bytes \<Rightarrow> bytes option outcome" where
  "SgxMacAadata_slice_to_raw_sealed_data_t env sd p len buf = to_raw_sealed_data_t env sd p len buf"


section \<open>Properties\<close>

text \<open>The facts about a blob of the untyped interface that the typed one uses.\<close>

lemma seal_data_unseal:
  assumes "gcm_spec env" and "alloc_in_enclave env"
    and "rsgx_raw_is_within_enclave env self_addr INTERNAL_SEALED_DATA_SIZE"
    and "seal_data env add pt = Inr sd"
  shows "unat (get_encrypt_txt_len sd) = sl_len pt"
    and "unseal_data env self_addr sd =
      Inr \<lparr> ud_payload_size = of_nat (sl_len pt + sl_len add),
            ud_decrypt = new_box env 0 (sl_data pt), ud_additional = new_box env 1 (sl_data add) \<rparr>"
proof -
  have ok: "seal_input_ok env add pt" and seal: "seal_with_fresh_key env
      (default_key_policy (rsgx_self_report env)) default_attribute_mask TSEAL_DEFAULT_MISCMASK add pt = Inr sd"
    using assms(4) by (simp_all add: seal_data_def Let_def seal_data_ex_eq split: if_splits)
  note blob = fresh_key_blob [OF assms(1) seal]
  show "unat (get_encrypt_txt_len sd) = sl_len pt"
    using blob blob_ok_lens ok by (simp add: seal_input_ok_def)
  show "unseal_data env self_addr sd =
      Inr \<lparr> ud_payload_size = of_nat (sl_len pt + sl_len add),
            ud_decrypt = new_box env 0 (sl_data pt), ud_additional = new_box env 1 (sl_data add) \<rparr>"
    using blob fresh_key_blob_accepted [OF assms(1) seal assms(2,3)] ok
    by (auto simp: unseal_data_eq seal_input_ok_def)
qed

lemma mac_aadata_unmac:
  assumes "gcm_spec env" and "alloc_in_enclave env"
    and "rsgx_raw_is_within_enclave env self_addr INTERNAL_SEALED_DATA_SIZE"
    and "mac_aadata env add = Inr sd"
  shows "unat (get_add_mac_txt_len sd) = sl_len add"
    and "unmac_aadata env self_addr sd =
      Inr \<lparr> ud_payload_size = of_nat (sl_len add),
            ud_decrypt = empty_box, ud_additional = new_box env 1 (sl_data add) \<rparr>"
proof -
  have ok: "mac_input_ok env add" and seal: "seal_with_fresh_key env
      (default_key_policy (rsgx_self_report env)) default_attribute_mask TSEAL_DEFAULT_MISCMASK add empty_box = Inr sd"
    using assms(4) by (simp_all add: mac_aadata_def Let_def mac_aadata_ex_eq split: if_splits)
  note blob = fresh_key_blob [OF assms(1) seal]
  show "unat (get_add_mac_txt_len sd) = sl_len add"
    using blob blob_ok_lens ok by (simp add: mac_input_ok_def)
  show "unmac_aadata env self_addr sd =
      Inr \<lparr> ud_payload_size = of_nat (sl_len add),
            ud_decrypt = empty_box, ud_additional = new_box env 1 (sl_data add) \<rparr>"
    using blob fresh_key_blob_accepted [OF assms(1) seal assms(2,3)] ok
    by (auto simp: unmac_aadata_eq mac_input_ok_def new_box_Nil)
qed

text \<open>
  C28.  Typed sealing of a slice: unsealing at the element type gives the elements back in order, and
  unsealing at an element type whose size does not divide the sealed bytes is refused as a MAC
  mismatch, without reinterpreting a byte.
\<close>

theorem typed_slice_seal_roundtrip:
  assumes "contiguous L" and "gcm_spec env" and "alloc_in_enclave env"
    and "rsgx_raw_is_within_enclave env self_addr INTERNAL_SEALED_DATA_SIZE"
    and "SgxSealedData_slice_seal_data env L add addr xs = Inr sd"
    and "lay_size L' \<noteq> 0" and "\<not> lay_size L' dvd length xs * lay_size L"
  shows "SgxSealedData_slice_unseal_data env L self_addr sd =
      Inr \<lparr> su_payload_size = of_nat (length xs * lay_size L + sl_len add), su_decrypt = xs,
            su_additional = new_box env 1 (sl_data add) \<rparr>
    \<and> SgxSealedData_slice_unseal_data env L' self_addr sd = Inl SGX_ERROR_MAC_MISMATCH"
proof -
  note len = contiguous.length_slice_bytes [OF assms(1)]
  have pos: "lay_size L > 0" "length xs > 0"
    and seal: "seal_data env add \<lparr> sl_ptr = addr, sl_data = slice_bytes L xs \<rparr> = Inr sd"
    using assms(5) by (auto simp: SgxSealedData_slice_seal_data_def Let_def split: if_splits)
  note facts = seal_data_unseal [OF assms(2,3,4) seal]
  have "length xs * lay_size L mod lay_size L' \<noteq> 0"
    using assms(7) by (simp add: dvd_eq_mod_eq_0)
  moreover have "lay_size L \<le> length xs * lay_size L"
    using pos by (cases xs) simp_all
  ultimately show ?thesis
    using facts pos assms(6) contiguous.slice_values_bytes [OF assms(1)]
    by (simp add: SgxSealedData_slice_unseal_data_def Let_def len)
qed

theorem typed_slice_seal_roundtrip_witness:
  "\<exists>sd. SgxSealedData_slice_seal_data demo_env u32_layout demo_label 0x5000 [7, 8, 9] = Inr sd
     \<and> SgxSealedData_slice_unseal_data demo_env u32_layout 0x4000 sd =
         Inr \<lparr> su_payload_size = 14, su_decrypt = [7, 8, 9], su_additional = new_box demo_env 1 [4, 5] \<rparr>
     \<and> SgxSealedData_slice_unseal_data demo_env u64_layout 0x4000 sd = Inl SGX_ERROR_MAC_MISMATCH"
proof -
  define pt where "pt = \<lparr> sl_ptr = 0x5000, sl_data = slice_bytes u32_layout [7, 8, 9] \<rparr>"
  have sz: "lay_size u32_layout = 4" "lay_size u64_layout = 8" "sl_len pt = 12"
    by (simp_all add: u32_layout_def u64_layout_def pt_def slice_bytes_def)
  have "seal_input_ok demo_env demo_label pt"
    using sz by (simp add: seal_input_ok_def demo_checks rsgx_slice_is_within_enclave_def
        rsgx_raw_is_within_enclave_def) (simp add: demo_env_def pt_def)
  moreover have "default_key_policy (rsgx_self_report demo_env) AND 3 \<noteq> 0"
    by (simp add: default_key_policy_def KEY_POLICY_KSS_def key_policy_defs)
  ultimately have "\<exists>sd. seal_data demo_env demo_label pt = Inr sd"
    using seal_with_fresh_key_demo [of _ pt demo_label] sz
    by (fastforce simp: seal_data_def seal_data_ex_eq default_policy_ok demo_checks)
  then obtain sd where "SgxSealedData_slice_seal_data demo_env u32_layout demo_label 0x5000 [7, 8, 9] = Inr sd"
    using sz by (auto simp: SgxSealedData_slice_seal_data_def pt_def)
  then show ?thesis
    using typed_slice_seal_roundtrip [OF u32_lay.contiguous_axioms gcm_spec_demo alloc_in_enclave_demo
        demo_checks(3), of demo_label "0x5000" "[7, 8, 9]" sd u64_layout] sz
    by (simp add: demo_checks)
qed

text \<open>
  Typed authenticated data: \<open>unmac_aadata\<close> returns the value (and the slice instance the
  elements) that \<open>mac_aadata\<close> was given.
\<close>

theorem typed_mac_roundtrip:
  assumes "contiguous L" and "gcm_spec env" and "alloc_in_enclave env"
    and "rsgx_raw_is_within_enclave env self_addr INTERNAL_SEALED_DATA_SIZE"
    and "SgxMacAadata_mac_aadata env L addr x = Inr sd"
    and "SgxMacAadata_slice_mac_aadata env L addr' xs = Inr sd'"
  shows "SgxMacAadata_unmac_aadata env L self_addr sd = Inr x
    \<and> SgxMacAadata_slice_unmac_aadata env L self_addr sd' = Inr xs"
proof
  have pos: "lay_size L > 0" "length xs > 0"
    and mac: "mac_aadata env \<lparr> sl_ptr = addr, sl_data = lay_bytes L x \<rparr> = Inr sd"
    and mac': "mac_aadata env \<lparr> sl_ptr = addr', sl_data = slice_bytes L xs \<rparr> = Inr sd'"
    using assms(5,6)
    by (auto simp: SgxMacAadata_mac_aadata_def SgxMacAadata_slice_mac_aadata_def Let_def split: if_splits)
  show "SgxMacAadata_unmac_aadata env L self_addr sd = Inr x"
    using mac_aadata_unmac [OF assms(2,3,4) mac] pos contiguous.size_bytes [OF assms(1)]
      contiguous.value_bytes [OF assms(1)]
    by (simp add: SgxMacAadata_unmac_aadata_def)
  have "lay_size L \<le> length xs * lay_size L"
    using pos by (cases xs) simp_all
  then show "SgxMacAadata_slice_unmac_aadata env L self_addr sd' = Inr xs"
    using mac_aadata_unmac [OF assms(2,3,4) mac'] pos contiguous.length_slice_bytes [OF assms(1)]
      contiguous.slice_values_bytes [OF assms(1)]
    by (simp add: SgxMacAadata_slice_unmac_aadata_def Let_def)
qed

theorem typed_mac_roundtrip_witness:
  "\<exists>sd sd'. SgxMacAadata_mac_aadata demo_env u32_layout 0x100 5 = Inr sd
     \<and> SgxMacAadata_slice_mac_aadata demo_env u32_layout 0x100 [1, 2] = Inr sd'
     \<and> SgxMacAadata_unmac_aadata demo_env u32_layout 0x4000 sd = Inr 5
     \<and> SgxMacAadata_slice_unmac_aadata demo_env u32_layout 0x4000 sd' = Inr [1, 2]"
proof -
  have ex: "\<exists>sd. mac_aadata demo_env \<lparr> sl_ptr = 0x100, sl_data = bs \<rparr> = Inr sd"
    if "0 < length bs" "length bs < 100" for bs
  proof -
    have "mac_input_ok demo_env \<lparr> sl_ptr = 0x100, sl_data = bs \<rparr>"
      using that by (simp add: mac_input_ok_def rsgx_slice_is_outside_enclave_def
          rsgx_raw_is_outside_enclave_def) (simp add: demo_env_def)
    moreover have "default_key_policy (rsgx_self_report demo_env) AND 3 \<noteq> 0"
      by (simp add: default_key_policy_def KEY_POLICY_KSS_def key_policy_defs)
    ultimately show ?thesis
      using seal_with_fresh_key_demo [of _ empty_box "\<lparr> sl_ptr = 0x100, sl_data = bs \<rparr>"] that
      by (fastforce simp: mac_aadata_def mac_aadata_ex_eq default_policy_ok)
  qed
  obtain sd sd' where "SgxMacAadata_mac_aadata demo_env u32_layout 0x100 5 = Inr sd"
    and "SgxMacAadata_slice_mac_aadata demo_env u32_layout 0x100 [1, 2] = Inr sd'"
    using ex [of "le_bytes 4 (5 :: u32)"] ex [of "slice_bytes u32_layout [1, 2]"]
    by (auto simp: SgxMacAadata_mac_aadata_def SgxMacAadata_slice_mac_aadata_def u32_layout_def slice_bytes_def)
  then show ?thesis
    using typed_mac_roundtrip [OF u32_lay.contiguous_axioms gcm_spec_demo alloc_in_enclave_demo
        demo_checks(3)] by blast
qed

end
