(* ===== verification/Thread_Mutex.thy ===== *)
theory Thread_Mutex
  imports Sgx_Types
begin

text \<open>
  \<open>sgx_tstd\<close>, sys/mutex.rs: the calls that park and wake threads outside the enclave, and the mutex
  built from a spin lock, an owner, a count and a queue of waiting threads.

  Every operation of the mutex runs between \<open>self.lock.lock()\<close> and \<open>self.lock.unlock()\<close> of the spin
  lock of Intel's runtime, so an operation, or one round of the loop in \<open>lock\<close>, is one function on the
  mutex; \<open>Thread_Condvar\<close> interleaves them.  A thread is the address of its thread data, \<open>0\<close> is none.
\<close>

section \<open>Waiting and waking\<close>

type_synonym tid = u64
type_synonym SysError = "int + unit"

abbreviation SGX_THREAD_T_NULL :: tid where "SGX_THREAD_T_NULL \<equiv> 0"
abbreviation EPERM :: int where "EPERM \<equiv> 1"
abbreviation EBUSY :: int where "EBUSY \<equiv> 16"
abbreviation EDEADLK :: int where "EDEADLK \<equiv> 35"
abbreviation ETIMEDOUT :: int where "ETIMEDOUT \<equiv> 110"
abbreviation ESGX :: int where "ESGX \<equiv> 0xFFFF"

record Duration =
  dur_secs :: u64
  dur_nanos :: u32

text \<open>\<open>None\<close> is the null pointer: wait without a limit.\<close>

definition timeout_ptr :: "Duration \<Rightarrow> (int \<times> int) option" where
  "timeout_ptr dur =
     (if dur \<noteq> \<lparr> dur_secs = -1, dur_nanos = 1000000000 - 1 \<rparr>
      then Some (min (uint (dur_secs dur)) (2 ^ 63 - 1), uint (dur_nanos dur)) else None)"

text \<open>
  An outside call gives its status and the result and error it stored.  The functions return their
  result and the value \<open>errno\<close> is set to, if it is set.
\<close>

type_synonym ocall_ret = "sgx_status_t \<times> int \<times> int"

definition thread_wait_event :: "(tid \<Rightarrow> (int \<times> int) option \<Rightarrow> ocall_ret) \<Rightarrow> tid \<Rightarrow> Duration \<Rightarrow> int \<times> int option" where
  "thread_wait_event u_thread_wait_event_ocall tcs dur =
     (case u_thread_wait_event_ocall tcs (timeout_ptr dur) of (status, result, error) \<Rightarrow>
        if status = SGX_SUCCESS then (result, if result = -1 then Some error else None)
        else (-1, Some ESGX))"

definition thread_set_event :: "(tid \<Rightarrow> ocall_ret) \<Rightarrow> tid \<Rightarrow> int \<times> int option" where
  "thread_set_event u_thread_set_event_ocall tcs =
     (case u_thread_set_event_ocall tcs of (status, result, error) \<Rightarrow>
        if status = SGX_SUCCESS then (result, if result = -1 then Some error else None)
        else (-1, Some ESGX))"

definition thread_set_multiple_events :: "(tid list \<Rightarrow> nat \<Rightarrow> ocall_ret) \<Rightarrow> tid list \<Rightarrow> int \<times> int option" where
  "thread_set_multiple_events u_thread_set_multiple_events_ocall tcss =
     (case u_thread_set_multiple_events_ocall tcss (length tcss) of (status, result, error) \<Rightarrow>
        if status = SGX_SUCCESS then (result, if result = -1 then Some error else None)
        else (-1, Some ESGX))"

definition thread_setwait_events ::
  "(tid \<Rightarrow> tid \<Rightarrow> (int \<times> int) option \<Rightarrow> ocall_ret) \<Rightarrow> tid \<Rightarrow> tid \<Rightarrow> Duration \<Rightarrow> int \<times> int option" where
  "thread_setwait_events u_thread_setwait_events_ocall wait_tcs self_tcs dur =
     (case u_thread_setwait_events_ocall wait_tcs self_tcs (timeout_ptr dur) of (status, result, error) \<Rightarrow>
        if status = SGX_SUCCESS then (result, if result = -1 then Some error else None)
        else (-1, Some ESGX))"

section \<open>The mutex\<close>

datatype SgxThreadMutexControl = SGX_THREAD_MUTEX_NONRECURSIVE | SGX_THREAD_MUTEX_RECURSIVE

record SgxThreadMutexInner =
  refcount :: u64
  control :: SgxThreadMutexControl
  owner :: tid
  queue :: "tid list"

definition mutex_new :: "SgxThreadMutexControl \<Rightarrow> SgxThreadMutexInner" where
  "mutex_new c = \<lparr> refcount = 0, control = c, owner = SGX_THREAD_T_NULL, queue = [] \<rparr>"

text \<open>\<open>LinkedList::front\<close>\<close>

definition front :: "'a list \<Rightarrow> 'a option" where
  "front xs = (case xs of [] \<Rightarrow> None | x # _ \<Rightarrow> Some x)"

lemma front_simps [simp]: "front [] = None" "front (x # xs) = Some x"
  by (simp_all add: front_def)

lemma front_eq_Some_iff: "front xs = Some x \<longleftrightarrow> (\<exists>ys. xs = x # ys)"
  by (cases xs) auto

lemma front_eq_None_iff [simp]: "front xs = None \<longleftrightarrow> xs = []"
  by (cases xs) auto

text \<open>
  One round of the loop of \<open>lock\<close>: \<open>True\<close> when it returns \<open>Ok\<close>, \<open>False\<close> when it goes on to wait.
\<close>

definition lock_round :: "tid \<Rightarrow> SgxThreadMutexInner \<Rightarrow> SgxThreadMutexInner \<times> bool" where
  "lock_round self m =
     (if control m = SGX_THREAD_MUTEX_RECURSIVE \<and> owner m = self
      then (m \<lparr> refcount := refcount m + 1 \<rparr>, True)
      else if owner m = SGX_THREAD_T_NULL \<and> (front (queue m) = Some self \<or> front (queue m) = None)
      then (m \<lparr> queue := (if front (queue m) = Some self then tl (queue m) else queue m),
               owner := self, refcount := refcount m + 1 \<rparr>, True)
      else (m \<lparr> queue := (if self \<notin> set (queue m) then queue m @ [self] else queue m) \<rparr>, False))"

definition try_lock :: "tid \<Rightarrow> SgxThreadMutexInner \<Rightarrow> SgxThreadMutexInner \<times> SysError" where
  "try_lock self m =
     (if control m = SGX_THREAD_MUTEX_RECURSIVE \<and> owner m = self
      then (m \<lparr> refcount := refcount m + 1 \<rparr>, Inr ())
      else if owner m = SGX_THREAD_T_NULL \<and> (front (queue m) = Some self \<or> front (queue m) = None)
      then (m \<lparr> queue := (if front (queue m) = Some self then tl (queue m) else queue m),
               owner := self, refcount := refcount m + 1 \<rparr>, Inr ())
      else (m, Inl EBUSY))"

text \<open>\<open>unlock_lazy\<close> gives the error or the thread the caller has to wake, \<open>0\<close> for none.\<close>

definition unlock_lazy :: "tid \<Rightarrow> SgxThreadMutexInner \<Rightarrow> SgxThreadMutexInner \<times> (int + tid)" where
  "unlock_lazy self m =
     (if owner m = SGX_THREAD_T_NULL then (m, Inl EPERM)
      else if owner m \<noteq> self then (m, Inl EPERM)
      else
        let m1 = m \<lparr> refcount := refcount m - 1 \<rparr> in
        if refcount m1 = 0 then
          let m2 = m1 \<lparr> owner := SGX_THREAD_T_NULL \<rparr> in
          (m2, Inr (if queue m2 = [] then SGX_THREAD_T_NULL else the (front (queue m2))))
        else (m1, Inr SGX_THREAD_T_NULL))"

text \<open>\<open>unlock\<close>: the threads handed to \<open>thread_set_event\<close> after the spin lock is released.\<close>

definition unlock :: "tid \<Rightarrow> SgxThreadMutexInner \<Rightarrow> SgxThreadMutexInner \<times> (int + tid list)" where
  "unlock self m =
     (case unlock_lazy self m of (m', r) \<Rightarrow>
        (m', map_ok (\<lambda>w. if w \<noteq> SGX_THREAD_T_NULL then [w] else []) r))"

definition mutex_destroy :: "SgxThreadMutexInner \<Rightarrow> SgxThreadMutexInner \<times> SysError" where
  "mutex_destroy m =
     (if owner m \<noteq> SGX_THREAD_T_NULL \<or> queue m \<noteq> [] then (m, Inl EBUSY)
      else (m \<lparr> control := SGX_THREAD_MUTEX_NONRECURSIVE, refcount := 0 \<rparr>, Inr ()))"

section \<open>Waiting never trusts the outside\<close>

text \<open>
  Whatever the host answers, a failed call is seen as \<open>-1\<close> with \<open>errno\<close> set, and \<open>errno\<close> is touched in
  no other case; the time limit never overflows the signed seconds of the host.
\<close>

lemma thread_wait_event_errno:
  "snd (thread_wait_event f t d) \<noteq> None \<longleftrightarrow> fst (thread_wait_event f t d) = -1"
  by (cases "f t (timeout_ptr d)") (simp add: thread_wait_event_def)

lemma thread_set_event_errno:
  "snd (thread_set_event f t) \<noteq> None \<longleftrightarrow> fst (thread_set_event f t) = -1"
  by (cases "f t") (simp add: thread_set_event_def)

lemma timeout_ptr_bounds:
  "timeout_ptr d = Some (s, n) \<Longrightarrow> 0 \<le> s \<and> s < 2 ^ 63 \<and> n = uint (dur_nanos d)"
  by (auto simp: timeout_ptr_def split: if_splits)

section \<open>Operations of the mutex\<close>

text \<open>The four outcomes of a round.\<close>

lemma lock_round_cases:
  obtains (recursive) "control m = SGX_THREAD_MUTEX_RECURSIVE" "owner m = self"
      "lock_round self m = (m \<lparr> refcount := refcount m + 1 \<rparr>, True)"
    | (first) qs where "\<not> (control m = SGX_THREAD_MUTEX_RECURSIVE \<and> owner m = self)" "owner m = SGX_THREAD_T_NULL"
      "queue m = self # qs"
      "lock_round self m = (m \<lparr> queue := qs, owner := self, refcount := refcount m + 1 \<rparr>, True)"
    | (free) "\<not> (control m = SGX_THREAD_MUTEX_RECURSIVE \<and> owner m = self)" "owner m = SGX_THREAD_T_NULL"
      "queue m = []"
      "lock_round self m = (m \<lparr> owner := self, refcount := refcount m + 1 \<rparr>, True)"
    | (block) "owner m = SGX_THREAD_T_NULL \<Longrightarrow> queue m \<noteq> [] \<and> hd (queue m) \<noteq> self"
      "lock_round self m =
         (m \<lparr> queue := (if self \<in> set (queue m) then queue m else queue m @ [self]) \<rparr>, False)"
proof (cases "control m = SGX_THREAD_MUTEX_RECURSIVE \<and> owner m = self")
  case True
  then show ?thesis using recursive by (simp add: lock_round_def)
next
  case nrec: False
  show ?thesis
  proof (cases "owner m = SGX_THREAD_T_NULL \<and> (queue m = [] \<or> hd (queue m) = self)")
    case True
    then show ?thesis
      using nrec free first by (cases "queue m") (auto simp: lock_round_def)
  next
    case False
    then have "\<not> (owner m = SGX_THREAD_T_NULL \<and> (front (queue m) = Some self \<or> front (queue m) = None))"
      by (auto simp: front_eq_Some_iff)
    then show ?thesis
      using nrec False block by (auto simp: lock_round_def)
  qed
qed

text \<open>\<open>try_lock\<close> takes the mutex exactly when a round of \<open>lock\<close> does; otherwise it leaves no trace.\<close>

lemma try_lock_eq:
  "try_lock self m = (if snd (lock_round self m) then (fst (lock_round self m), Inr ()) else (m, Inl EBUSY))"
  by (simp add: try_lock_def lock_round_def)

end
