(* ===== verification/Thread_Condvar.thy ===== *)
theory Thread_Condvar
  imports Thread_Mutex
begin

text \<open>
  \<open>sgx_tstd\<close>, sys/condvar.rs, and the interleaving of threads on one mutex and one condition variable.

  The critical sections of the spin locks are atomic steps.  The host that runs the threads may be
  hostile and end a wait at any time; a wake-up sent to a thread is kept until the thread takes it, as
  the host's event does.
\<close>

section \<open>Operations of the condition variable\<close>

text \<open>
  The first critical section of \<open>wait\<close> and \<open>wait_timeout\<close>: queue up, release the mutex; the thread to
  wake on the way out, or the error of the release, after which the queue is as before.
\<close>

definition wait_enter ::
  "tid \<Rightarrow> tid list \<Rightarrow> SgxThreadMutexInner \<Rightarrow> tid list \<times> SgxThreadMutexInner \<times> (int + tid)" where
  "wait_enter self q m =
     (let q1 = q @ [self] in
      case unlock_lazy self m of
        (m', Inl ret) \<Rightarrow> (butlast q1, m', Inl ret)
      | (m', Inr waiter) \<Rightarrow> (q1, m', Inr waiter))"

text \<open>
  The check after each wait.  \<open>timed_out\<close> is \<open>result < 0\<close> with the error \<open>TimedOut\<close>, never true in \<open>wait\<close>.
  \<open>None\<close> goes round the loop, \<open>Some r\<close> leaves it with \<open>ret = r\<close>.
\<close>

definition wait_check :: "tid \<Rightarrow> bool \<Rightarrow> tid list \<Rightarrow> tid list \<times> SysError option" where
  "wait_check self timed_out q =
     (if self \<in> set q then
        if timed_out then (remove1 self q, Some (Inl ETIMEDOUT)) else (q, None)
      else (q, Some (Inr ())))"

text \<open>\<open>signal\<close> and \<open>broadcast\<close>: the queue left and the threads to wake, in the order of the call.\<close>

definition signal :: "tid list \<Rightarrow> tid list \<times> tid list" where
  "signal q = (if q = [] then (q, []) else (tl q, [hd q]))"

definition broadcast :: "tid list \<Rightarrow> tid list \<times> tid list" where
  "broadcast q = (if q = [] then (q, []) else ([], rev q))"

definition condvar_destroy :: "tid list \<Rightarrow> SysError" where
  "condvar_destroy q = (if q = [] then Inr () else Inl EBUSY)"

section \<open>Interleaving\<close>

text \<open>Where a thread is; the flag says whether it runs \<open>wait_timeout\<close>.\<close>

datatype tpc =
    Idle
  | Locking                     \<comment> \<open>in \<open>lock\<close>, before a round\<close>
  | Waiting                     \<comment> \<open>in \<open>lock\<close>, parked\<close>
  | Signalling "tid list"       \<comment> \<open>about to wake threads\<close>
  | CvSetWait bool tid          \<comment> \<open>in \<open>wait\<close>, about to wake the next owner of the mutex\<close>
  | CvWaiting bool              \<comment> \<open>in \<open>wait\<close>, parked\<close>
  | CvCheck bool bool           \<comment> \<open>in \<open>wait\<close>, back from the park; timed out?\<close>

text \<open>
  \<open>held\<close> counts the acquisitions of a thread that are not yet released; it is not part of the program.
\<close>

record sync =
  mx :: SgxThreadMutexInner
  cv :: "tid list"
  pc :: "tid \<Rightarrow> tpc"
  event :: "tid \<Rightarrow> bool"
  held :: "tid \<Rightarrow> nat"

definition goto :: "tid \<Rightarrow> tpc \<Rightarrow> sync \<Rightarrow> sync" where
  "goto t p s = s \<lparr> pc := (pc s)(t := p) \<rparr>"

definition wake :: "tid list \<Rightarrow> sync \<Rightarrow> sync" where
  "wake ws s = s \<lparr> event := (\<lambda>u. u \<in> set ws \<or> event s u) \<rparr>"

definition consume :: "tid \<Rightarrow> sync \<Rightarrow> sync" where
  "consume t s = s \<lparr> event := (event s)(t := False) \<rparr>"

definition acquire :: "tid \<Rightarrow> SgxThreadMutexInner \<Rightarrow> sync \<Rightarrow> sync" where
  "acquire t m s = s \<lparr> mx := m, held := (held s)(t := held s t + 1) \<rparr>"

definition release :: "tid \<Rightarrow> SgxThreadMutexInner \<Rightarrow> sync \<Rightarrow> sync" where
  "release t m s = s \<lparr> mx := m, held := (held s)(t := held s t - 1) \<rparr>"

definition signalling :: "tid list \<Rightarrow> tpc" where
  "signalling ws = (if ws = [] then Idle else Signalling ws)"

text \<open>
  A hostile host ends waits for no reason; a time-out may be reported in any case.

  The count is a 64-bit word: the acquiring steps exclude the \<open>2 ^ 64\<close>-th nested acquisition, at which
  \<open>refcount += 1\<close> would wrap.
\<close>

inductive sync_step :: "bool \<Rightarrow> sync \<Rightarrow> sync \<Rightarrow> bool" for hostile where
  lock_call: "t \<noteq> 0 \<Longrightarrow> pc s t = Idle \<Longrightarrow> sync_step hostile s (goto t Locking s)"
| lock_take: "pc s t = Locking \<Longrightarrow> refcount (mx s) \<noteq> -1 \<Longrightarrow> lock_round t (mx s) = (m, True) \<Longrightarrow>
    sync_step hostile s (goto t Idle (acquire t m s))"
| lock_block: "pc s t = Locking \<Longrightarrow> lock_round t (mx s) = (m, False) \<Longrightarrow>
    sync_step hostile s (goto t Waiting (s \<lparr> mx := m \<rparr>))"
| lock_woken: "pc s t = Waiting \<Longrightarrow> event s t \<Longrightarrow> sync_step hostile s (goto t Locking (consume t s))"
| lock_spurious: "hostile \<Longrightarrow> pc s t = Waiting \<Longrightarrow> sync_step hostile s (goto t Locking s)"
| try_take: "t \<noteq> 0 \<Longrightarrow> pc s t = Idle \<Longrightarrow> refcount (mx s) \<noteq> -1 \<Longrightarrow> try_lock t (mx s) = (m, Inr ()) \<Longrightarrow>
    sync_step hostile s (acquire t m s)"
| try_busy: "t \<noteq> 0 \<Longrightarrow> pc s t = Idle \<Longrightarrow> try_lock t (mx s) = (m, Inl e) \<Longrightarrow> sync_step hostile s (s \<lparr> mx := m \<rparr>)"
| unlock_ok: "t \<noteq> 0 \<Longrightarrow> pc s t = Idle \<Longrightarrow> unlock t (mx s) = (m, Inr ws) \<Longrightarrow>
    sync_step hostile s (goto t (signalling ws) (release t m s))"
| unlock_err: "t \<noteq> 0 \<Longrightarrow> pc s t = Idle \<Longrightarrow> unlock t (mx s) = (m, Inl e) \<Longrightarrow> sync_step hostile s (s \<lparr> mx := m \<rparr>)"
| wake_up: "pc s t = Signalling ws \<Longrightarrow> sync_step hostile s (goto t Idle (wake ws s))"
| wait_call: "t \<noteq> 0 \<Longrightarrow> pc s t = Idle \<Longrightarrow> wait_enter t (cv s) (mx s) = (q, m, Inr w) \<Longrightarrow>
    sync_step hostile s (goto t (if w = 0 then CvWaiting timed else CvSetWait timed w) (release t m s \<lparr> cv := q \<rparr>))"
| wait_call_err: "t \<noteq> 0 \<Longrightarrow> pc s t = Idle \<Longrightarrow> wait_enter t (cv s) (mx s) = (q, m, Inl e) \<Longrightarrow>
    sync_step hostile s (s \<lparr> mx := m, cv := q \<rparr>)"
| wait_setwait: "pc s t = CvSetWait timed w \<Longrightarrow> sync_step hostile s (goto t (CvWaiting timed) (wake [w] s))"
| wait_woken: "pc s t = CvWaiting timed \<Longrightarrow> event s t \<Longrightarrow>
    sync_step hostile s (goto t (CvCheck timed False) (consume t s))"
| wait_spurious: "hostile \<Longrightarrow> pc s t = CvWaiting timed \<Longrightarrow> sync_step hostile s (goto t (CvCheck timed False) s)"
| wait_timed_out: "pc s t = CvWaiting True \<Longrightarrow> sync_step hostile s (goto t (CvCheck True True) s)"
| wait_again: "pc s t = CvCheck timed timed_out \<Longrightarrow> wait_check t timed_out (cv s) = (q, None) \<Longrightarrow>
    sync_step hostile s (goto t (CvWaiting timed) (s \<lparr> cv := q \<rparr>))"
| wait_leave: "pc s t = CvCheck timed timed_out \<Longrightarrow> wait_check t timed_out (cv s) = (q, Some r) \<Longrightarrow>
    sync_step hostile s (goto t Locking (s \<lparr> cv := q \<rparr>))"
| signal_call: "t \<noteq> 0 \<Longrightarrow> pc s t = Idle \<Longrightarrow> signal (cv s) = (q, ws) \<Longrightarrow>
    sync_step hostile s (goto t (signalling ws) (s \<lparr> cv := q \<rparr>))"
| broadcast_call: "t \<noteq> 0 \<Longrightarrow> pc s t = Idle \<Longrightarrow> broadcast (cv s) = (q, ws) \<Longrightarrow>
    sync_step hostile s (goto t (signalling ws) (s \<lparr> cv := q \<rparr>))"
| destroy_call: "t \<noteq> 0 \<Longrightarrow> pc s t = Idle \<Longrightarrow> mutex_destroy (mx s) = (m, r) \<Longrightarrow> sync_step hostile s (s \<lparr> mx := m \<rparr>)"

definition sync_init :: "sync \<Rightarrow> bool" where
  "sync_init s \<longleftrightarrow> (\<exists>c. s = \<lparr> mx = mutex_new c, cv = [], pc = (\<lambda>_. Idle), event = (\<lambda>_. False), held = (\<lambda>_. 0) \<rparr>)"

section \<open>Invariant\<close>

text \<open>Who holds the mutex, in terms of its fields.\<close>

definition hold_inv :: "sync \<Rightarrow> bool" where
  "hold_inv s \<longleftrightarrow>
     (if owner (mx s) = 0 then refcount (mx s) = 0 \<and> (\<forall>t. held s t = 0)
      else held s (owner (mx s)) = unat (refcount (mx s)) \<and> refcount (mx s) \<noteq> 0
           \<and> (\<forall>t. t \<noteq> owner (mx s) \<longrightarrow> held s t = 0))
     \<and> (control (mx s) = SGX_THREAD_MUTEX_NONRECURSIVE \<longrightarrow> refcount (mx s) \<le> 1)"

text \<open>Who is in which queue.\<close>

definition queue_inv :: "sync \<Rightarrow> bool" where
  "queue_inv s \<longleftrightarrow>
     distinct (queue (mx s)) \<and> (\<forall>t \<in> set (queue (mx s)). pc s t = Waiting \<or> pc s t = Locking)
     \<and> (\<forall>t. pc s t = Waiting \<longrightarrow> t \<in> set (queue (mx s)))
     \<and> (control (mx s) = SGX_THREAD_MUTEX_RECURSIVE \<longrightarrow> owner (mx s) \<notin> set (queue (mx s)))
     \<and> pc s 0 = Idle"

fun in_wait :: "tpc \<Rightarrow> bool" where
  "in_wait (CvSetWait _ _) = True"
| "in_wait (CvWaiting _) = True"
| "in_wait (CvCheck _ _) = True"
| "in_wait _ = False"

definition cv_inv :: "sync \<Rightarrow> bool" where
  "cv_inv s \<longleftrightarrow> distinct (cv s) \<and> (\<forall>t \<in> set (cv s). in_wait (pc s t))"

text \<open>A wake-up for a thread is pending, or another thread is about to send it.\<close>

fun to_wake :: "tpc \<Rightarrow> tid set" where
  "to_wake (Signalling ws) = set ws"
| "to_wake (CvSetWait _ w) = {w}"
| "to_wake _ = {}"

definition woken :: "sync \<Rightarrow> tid \<Rightarrow> bool" where
  "woken s t \<longleftrightarrow> event s t \<or> (\<exists>u. t \<in> to_wake (pc s u))"

definition wake_inv :: "sync \<Rightarrow> bool" where
  "wake_inv s \<longleftrightarrow>
     (owner (mx s) = 0 \<longrightarrow> (case queue (mx s) of [] \<Rightarrow> True | h # _ \<Rightarrow> pc s h = Locking \<or> woken s h))"

fun parked_cv :: "tpc \<Rightarrow> bool" where
  "parked_cv (CvSetWait _ _) = True"
| "parked_cv (CvWaiting _) = True"
| "parked_cv _ = False"

definition cv_wake_inv :: "sync \<Rightarrow> bool" where
  "cv_wake_inv s \<longleftrightarrow> (\<forall>t. parked_cv (pc s t) \<and> t \<notin> set (cv s) \<longrightarrow> woken s t)"

definition sync_inv :: "sync \<Rightarrow> bool" where
  "sync_inv s \<longleftrightarrow> hold_inv s \<and> queue_inv s \<and> cv_inv s \<and> wake_inv s \<and> cv_wake_inv s"


section \<open>Effect of the operations\<close>

lemma sync_sel [simp]:
  "mx (goto t p s) = mx s" "cv (goto t p s) = cv s" "pc (goto t p s) = (pc s)(t := p)"
  "event (goto t p s) = event s" "held (goto t p s) = held s"
  "mx (wake ws s) = mx s" "cv (wake ws s) = cv s" "pc (wake ws s) = pc s" "held (wake ws s) = held s"
  "event (wake ws s) = (\<lambda>u. u \<in> set ws \<or> event s u)"
  "mx (consume t s) = mx s" "cv (consume t s) = cv s" "pc (consume t s) = pc s" "held (consume t s) = held s"
  "event (consume t s) = (event s)(t := False)"
  "mx (acquire t m s) = m" "cv (acquire t m s) = cv s" "pc (acquire t m s) = pc s"
  "event (acquire t m s) = event s" "held (acquire t m s) = (held s)(t := held s t + 1)"
  "mx (release t m s) = m" "cv (release t m s) = cv s" "pc (release t m s) = pc s"
  "event (release t m s) = event s" "held (release t m s) = (held s)(t := held s t - 1)"
  by (simp_all add: goto_def wake_def consume_def acquire_def release_def)

lemma lock_round_take:
  assumes "lock_round t m = (m', True)"
  shows "control m' = control m" "owner m' = t" "refcount m' = refcount m + 1"
    and "(control m = SGX_THREAD_MUTEX_RECURSIVE \<and> owner m = t \<and> queue m' = queue m)
      \<or> (owner m = 0 \<and> (queue m = [] \<and> queue m' = [] \<or> queue m = t # queue m'))"
  using assms by (cases rule: lock_round_cases [of m t]; auto)+

lemma lock_round_block:
  assumes "lock_round t m = (m', False)"
  shows "m' = m \<lparr> queue := (if t \<in> set (queue m) then queue m else queue m @ [t]) \<rparr>"
    and "owner m = 0 \<Longrightarrow> queue m \<noteq> [] \<and> hd (queue m) \<noteq> t"
    and "\<not> (control m = SGX_THREAD_MUTEX_RECURSIVE \<and> owner m = t)"
  using assms
  by (cases rule: lock_round_cases [of m t]; auto simp: lock_round_def)+

lemma try_lock_take: "try_lock t m = (m', Inr ()) \<Longrightarrow> lock_round t m = (m', True)"
  by (simp add: try_lock_eq split: if_splits) (metis prod.collapse)

lemma try_lock_busy: "try_lock t m = (m', Inl e) \<Longrightarrow> m' = m"
  by (simp add: try_lock_eq split: if_splits)

lemma unlock_lazy_ok:
  assumes "unlock_lazy t m = (m', Inr w)"
  shows "owner m = t" "t \<noteq> 0" "queue m' = queue m" "control m' = control m" "refcount m' = refcount m - 1"
    and "if refcount m = 1 then owner m' = 0 \<and> w = (case queue m of [] \<Rightarrow> 0 | h # _ \<Rightarrow> h)
      else owner m' = t \<and> w = 0"
  using assms by (auto simp: unlock_lazy_def Let_def split: if_splits list.split)

lemma unlock_lazy_err: "unlock_lazy t m = (m', Inl e) \<Longrightarrow> m' = m"
  by (auto simp: unlock_lazy_def Let_def split: if_splits)

lemma unlock_ok_lazy:
  assumes "unlock t m = (m', Inr ws)"
  obtains w where "unlock_lazy t m = (m', Inr w)" "ws = (if w \<noteq> 0 then [w] else [])"
  using assms by (auto simp: unlock_def map_ok_Inr_iff split: prod.splits)

lemma unlock_err_lazy: "unlock t m = (m', Inl e) \<Longrightarrow> m' = m"
  by (auto simp: unlock_def map_ok_Inl_iff split: prod.splits dest: unlock_lazy_err)

lemma wait_enter_ok:
  "wait_enter t q m = (q', m', Inr w) \<longleftrightarrow> unlock_lazy t m = (m', Inr w) \<and> q' = q @ [t]"
  by (auto simp: wait_enter_def split: prod.splits sum.splits)

lemma wait_enter_err: "wait_enter t q m = (q', m', Inl e) \<Longrightarrow> m' = m \<and> q' = q"
  by (auto simp: wait_enter_def split: prod.splits sum.splits dest: unlock_lazy_err)

lemma mutex_destroy_cases:
  assumes "mutex_destroy m = (m', r)"
  obtains "m' = m" | "owner m = 0" "queue m = []"
    "m' = m \<lparr> control := SGX_THREAD_MUTEX_NONRECURSIVE, refcount := 0 \<rparr>"
  using assms by (auto simp: mutex_destroy_def split: if_splits)


section \<open>Preservation\<close>

lemma hold_inv_goto [simp]: "hold_inv (goto t p s) = hold_inv s"
  by (simp add: hold_inv_def)

lemma hold_inv_wake [simp]: "hold_inv (wake ws s) = hold_inv s" "hold_inv (consume t s) = hold_inv s"
  by (simp_all add: hold_inv_def)

lemma hold_inv_cv [simp]: "hold_inv (s \<lparr> cv := q \<rparr>) = hold_inv s"
  by (simp add: hold_inv_def)

lemma u64_inc:
  assumes "(r :: u64) \<noteq> -1"
  shows "r + 1 \<noteq> 0" and "unat (r + 1) = unat r + 1"
proof -
  show nz: "r + 1 \<noteq> 0"
    using assms eq_neg_iff_add_eq_0 [of r 1] by simp
  show "unat (r + 1) = unat r + 1"
    using nz unatSuc [of r] by (simp add: add.commute)
qed

lemma hold_inv_acquire:
  assumes inv: "hold_inv s" and t: "t \<noteq> 0" and r: "refcount (mx s) \<noteq> -1"
    and round: "lock_round t (mx s) = (m, True)"
  shows "hold_inv (acquire t m s)"
proof -
  note take = lock_round_take [OF round]
  have "held s t = unat (refcount (mx s)) \<and> (\<forall>u. u \<noteq> t \<longrightarrow> held s u = 0)
      \<and> (control (mx s) = SGX_THREAD_MUTEX_NONRECURSIVE \<longrightarrow> refcount (mx s) = 0)"
    using inv take(4) t by (auto simp: hold_inv_def)
  then show ?thesis
    using take t u64_inc [OF r] by (auto simp: hold_inv_def)
qed

lemma hold_inv_release:
  assumes inv: "hold_inv s" and lazy: "unlock_lazy t (mx s) = (m, Inr w)"
  shows "hold_inv (release t m s)"
proof -
  note ok = unlock_lazy_ok [OF lazy]
  have nz: "refcount (mx s) \<noteq> 0" and h: "held s t = unat (refcount (mx s))"
    and others: "\<And>u. u \<noteq> t \<Longrightarrow> held s u = 0"
    using inv ok by (auto simp: hold_inv_def)
  have dec: "unat (refcount (mx s) - 1) = unat (refcount (mx s)) - 1"
    using nz by (simp add: unat_minus_one)
  show ?thesis
  proof (cases "refcount (mx s) = 1")
    case True
    then show ?thesis using ok h others by (simp add: hold_inv_def)
  next
    case False
    have "refcount (mx s) - 1 \<le> 1" if "control (mx s) = SGX_THREAD_MUTEX_NONRECURSIVE"
    proof -
      have "unat (refcount (mx s)) \<le> 1"
        using inv that by (simp add: hold_inv_def word_le_nat_alt)
      then show ?thesis using dec by (simp add: word_le_nat_alt)
    qed
    then show ?thesis
      using False ok h others dec by (simp add: hold_inv_def)
  qed
qed

lemma hold_inv_cong: "mx s' = mx s \<Longrightarrow> held s' = held s \<Longrightarrow> hold_inv s \<Longrightarrow> hold_inv s'"
  by (simp add: hold_inv_def)

lemma step_hold_inv:
  assumes step: "sync_step hostile s s'" and inv: "hold_inv s" and qinv: "queue_inv s"
  shows "hold_inv s'"
  using step
proof (cases rule: sync_step.cases)
  case (lock_take t m)
  then have "t \<noteq> 0"
    using qinv by (auto simp: queue_inv_def)
  then show ?thesis
    using lock_take inv hold_inv_acquire [of s t m] by simp
next
  case (lock_block t m)
  then show ?thesis
    using inv lock_round_block(1) [of t "mx s" m] by (simp add: hold_inv_def)
next
  case (try_take t m)
  then show ?thesis
    using inv hold_inv_acquire [of s t m] try_lock_take [of t "mx s" m] by simp
next
  case (unlock_ok t m ws)
  from unlock_ok(4) obtain w where "unlock_lazy t (mx s) = (m, Inr w)"
    by (rule unlock_ok_lazy)
  then show ?thesis
    using unlock_ok(1) inv hold_inv_release [of s t m w] by simp
next
  case (wait_call t q m w timed)
  then show ?thesis
    using inv hold_inv_release [of s t m w] by (simp add: wait_enter_ok)
next
  case (destroy_call t m r)
  show ?thesis
    using destroy_call(4)
  proof (cases rule: mutex_destroy_cases)
    case 1
    then show ?thesis using inv destroy_call(1) by (simp add: hold_inv_def)
  next
    case 2
    then show ?thesis using inv destroy_call(1) by (simp add: hold_inv_def)
  qed
next
  case (try_busy t m e)
  then show ?thesis using try_lock_busy [of t "mx s" m e] inv by (simp add: hold_inv_def)
next
  case (unlock_err t m e)
  then show ?thesis using unlock_err_lazy [of t "mx s" m e] inv by (simp add: hold_inv_def)
next
  case (wait_call_err t q m e)
  then show ?thesis using wait_enter_err [of t "cv s" "mx s" q m e] inv by (simp add: hold_inv_def)
qed (use inv in \<open>simp_all add: hold_inv_def\<close>)


lemma queue_inv_acquire:
  assumes inv: "queue_inv s" and round: "lock_round t (mx s) = (m, True)"
    and p: "pc s t = Locking \<or> pc s t = Idle" and t: "t \<noteq> 0"
  shows "queue_inv (goto t Idle (acquire t m s))"
proof -
  note take = lock_round_take [OF round]
  have notin: "t \<notin> set (queue m)" and sub: "set (queue (mx s)) \<subseteq> insert t (set (queue m))"
    and sub': "set (queue m) \<subseteq> set (queue (mx s))" and dist: "distinct (queue m)"
    using inv take by (auto simp: queue_inv_def)
  show ?thesis
    using inv p t notin sub sub' dist take(1,2) by (auto simp: queue_inv_def)
qed

text \<open>Steps that leave the mutex alone and move no thread into or out of \<open>lock\<close>.\<close>

lemma queue_inv_goto:
  assumes "queue_inv s" and "mx s' = mx s" and "pc s' = (pc s)(t := p)"
    and "t \<noteq> 0" and "pc s t \<noteq> Waiting" and "p \<noteq> Waiting" and "pc s t = Locking \<longrightarrow> p = Locking"
  shows "queue_inv s'"
  using assms by (auto simp: queue_inv_def)

lemma queue_inv_release:
  assumes inv: "queue_inv s" and lazy: "unlock_lazy t (mx s) = (m, Inr w)" and p: "pc s t = Idle"
    and s': "mx s' = m" "pc s' = (pc s)(t := p')" and p': "p' \<noteq> Waiting" "p' \<noteq> Locking"
  shows "queue_inv s'"
proof -
  note ok = unlock_lazy_ok [OF lazy]
  have "owner m = 0 \<or> owner m = t"
    using ok(6) by (auto split: if_splits)
  moreover have "t \<notin> set (queue (mx s))" and "0 \<notin> set (queue (mx s))"
    using inv p by (auto simp: queue_inv_def)
  ultimately show ?thesis
    using inv ok p p' unfolding s' queue_inv_def by auto
qed

lemma step_queue_inv:
  assumes step: "sync_step hostile s s'" and inv: "queue_inv s"
  shows "queue_inv s'"
  using step
proof (cases rule: sync_step.cases)
  case (lock_take t m)
  then have "t \<noteq> 0"
    using inv by (auto simp: queue_inv_def)
  then show ?thesis
    using lock_take inv queue_inv_acquire [of s t m] by simp
next
  case (lock_block t m)
  have "t \<noteq> 0"
    using lock_block inv by (auto simp: queue_inv_def)
  then show ?thesis
    using lock_block inv lock_round_block(1,3) [OF lock_block(3)] by (auto simp: queue_inv_def)
next
  case (try_take t m)
  then have "(pc s)(t := Idle) = pc s" by (metis fun_upd_triv)
  then have "goto t Idle (acquire t m s) = acquire t m s"
    by (simp add: goto_def acquire_def)
  then show ?thesis
    using try_take inv queue_inv_acquire [of s t m] try_lock_take [of t "mx s" m] by simp
next
  case (unlock_ok t m ws)
  from unlock_ok(4) obtain w where w: "unlock_lazy t (mx s) = (m, Inr w)"
    by (rule unlock_ok_lazy)
  show ?thesis
    using queue_inv_release [OF inv w unlock_ok(3), of s' "signalling ws"] unlock_ok(1)
    by (simp add: signalling_def)
next
  case (wait_call t q m w timed)
  then have w: "unlock_lazy t (mx s) = (m, Inr w)" by (simp add: wait_enter_ok)
  show ?thesis
    using queue_inv_release [OF inv w wait_call(3), of s' "if w = 0 then CvWaiting timed else CvSetWait timed w"]
      wait_call(1) by simp
next
  case (destroy_call t m r)
  show ?thesis
    using destroy_call(4)
  proof (cases rule: mutex_destroy_cases)
    case 1
    then show ?thesis using inv destroy_call(1) by (simp add: queue_inv_def)
  next
    case 2
    then show ?thesis using inv destroy_call(1) by (simp add: queue_inv_def)
  qed
next
  case (try_busy t m e)
  then show ?thesis using try_lock_busy [of t "mx s" m e] inv by (simp add: queue_inv_def)
next
  case (unlock_err t m e)
  then show ?thesis using unlock_err_lazy [of t "mx s" m e] inv by (simp add: queue_inv_def)
next
  case (wait_call_err t q m e)
  then show ?thesis using wait_enter_err [of t "cv s" "mx s" q m e] inv by (simp add: queue_inv_def)
qed (use inv in \<open>auto simp: queue_inv_def signalling_def\<close>)


lemma step_cv_inv:
  assumes step: "sync_step hostile s s'" and inv: "cv_inv s"
  shows "cv_inv s'"
  using step
proof (cases rule: sync_step.cases)
  case (wait_call t q m w timed)
  then have "q = cv s @ [t]" by (simp add: wait_enter_ok)
  then show ?thesis using wait_call inv by (auto simp: cv_inv_def)
next
  case (wait_call_err t q m e)
  then show ?thesis using wait_enter_err [of t "cv s" "mx s" q m e] inv by (simp add: cv_inv_def)
next
  case (wait_leave t timed timed_out q r)
  then have "t \<notin> set q" "set q \<subseteq> set (cv s)" "distinct q"
    using inv by (auto simp: wait_check_def cv_inv_def split: if_splits)
  then show ?thesis using wait_leave inv by (auto simp: cv_inv_def)
next
  case (wait_again t timed timed_out q)
  then have "q = cv s" by (auto simp: wait_check_def split: if_splits)
  then show ?thesis using wait_again inv by (auto simp: cv_inv_def)
next
  case (signal_call t q ws)
  then have "set q \<subseteq> set (cv s)" "distinct q"
    using inv by (auto simp: signal_def cv_inv_def distinct_tl dest: list.set_sel(2) split: if_splits)
  moreover have "t \<notin> set (cv s)"
    using signal_call(3) inv by (auto simp: cv_inv_def)
  ultimately show ?thesis using signal_call inv by (auto simp: cv_inv_def signalling_def)
next
  case (broadcast_call t q ws)
  then have "q = []" by (auto simp: broadcast_def split: if_splits)
  then show ?thesis using broadcast_call inv by (auto simp: cv_inv_def)
qed (use inv in \<open>auto simp: cv_inv_def signalling_def\<close>)

text \<open>A pending wake-up stays pending until its thread takes it.\<close>

lemma woken_mono:
  assumes "woken s x" and "\<And>u. event s u \<Longrightarrow> event s' u" and "pc s' = (pc s)(t := p)"
    and "\<And>u. u \<in> to_wake (pc s t) \<Longrightarrow> event s' u \<or> u \<in> to_wake p"
  shows "woken s' x"
  using assms unfolding woken_def by (metis fun_upd_apply)

lemma woken_consume:
  assumes "woken s x" and "x \<noteq> t" and "event s' = (event s)(t := False)" and "pc s' = (pc s)(t := p)"
    and "to_wake (pc s t) = {}"
  shows "woken s' x"
  using assms unfolding woken_def by (metis empty_iff fun_upd_apply)

lemma woken_same: "event s' = event s \<Longrightarrow> pc s' = pc s \<Longrightarrow> woken s' x = woken s x"
  by (simp add: woken_def)


lemma wake_inv_mono:
  assumes "wake_inv s" and "owner (mx s') = owner (mx s)" and "queue (mx s') = queue (mx s)"
    and "\<And>h qs. queue (mx s) = h # qs \<Longrightarrow> woken s h \<Longrightarrow> woken s' h"
    and "\<And>h. pc s h = Locking \<Longrightarrow> pc s' h = Locking"
  shows "wake_inv s'"
  using assms by (auto simp: wake_inv_def split: list.splits)

lemma step_wake_inv:
  assumes step: "sync_step hostile s s'" and inv: "wake_inv s" and qinv: "queue_inv s"
  shows "wake_inv s'"
proof -
  have pcq: "pc s h = Waiting \<or> pc s h = Locking" if "queue (mx s) = h # qs" for h qs
    using qinv that by (simp add: queue_inv_def)
  have inv': "pc s h = Locking \<or> woken s h" if "owner (mx s) = 0" "queue (mx s) = h # qs" for h qs
    using inv that by (simp add: wake_inv_def)
  show ?thesis
    using step
  proof (cases rule: sync_step.cases)
    case (lock_take t m)
    then have "owner m \<noteq> 0"
      using qinv lock_round_take(2) [OF lock_take(4)] by (auto simp: queue_inv_def)
    then show ?thesis using lock_take(1) by (simp add: wake_inv_def)
  next
    case (lock_block t m)
    note block = lock_round_block [OF lock_block(3)]
    show ?thesis
    proof (cases "queue (mx s)")
      case Nil
      then show ?thesis using block(1,2) lock_block(1) by (auto simp: wake_inv_def)
    next
      case (Cons h qs)
      have "h \<noteq> t \<and> (pc s h = Locking \<or> woken s h)" if "owner (mx s) = 0"
        using block(2) [OF that] inv' [OF that Cons] Cons by simp
      then show ?thesis
        using Cons block(1) lock_block woken_mono [of s h s' t Waiting] by (auto simp: wake_inv_def)
    qed
  next
    case (lock_woken t)
    show ?thesis
    proof (cases "queue (mx s)")
      case (Cons h qs)
      then show ?thesis
        using lock_woken inv' [OF _ Cons] woken_consume [of s h t s' Locking] by (auto simp: wake_inv_def)
    qed (use lock_woken in \<open>simp add: wake_inv_def\<close>)
  next
    case (try_take t m)
    then have "owner m \<noteq> 0"
      using lock_round_take(2) [OF try_lock_take [OF try_take(5)]] by simp
    then show ?thesis using try_take(1) by (simp add: wake_inv_def)
  next
    case (unlock_ok t m ws)
    from unlock_ok(4) obtain w where w: "unlock_lazy t (mx s) = (m, Inr w)" "ws = (if w \<noteq> 0 then [w] else [])"
      by (rule unlock_ok_lazy)
    note ok = unlock_lazy_ok [OF w(1)]
    have "w = h" "h \<noteq> 0" if "owner m = 0" "queue (mx s) = h # qs" for h qs
      using ok(2,6) that pcq [OF that(2)] qinv by (auto simp: queue_inv_def split: if_splits)
    then show ?thesis
      using unlock_ok(1) ok(3) w(2) by (auto simp: wake_inv_def woken_def signalling_def split: list.split)
  next
    case (wait_call t q m w timed)
    then have w: "unlock_lazy t (mx s) = (m, Inr w)" by (simp add: wait_enter_ok)
    note ok = unlock_lazy_ok [OF w]
    have "w = h" "h \<noteq> 0" if "owner m = 0" "queue (mx s) = h # qs" for h qs
      using ok(2,6) that pcq [OF that(2)] qinv by (auto simp: queue_inv_def split: if_splits)
    then show ?thesis
      using wait_call(1) ok(3) by (auto simp: wake_inv_def woken_def split: list.split)
  next
    case (wake_up t ws)
    then show ?thesis
      by (intro wake_inv_mono [OF inv] woken_mono [of s _ s' t Idle]) auto
  next
    case (wait_setwait t timed w)
    then show ?thesis
      by (intro wake_inv_mono [OF inv] woken_mono [of s _ s' t "CvWaiting timed"]) auto
  next
    case (wait_woken t timed)
    then show ?thesis
      by (intro wake_inv_mono [OF inv] woken_consume [of s _ t s' "CvCheck timed False"]) (auto dest: pcq)
  next
    case (destroy_call t m r)
    show ?thesis
      using destroy_call(4)
    proof (cases rule: mutex_destroy_cases)
      case 1
      then show ?thesis using inv destroy_call(1) by (simp add: wake_inv_def woken_def)
    next
      case 2
      then show ?thesis using destroy_call(1) by (simp add: wake_inv_def)
    qed
  next
    case (try_busy t m e)
    then show ?thesis using try_lock_busy [of t "mx s" m e] inv by (simp add: wake_inv_def woken_def)
  next
    case (unlock_err t m e)
    then show ?thesis using unlock_err_lazy [of t "mx s" m e] inv by (simp add: wake_inv_def woken_def)
  next
    case (wait_call_err t q m e)
    then show ?thesis
      using wait_enter_err [of t "cv s" "mx s" q m e] inv by (simp add: wake_inv_def woken_def)
  next
    case (lock_call t)
    then show ?thesis by (intro wake_inv_mono [OF inv] woken_mono [of s _ s' t Locking]) auto
  next
    case (lock_spurious t)
    then show ?thesis by (intro wake_inv_mono [OF inv] woken_mono [of s _ s' t Locking]) auto
  next
    case (wait_spurious t timed)
    then show ?thesis by (intro wake_inv_mono [OF inv] woken_mono [of s _ s' t "CvCheck timed False"]) auto
  next
    case (wait_timed_out t)
    then show ?thesis by (intro wake_inv_mono [OF inv] woken_mono [of s _ s' t "CvCheck True True"]) auto
  next
    case (wait_again t timed timed_out q)
    then show ?thesis by (intro wake_inv_mono [OF inv] woken_mono [of s _ s' t "CvWaiting timed"]) auto
  next
    case (wait_leave t timed timed_out q r)
    then show ?thesis by (intro wake_inv_mono [OF inv] woken_mono [of s _ s' t Locking]) auto
  next
    case (signal_call t q ws)
    then show ?thesis by (intro wake_inv_mono [OF inv] woken_mono [of s _ s' t "signalling ws"]) auto
  next
    case (broadcast_call t q ws)
    then show ?thesis by (intro wake_inv_mono [OF inv] woken_mono [of s _ s' t "signalling ws"]) auto
  qed
qed


text \<open>Steps that remove nobody but the running thread from the queue of the condition variable.\<close>

lemma cv_wake_inv_mono:
  assumes "cv_wake_inv s" and "pc s' = (pc s)(t := p)"
    and "parked_cv p \<longrightarrow> t \<in> set (cv s') \<or> parked_cv (pc s t) \<and> t \<notin> set (cv s)"
    and "set (cv s) \<subseteq> insert t (set (cv s'))"
    and "\<And>x. x \<noteq> t \<or> parked_cv p \<Longrightarrow> woken s x \<Longrightarrow> woken s' x"
  shows "cv_wake_inv s'"
  using assms unfolding cv_wake_inv_def by (metis fun_upd_apply insertE subsetD)

lemma cv_wake_inv_move:
  assumes "cv_wake_inv s" and "pc s' = (pc s)(t := p)" and "to_wake (pc s t) = {}" and "\<not> parked_cv p"
    and "event s' = event s" and "cv s' = cv s"
  shows "cv_wake_inv s'"
  using assms by (intro cv_wake_inv_mono [of s s' t p] woken_mono [of s _ s' t p]) auto

lemma cv_wake_inv_signal:
  assumes inv: "cv_wake_inv s" and p: "pc s t = Idle" "pc s' = (pc s)(t := signalling ws)"
    and e: "event s' = event s" and q: "set (cv s) \<subseteq> set (cv s') \<union> set ws"
  shows "cv_wake_inv s'"
  unfolding cv_wake_inv_def
proof (intro allI impI)
  fix x
  assume x: "parked_cv (pc s' x) \<and> x \<notin> set (cv s')"
  then have xt: "x \<noteq> t" using p by (auto simp: signalling_def split: if_splits)
  show "woken s' x"
  proof (cases "x \<in> set (cv s)")
    case True
    then have "x \<in> to_wake (pc s' t)" using q x p by (auto simp: signalling_def)
    then show ?thesis by (auto simp: woken_def)
  next
    case False
    then have "woken s x" using inv x xt p by (simp add: cv_wake_inv_def)
    then show ?thesis by (rule woken_mono) (use p e in auto)
  qed
qed

lemma step_cv_wake_inv:
  assumes step: "sync_step hostile s s'" and inv: "cv_wake_inv s" and cinv: "cv_inv s"
  shows "cv_wake_inv s'"
  using step
proof (cases rule: sync_step.cases)
  case (wait_setwait t timed w)
  show ?thesis
  proof (cases "t \<in> set (cv s)")
    case True
    then show ?thesis
      using wait_setwait
      by (intro cv_wake_inv_mono [OF inv, of s' t "CvWaiting timed"] woken_mono [of s _ s' t "CvWaiting timed"]) auto
  next
    case False
    then show ?thesis
      using wait_setwait
      by (intro cv_wake_inv_mono [OF inv, of s' t "CvWaiting timed"] woken_mono [of s _ s' t "CvWaiting timed"]) auto
  qed
next
  case (wake_up t ws)
  then show ?thesis
    by (intro cv_wake_inv_mono [OF inv, of s' t Idle] woken_mono [of s _ s' t Idle]) auto
next
  case (lock_woken t)
  then show ?thesis
    by (intro cv_wake_inv_mono [OF inv, of s' t Locking] woken_consume [of s _ t s' Locking]) auto
next
  case (wait_woken t timed)
  then show ?thesis
    by (intro cv_wake_inv_mono [OF inv, of s' t "CvCheck timed False"]
        woken_consume [of s _ t s' "CvCheck timed False"]) auto
next
  case (wait_call t q m w timed)
  then have q: "q = cv s @ [t]" by (simp add: wait_enter_ok)
  let ?p = "if w = 0 then CvWaiting timed else CvSetWait timed w"
  show ?thesis
    using wait_call q by (intro cv_wake_inv_mono [OF inv, of s' t ?p] woken_mono [of s _ s' t ?p]) auto
next
  case (wait_leave t timed timed_out q r)
  then have "set (cv s) \<subseteq> insert t (set q)"
    using cinv by (auto simp: wait_check_def cv_inv_def set_remove1_eq split: if_splits)
  then show ?thesis
    using wait_leave by (intro cv_wake_inv_mono [OF inv, of s' t Locking] woken_mono [of s _ s' t Locking]) auto
next
  case (wait_again t timed timed_out q)
  then have "q = cv s" "t \<in> set q" by (auto simp: wait_check_def split: if_splits)
  then show ?thesis
    using wait_again
    by (intro cv_wake_inv_mono [OF inv, of s' t "CvWaiting timed"] woken_mono [of s _ s' t "CvWaiting timed"]) auto
next
  case (signal_call t q ws)
  then have "set (cv s) \<subseteq> set q \<union> set ws"
    by (cases "cv s") (auto simp: signal_def)
  then show ?thesis
    using signal_call by (intro cv_wake_inv_signal [OF inv, of t s' ws]) auto
next
  case (broadcast_call t q ws)
  then have "set (cv s) \<subseteq> set q \<union> set ws"
    by (auto simp: broadcast_def split: if_splits)
  then show ?thesis
    using broadcast_call by (intro cv_wake_inv_signal [OF inv, of t s' ws]) auto
next
  case (unlock_ok t m ws)
  then show ?thesis
    by (intro cv_wake_inv_signal [OF inv, of t s' ws]) auto
next
  case (lock_call t)
  then show ?thesis by (intro cv_wake_inv_move [OF inv, of s' t Locking]) auto
next
  case (lock_take t m)
  then show ?thesis by (intro cv_wake_inv_move [OF inv, of s' t Idle]) auto
next
  case (lock_block t m)
  then show ?thesis by (intro cv_wake_inv_move [OF inv, of s' t Waiting]) auto
next
  case (lock_spurious t)
  then show ?thesis by (intro cv_wake_inv_move [OF inv, of s' t Locking]) auto
next
  case (wait_spurious t timed)
  then show ?thesis by (intro cv_wake_inv_move [OF inv, of s' t "CvCheck timed False"]) auto
next
  case (wait_timed_out t)
  then show ?thesis by (intro cv_wake_inv_move [OF inv, of s' t "CvCheck True True"]) auto
qed (use inv in \<open>auto simp: cv_wake_inv_def woken_def dest: wait_enter_err\<close>)


interpretation sync: invariant_machine sync_init "sync_step hostile" sync_inv for hostile
proof
  show "sync_inv s" if "sync_init s" for s
    using that by (auto simp: sync_init_def sync_inv_def hold_inv_def queue_inv_def cv_inv_def wake_inv_def
        cv_wake_inv_def mutex_new_def)
  show "sync_inv t" if "sync_step hostile s t" "sync_inv s" for s t
    using that step_hold_inv step_queue_inv step_cv_inv step_wake_inv step_cv_wake_inv
    unfolding sync_inv_def by blast
qed

section \<open>Progress of the first waiter\<close>

lemma step_take_first:
  assumes inv: "sync_inv s" and free: "owner (mx s) = 0" "queue (mx s) = h # qs" and p: "pc s h = Locking"
  shows "\<exists>s'. sync_step hostile s s' \<and> owner (mx s') = h \<and> held s' h = 1"
proof -
  have "h \<noteq> 0" using inv p by (auto simp: sync_inv_def queue_inv_def)
  have r: "refcount (mx s) = 0" "held s h = 0" using inv free by (auto simp: sync_inv_def hold_inv_def)
  obtain m where m: "lock_round h (mx s) = (m, True)" "owner m = h"
    using free \<open>h \<noteq> 0\<close> by (simp add: lock_round_def)
  have "sync_step hostile s (goto h Idle (acquire h m s))"
    using p r m by (intro lock_take) simp_all
  then show ?thesis using m r by (intro exI [of _ "goto h Idle (acquire h m s)"]) simp
qed

lemma steps_take_event:
  assumes inv: "sync_inv s" and free: "owner (mx s) = 0" "queue (mx s) = h # qs" and e: "event s h"
  shows "\<exists>s'. (sync_step hostile)\<^sup>*\<^sup>* s s' \<and> owner (mx s') = h \<and> held s' h = 1"
proof -
  have "pc s h = Locking \<or> pc s h = Waiting"
    using inv free by (auto simp: sync_inv_def queue_inv_def)
  then show ?thesis
  proof
    assume "pc s h = Locking"
    then show ?thesis using step_take_first [OF inv free] by blast
  next
    assume p: "pc s h = Waiting"
    let ?s = "goto h Locking (consume h s)"
    have step: "sync_step hostile s ?s" using p e by (rule lock_woken)
    then have "sync_inv ?s" using inv by (rule sync.step_inv)
    then obtain s' where "sync_step hostile ?s s'" "owner (mx s') = h" "held s' h = 1"
      using step_take_first [of ?s h qs hostile] free by auto
    then have "(sync_step hostile)\<^sup>*\<^sup>* s s'"
      using step by auto
    then show ?thesis
      using \<open>owner (mx s') = h\<close> \<open>held s' h = 1\<close> by blast
  qed
qed

lemma steps_take_first:
  assumes inv: "sync_inv s" and free: "owner (mx s) = 0" "queue (mx s) = h # qs"
  shows "\<exists>s'. (sync_step hostile)\<^sup>*\<^sup>* s s' \<and> owner (mx s') = h \<and> held s' h = 1"
proof -
  consider (locking) "pc s h = Locking" | (event) "event s h" | (sent) u where "h \<in> to_wake (pc s u)"
    using inv free by (auto simp: sync_inv_def wake_inv_def woken_def)
  then show ?thesis
  proof cases
    case locking
    then show ?thesis using step_take_first [OF inv free] by blast
  next
    case event
    then show ?thesis by (rule steps_take_event [OF inv free])
  next
    case sent
    then obtain s' where step: "sync_step hostile s s'" "mx s' = mx s" "event s' h"
    proof (cases "pc s u")
      case (Signalling ws)
      then show ?thesis using sent that [OF wake_up [OF Signalling]] by simp
    next
      case (CvSetWait timed w)
      then show ?thesis using sent that [OF wait_setwait [OF CvSetWait]] by simp
    qed simp_all
    have "sync_inv s'" using sync.step_inv [OF step(1) inv] .
    then show ?thesis
      using steps_take_event [of s' h qs hostile] free step by (metis converse_rtranclp_into_rtranclp)
  qed
qed


section \<open>Progress of a signalled waiter\<close>

lemma steps_leave_event:
  assumes "pc s t = CvWaiting timed" and "event s t" and "t \<notin> set (cv s)"
  shows "\<exists>s'. (sync_step hostile)\<^sup>*\<^sup>* s s' \<and> pc s' t = Locking"
proof -
  let ?s1 = "goto t (CvCheck timed False) (consume t s)"
  let ?s2 = "goto t Locking (?s1 \<lparr> cv := cv ?s1 \<rparr>)"
  have "sync_step hostile s ?s1" using assms(1,2) by (rule wait_woken)
  moreover have "sync_step hostile ?s1 ?s2"
    by (rule wait_leave [where timed = timed and timed_out = False and r = "Inr ()"])
      (use assms(3) in \<open>simp_all add: wait_check_def\<close>)
  ultimately have "(sync_step hostile)\<^sup>*\<^sup>* s ?s2" by auto
  moreover have "pc ?s2 t = Locking" by simp
  ultimately show ?thesis by blast
qed

lemma steps_leave_wait:
  assumes inv: "sync_inv s" and p: "pc s t = CvWaiting timed" and q: "t \<notin> set (cv s)"
  shows "\<exists>s'. (sync_step hostile)\<^sup>*\<^sup>* s s' \<and> pc s' t = Locking"
proof -
  have "woken s t" using inv p q by (simp add: sync_inv_def cv_wake_inv_def)
  then consider (event) "event s t" | (sent) u where "t \<in> to_wake (pc s u)"
    by (auto simp: woken_def)
  then show ?thesis
  proof cases
    case event
    then show ?thesis using steps_leave_event [OF p _ q] by blast
  next
    case sent
    then have "u \<noteq> t" using p by auto
    from sent obtain s' where step: "sync_step hostile s s'" "cv s' = cv s" "event s' t" "pc s' t = pc s t"
    proof (cases "pc s u")
      case (Signalling ws)
      then show ?thesis using sent \<open>u \<noteq> t\<close> that [OF wake_up [OF Signalling]] by simp
    next
      case (CvSetWait timed' w)
      then show ?thesis using sent \<open>u \<noteq> t\<close> that [OF wait_setwait [OF CvSetWait]] by simp
    qed simp_all
    then obtain s'' where "(sync_step hostile)\<^sup>*\<^sup>* s' s''" "pc s'' t = Locking"
      using steps_leave_event [of s' t timed hostile] p q by auto
    then show ?thesis
      using step(1) by (meson converse_rtranclp_into_rtranclp)
  qed
qed

section \<open>Properties\<close>

text \<open>A run: thread 5 takes the mutex, thread 6 queues up, thread 5 releases it.\<close>

definition demo_mutex :: "u64 \<Rightarrow> tid \<Rightarrow> tid list \<Rightarrow> SgxThreadMutexInner" where
  "demo_mutex r ow q = \<lparr> refcount = r, control = SGX_THREAD_MUTEX_NONRECURSIVE, owner = ow, queue = q \<rparr>"

definition demo_sync :: "SgxThreadMutexInner \<Rightarrow> (tid \<Rightarrow> tpc) \<Rightarrow> (tid \<Rightarrow> nat) \<Rightarrow> sync" where
  "demo_sync m p h = \<lparr> mx = m, cv = [], pc = p, event = (\<lambda>_. False), held = h \<rparr>"

definition sync1 :: sync where
  "sync1 = demo_sync (demo_mutex 1 5 []) (\<lambda>_. Idle) ((\<lambda>_. 0)(5 := 1))"

definition sync2 :: sync where
  "sync2 = demo_sync (demo_mutex 1 5 []) ((\<lambda>_. Idle)(6 := Locking)) ((\<lambda>_. 0)(5 := 1))"

definition sync3 :: sync where
  "sync3 = demo_sync (demo_mutex 1 5 [6]) ((\<lambda>_. Idle)(6 := Waiting)) ((\<lambda>_. 0)(5 := 1))"

definition sync4 :: sync where
  "sync4 = demo_sync (demo_mutex 0 0 [6]) ((\<lambda>_. Idle)(6 := Waiting, 5 := Signalling [6])) ((\<lambda>_. 0)(5 := 0))"

lemma demo_sync_sel [simp]:
  "mx (demo_sync m p h) = m" "pc (demo_sync m p h) = p" "held (demo_sync m p h) = h" "cv (demo_sync m p h) = []"
  "goto t p' (demo_sync m p h) = demo_sync m (p(t := p')) h"
  "acquire t m' (demo_sync m p h) = demo_sync m' p (h(t := h t + 1))"
  "release t m' (demo_sync m p h) = demo_sync m' p (h(t := h t - 1))"
  "demo_sync m p h \<lparr> mx := m' \<rparr> = demo_sync m' p h"
  by (simp_all add: demo_sync_def goto_def acquire_def release_def)

lemma demo_rounds:
  "try_lock 5 (demo_mutex 0 0 []) = (demo_mutex 1 5 [], Inr ())"
  "lock_round 6 (demo_mutex 1 5 []) = (demo_mutex 1 5 [6], False)"
  "unlock 5 (demo_mutex 1 5 [6]) = (demo_mutex 0 0 [6], Inr [6])"
  "refcount (demo_mutex r ow q) = r" "owner (demo_mutex r ow q) = ow" "queue (demo_mutex r ow q) = q"
  by (simp_all add: demo_mutex_def try_lock_def lock_round_def unlock_def unlock_lazy_def)

lemma reach_sync1: "reach sync_init (sync_step hostile) sync1"
proof -
  let ?s0 = "demo_sync (demo_mutex 0 0 []) (\<lambda>_. Idle) (\<lambda>_. 0)"
  have "reach sync_init (sync_step hostile) ?s0"
    by (rule reach_init) (simp add: sync_init_def demo_sync_def demo_mutex_def mutex_new_def)
  moreover have "sync_step hostile ?s0 sync1"
    using try_take [of 5 ?s0 "demo_mutex 1 5 []" hostile] by (simp add: sync1_def demo_rounds)
  ultimately show ?thesis by (rule reach_step)
qed

lemma step_sync23: "sync_step hostile sync2 sync3"
proof -
  have "((\<lambda>_. Idle)(6 := Locking))(6 := Waiting) = (\<lambda>_. Idle)(6 := Waiting)" by simp
  then show ?thesis
    using lock_block [of sync2 6 "demo_mutex 1 5 [6]" hostile] by (simp add: sync2_def sync3_def demo_rounds)
qed

lemma reach_sync4: "reach sync_init (sync_step hostile) sync4"
proof -
  have "sync_step hostile sync1 sync2"
    using lock_call [of 6 sync1 hostile] by (simp add: sync1_def sync2_def)
  then have "reach sync_init (sync_step hostile) sync3"
    using reach_step [OF reach_step [OF reach_sync1]] step_sync23 by blast
  moreover have "sync_step hostile sync3 sync4"
    using unlock_ok [of 5 sync3 "demo_mutex 0 0 [6]" "[6]" hostile]
    by (simp add: sync3_def sync4_def demo_rounds signalling_def)
  ultimately show ?thesis by (rule reach_step)
qed

lemma hold_inv_owner: "hold_inv s \<Longrightarrow> held s t > 0 \<Longrightarrow> owner (mx s) = t \<and> unat (refcount (mx s)) = held s t"
  unfolding hold_inv_def by (metis less_numeral_extra(3))

text \<open>
  C3.  Mutual exclusion: in every reachable state of any number of threads on one mutex and one
  condition variable, however the host wakes them, at most one thread holds the mutex; it is the
  owner, the count is the number of its unreleased acquisitions, and on a mutex that is not recursive
  that number is one.
\<close>

theorem mutex_mutual_exclusion:
  assumes "reach sync_init (sync_step hostile) s" and "held s t > 0" and "held s u > 0"
  shows "t = u \<and> owner (mx s) = t \<and> unat (refcount (mx s)) = held s t
    \<and> (control (mx s) = SGX_THREAD_MUTEX_NONRECURSIVE \<longrightarrow> held s t = 1)"
proof -
  have inv: "hold_inv s"
    using sync.reach_inv [OF assms(1)] by (simp add: sync_inv_def)
  note own = hold_inv_owner [OF inv assms(2)] hold_inv_owner [OF inv assms(3)]
  have "held s t = 1" if "control (mx s) = SGX_THREAD_MUTEX_NONRECURSIVE"
    using inv that own assms(2) by (auto simp: hold_inv_def word_le_nat_alt)
  then show ?thesis using own by simp
qed

theorem mutex_mutual_exclusion_witness:
  "reach sync_init (sync_step True) sync1 \<and> held sync1 5 > 0
     \<and> owner (mx sync1) = 5 \<and> unat (refcount (mx sync1)) = held sync1 5"
proof -
  have "held sync1 5 > 0" by (simp add: sync1_def)
  then show ?thesis
    using mutex_mutual_exclusion [OF reach_sync1 [of True], of 5 5] reach_sync1 by simp
qed

text \<open>
  C12.  No lost wake-up on the mutex: in every reachable state in which the mutex is free and threads
  are queued, the first of them gets it by steps of the threads alone, without the host ending a wait
  of its own accord.
\<close>

theorem mutex_first_waiter_progress:
  assumes "reach sync_init (sync_step hostile) s" and "owner (mx s) = 0" and "queue (mx s) = h # qs"
  shows "\<exists>s'. (sync_step False)\<^sup>*\<^sup>* s s' \<and> owner (mx s') = h \<and> held s' h = 1"
  using steps_take_first [OF sync.reach_inv [OF assms(1)] assms(2,3)] .

theorem mutex_first_waiter_progress_witness:
  "reach sync_init (sync_step True) sync4 \<and> owner (mx sync4) = 0 \<and> queue (mx sync4) = [6]
     \<and> (\<exists>s'. (sync_step False)\<^sup>*\<^sup>* sync4 s' \<and> owner (mx s') = 6 \<and> held s' 6 = 1)"
proof -
  have "owner (mx sync4) = 0" "queue (mx sync4) = [6]"
    by (simp_all add: sync4_def demo_rounds)
  then show ?thesis
    using mutex_first_waiter_progress [OF reach_sync4 [of True], of 6 "[]"] reach_sync4 by simp
qed

text \<open>
  C25.  The mutex is handed over in the order of arrival: a step that makes a thread the owner finds
  the mutex free and the queue empty or headed by that thread, which leaves it; every other step keeps
  the queue or appends one thread at its end.
\<close>

theorem mutex_fifo:
  assumes "reach sync_init (sync_step hostile) s" and "sync_step hostile s s'"
  shows "if owner (mx s') \<noteq> owner (mx s) \<and> owner (mx s') \<noteq> 0
    then owner (mx s) = 0 \<and> (queue (mx s) = [] \<and> queue (mx s') = [] \<or> queue (mx s) = owner (mx s') # queue (mx s'))
    else queue (mx s') = queue (mx s) \<or> (\<exists>t. t \<notin> set (queue (mx s)) \<and> queue (mx s') = queue (mx s) @ [t])"
  using assms(2)
proof (cases rule: sync_step.cases)
  case (lock_take t m)
  have "t \<noteq> 0"
    using lock_take(2) sync.reach_inv [OF assms(1)] by (auto simp: sync_inv_def queue_inv_def)
  then show ?thesis using lock_take(1) lock_round_take [OF lock_take(4)] by auto
next
  case (lock_block t m)
  then show ?thesis using lock_round_block(1) [OF lock_block(3)] by auto
next
  case (try_take t m)
  then show ?thesis using lock_round_take [OF try_lock_take [OF try_take(5)]] by auto
next
  case (unlock_ok t m ws)
  from unlock_ok(4) obtain w where "unlock_lazy t (mx s) = (m, Inr w)" by (rule unlock_ok_lazy)
  then show ?thesis using unlock_ok(1) unlock_lazy_ok [of t "mx s" m w] by (auto split: if_splits)
next
  case (wait_call t q m w timed)
  then show ?thesis using unlock_lazy_ok [of t "mx s" m w] by (auto simp: wait_enter_ok split: if_splits)
next
  case (destroy_call t m r)
  then show ?thesis by (auto elim: mutex_destroy_cases)
qed (auto dest: try_lock_busy unlock_err_lazy wait_enter_err)

theorem mutex_fifo_witness:
  "reach sync_init (sync_step True) sync2 \<and> sync_step True sync2 sync3
     \<and> queue (mx sync2) = [] \<and> (\<exists>t. queue (mx sync3) = [t])"
proof -
  have "sync_step True sync1 sync2"
    using lock_call [of 6 sync1 True] by (simp add: sync1_def sync2_def)
  then have reach: "reach sync_init (sync_step True) sync2"
    by (rule reach_step [OF reach_sync1])
  have "owner (mx sync2) = 5" "owner (mx sync3) = 5" "queue (mx sync2) = []" "queue (mx sync3) \<noteq> []"
    by (simp_all add: sync2_def sync3_def demo_rounds)
  then show ?thesis
    using mutex_fifo [OF reach step_sync23] reach step_sync23 by auto
qed


text \<open>
  C13.  No lost signal: in every reachable state a thread parked in \<open>wait\<close> or \<open>wait_timeout\<close> that a
  \<open>signal\<close> or \<open>broadcast\<close> has taken off the queue leaves the wait by steps of the threads alone and goes
  on to take the mutex again.
\<close>

theorem condvar_signalled_progress:
  assumes "reach sync_init (sync_step hostile) s" and "pc s t = CvWaiting timed" and "t \<notin> set (cv s)"
  shows "\<exists>s'. (sync_step False)\<^sup>*\<^sup>* s s' \<and> pc s' t = Locking"
  using steps_leave_wait [OF sync.reach_inv [OF assms(1)] assms(2,3)] .

text \<open>A run: thread 5 takes the mutex and waits, thread 6 signals.\<close>

definition demo_waiting :: sync where
  "demo_waiting = demo_sync (demo_mutex 0 0 []) ((\<lambda>_. Idle)(5 := CvWaiting False)) ((\<lambda>_. 0)(5 := 0)) \<lparr> cv := [5] \<rparr>"

definition demo_signalled :: sync where
  "demo_signalled = demo_sync (demo_mutex 0 0 [])
     ((\<lambda>_. Idle)(5 := CvWaiting False, 6 := Signalling [5])) ((\<lambda>_. 0)(5 := 0)) \<lparr> cv := [] \<rparr>"

lemma reach_demo_signalled: "reach sync_init (sync_step hostile) demo_signalled"
proof -
  have "wait_enter 5 [] (demo_mutex 1 5 []) = ([5], demo_mutex 0 0 [], Inr 0)"
    by (simp add: wait_enter_def demo_mutex_def unlock_lazy_def)
  then have "sync_step hostile sync1 demo_waiting"
    using wait_call [of 5 sync1 "[5]" "demo_mutex 0 0 []" 0 hostile False]
    by (simp add: sync1_def demo_waiting_def demo_sync_def goto_def release_def)
  moreover have "sync_step hostile demo_waiting demo_signalled"
    using signal_call [of 6 demo_waiting "[]" "[5]" hostile]
    by (simp add: demo_waiting_def demo_signalled_def demo_sync_def goto_def signal_def signalling_def)
  ultimately show ?thesis
    using reach_step [OF reach_step [OF reach_sync1]] by blast
qed

theorem condvar_signalled_progress_witness:
  "reach sync_init (sync_step True) demo_signalled \<and> pc demo_signalled 5 = CvWaiting False
     \<and> (\<exists>s'. (sync_step False)\<^sup>*\<^sup>* demo_signalled s' \<and> pc s' 5 = Locking)"
proof -
  have "pc demo_signalled 5 = CvWaiting False" "5 \<notin> set (cv demo_signalled)"
    by (simp_all add: demo_signalled_def demo_sync_def)
  then show ?thesis
    using condvar_signalled_progress [OF reach_demo_signalled [of True], of 5 False] reach_demo_signalled by simp
qed

end
