(* ===== verification/Thread_RwLock.thy ===== *)
theory Thread_RwLock
  imports Thread_Mutex "HOL-Library.Multiset"
begin

text \<open>
  \<open>sgx_tstd\<close>, sys/rwlock.rs: the reader-writer lock, its operations as functions of the critical
  sections, and the interleaving of threads on one lock.  As for the mutex the critical sections are
  atomic and a hostile host may end a wait at any time.

  \<open>read_unlock\<close> and \<open>write_unlock\<close> keep a reference into \<open>writer_queue\<close> beyond the critical section and
  follow it afterwards.  In the interleaving this is a step of its own, which finds the queue node
  gone when the waiting writer has left the queue in between.
\<close>

section \<open>Operations\<close>

record SgxThreadRwLockInner =
  reader_count :: u32
  writer_waiting :: u32
  rw_owner :: tid
  reader_queue :: "tid list"
  writer_queue :: "tid list"

definition rwlock_new :: SgxThreadRwLockInner where
  "rwlock_new = \<lparr> reader_count = 0, writer_waiting = 0, rw_owner = SGX_THREAD_T_NULL,
                  reader_queue = [], writer_queue = [] \<rparr>"

text \<open>
  \<open>read\<close>: the first critical section (\<open>None\<close>: go on to wait), and the one after each wait (\<open>True\<close>: done).
\<close>

definition read_enter :: "tid \<Rightarrow> SgxThreadRwLockInner \<Rightarrow> SgxThreadRwLockInner \<times> SysError option" where
  "read_enter current l =
     (if rw_owner l = SGX_THREAD_T_NULL then (l \<lparr> reader_count := reader_count l + 1 \<rparr>, Some (Inr ()))
      else if rw_owner l = current then (l, Some (Inl EDEADLK))
      else (l \<lparr> reader_queue := reader_queue l @ [current] \<rparr>, None))"

definition read_retry :: "tid \<Rightarrow> SgxThreadRwLockInner \<Rightarrow> SgxThreadRwLockInner \<times> bool" where
  "read_retry current l =
     (if rw_owner l = SGX_THREAD_T_NULL
      then (l \<lparr> reader_count := reader_count l + 1, reader_queue := remove1 current (reader_queue l) \<rparr>, True)
      else (l, False))"

definition try_read :: "SgxThreadRwLockInner \<Rightarrow> SgxThreadRwLockInner \<times> SysError" where
  "try_read l =
     (if rw_owner l = SGX_THREAD_T_NULL then (l \<lparr> reader_count := reader_count l + 1 \<rparr>, Inr ())
      else (l, Inl EBUSY))"

definition write_enter :: "tid \<Rightarrow> SgxThreadRwLockInner \<Rightarrow> SgxThreadRwLockInner \<times> SysError option" where
  "write_enter current l =
     (if rw_owner l = SGX_THREAD_T_NULL \<and> reader_count l = 0
      then (l \<lparr> rw_owner := current \<rparr>, Some (Inr ()))
      else if rw_owner l = current then (l, Some (Inl EDEADLK))
      else (l \<lparr> writer_queue := writer_queue l @ [current] \<rparr>, None))"

definition write_retry :: "tid \<Rightarrow> SgxThreadRwLockInner \<Rightarrow> SgxThreadRwLockInner \<times> bool" where
  "write_retry current l =
     (if rw_owner l = SGX_THREAD_T_NULL \<and> reader_count l = 0
      then (l \<lparr> rw_owner := current, writer_queue := remove1 current (writer_queue l) \<rparr>, True)
      else (l, False))"

definition try_write :: "tid \<Rightarrow> SgxThreadRwLockInner \<Rightarrow> SgxThreadRwLockInner \<times> SysError" where
  "try_write current l =
     (if rw_owner l = SGX_THREAD_T_NULL \<and> reader_count l = 0
      then (l \<lparr> rw_owner := current \<rparr>, Inr ())
      else (l, Inl EBUSY))"

text \<open>
  What is left to do after the critical section of an unlock: nothing, wake copied thread addresses,
  or wake the thread in the queue node a reference points to.
\<close>

datatype after_unlock = Nothing | WakeAll "tid list" | WakeFront tid

definition wake_front :: "tid list \<Rightarrow> after_unlock" where
  "wake_front q = (case front q of None \<Rightarrow> Nothing | Some td \<Rightarrow> WakeFront td)"

definition read_unlock :: "SgxThreadRwLockInner \<Rightarrow> SgxThreadRwLockInner \<times> (int + after_unlock)" where
  "read_unlock l =
     (if reader_count l = 0 then (l, Inl EPERM)
      else let l1 = l \<lparr> reader_count := reader_count l - 1 \<rparr> in
        (l1, Inr (if reader_count l1 = 0 then wake_front (writer_queue l1) else Nothing)))"

definition write_unlock :: "tid \<Rightarrow> SgxThreadRwLockInner \<Rightarrow> SgxThreadRwLockInner \<times> (int + after_unlock)" where
  "write_unlock current l =
     (if rw_owner l \<noteq> current then (l, Inl EPERM)
      else let l1 = l \<lparr> rw_owner := SGX_THREAD_T_NULL \<rparr> in
        (l1, Inr (if reader_queue l1 \<noteq> [] then WakeAll (reader_queue l1) else wake_front (writer_queue l1))))"

definition rw_unlock :: "tid \<Rightarrow> SgxThreadRwLockInner \<Rightarrow> SgxThreadRwLockInner \<times> (int + after_unlock)" where
  "rw_unlock current l = (if rw_owner l = current then write_unlock current l else read_unlock l)"

definition rw_destroy :: "SgxThreadRwLockInner \<Rightarrow> SysError" where
  "rw_destroy l =
     (if rw_owner l \<noteq> SGX_THREAD_T_NULL \<or> reader_count l \<noteq> 0 \<or> writer_waiting l \<noteq> 0
         \<or> reader_queue l \<noteq> [] \<or> writer_queue l \<noteq> []
      then Inl EBUSY else Inr ())"

section \<open>Interleaving\<close>

datatype rwpc = RwIdle | RWaiting | RRetry | WWaiting | WRetry | After after_unlock

text \<open>
  \<open>readers\<close> is the multiset of the threads whose read access is not yet released, \<open>dangling\<close> records
  that a reference was followed whose queue node was gone; neither is part of the program.
\<close>

record rwsync =
  lk :: SgxThreadRwLockInner
  rpc :: "tid \<Rightarrow> rwpc"
  revent :: "tid \<Rightarrow> bool"
  readers :: "tid multiset"
  dangling :: bool

definition rgoto :: "tid \<Rightarrow> rwpc \<Rightarrow> rwsync \<Rightarrow> rwsync" where
  "rgoto t p s = s \<lparr> rpc := (rpc s)(t := p) \<rparr>"

definition after :: "after_unlock \<Rightarrow> rwpc" where
  "after a = (if a = Nothing then RwIdle else After a)"

text \<open>
  A read access is released by a thread that has one, as the guards of \<open>SgxRwLock\<close> do.  The steps that
  add a reader exclude the \<open>2 ^ 32\<close>-th, at which \<open>reader_count += 1\<close> wraps.
\<close>

inductive rw_step :: "bool \<Rightarrow> rwsync \<Rightarrow> rwsync \<Rightarrow> bool" for hostile where
  read_ok: "t \<noteq> 0 \<Longrightarrow> rpc s t = RwIdle \<Longrightarrow> reader_count (lk s) \<noteq> -1 \<Longrightarrow> read_enter t (lk s) = (l, Some (Inr ())) \<Longrightarrow>
    rw_step hostile s (s \<lparr> lk := l, readers := add_mset t (readers s) \<rparr>)"
| read_err: "t \<noteq> 0 \<Longrightarrow> rpc s t = RwIdle \<Longrightarrow> read_enter t (lk s) = (l, Some (Inl e)) \<Longrightarrow> rw_step hostile s (s \<lparr> lk := l \<rparr>)"
| read_wait: "t \<noteq> 0 \<Longrightarrow> rpc s t = RwIdle \<Longrightarrow> read_enter t (lk s) = (l, None) \<Longrightarrow>
    rw_step hostile s (rgoto t RWaiting (s \<lparr> lk := l \<rparr>))"
| read_woken: "rpc s t = RWaiting \<Longrightarrow> revent s t \<Longrightarrow>
    rw_step hostile s (rgoto t RRetry (s \<lparr> revent := (revent s)(t := False) \<rparr>))"
| read_spurious: "hostile \<Longrightarrow> rpc s t = RWaiting \<Longrightarrow> rw_step hostile s (rgoto t RRetry s)"
| read_take: "rpc s t = RRetry \<Longrightarrow> reader_count (lk s) \<noteq> -1 \<Longrightarrow> read_retry t (lk s) = (l, True) \<Longrightarrow>
    rw_step hostile s (rgoto t RwIdle (s \<lparr> lk := l, readers := add_mset t (readers s) \<rparr>))"
| read_again: "rpc s t = RRetry \<Longrightarrow> read_retry t (lk s) = (l, False) \<Longrightarrow>
    rw_step hostile s (rgoto t RWaiting (s \<lparr> lk := l \<rparr>))"
| try_read_ok: "t \<noteq> 0 \<Longrightarrow> rpc s t = RwIdle \<Longrightarrow> reader_count (lk s) \<noteq> -1 \<Longrightarrow> try_read (lk s) = (l, Inr ()) \<Longrightarrow>
    rw_step hostile s (s \<lparr> lk := l, readers := add_mset t (readers s) \<rparr>)"
| try_read_busy: "t \<noteq> 0 \<Longrightarrow> rpc s t = RwIdle \<Longrightarrow> try_read (lk s) = (l, Inl e) \<Longrightarrow> rw_step hostile s (s \<lparr> lk := l \<rparr>)"
| write_ok: "t \<noteq> 0 \<Longrightarrow> rpc s t = RwIdle \<Longrightarrow> write_enter t (lk s) = (l, Some r) \<Longrightarrow> rw_step hostile s (s \<lparr> lk := l \<rparr>)"
| write_wait: "t \<noteq> 0 \<Longrightarrow> rpc s t = RwIdle \<Longrightarrow> write_enter t (lk s) = (l, None) \<Longrightarrow>
    rw_step hostile s (rgoto t WWaiting (s \<lparr> lk := l \<rparr>))"
| write_woken: "rpc s t = WWaiting \<Longrightarrow> revent s t \<Longrightarrow>
    rw_step hostile s (rgoto t WRetry (s \<lparr> revent := (revent s)(t := False) \<rparr>))"
| write_spurious: "hostile \<Longrightarrow> rpc s t = WWaiting \<Longrightarrow> rw_step hostile s (rgoto t WRetry s)"
| write_take: "rpc s t = WRetry \<Longrightarrow> write_retry t (lk s) = (l, True) \<Longrightarrow>
    rw_step hostile s (rgoto t RwIdle (s \<lparr> lk := l \<rparr>))"
| write_again: "rpc s t = WRetry \<Longrightarrow> write_retry t (lk s) = (l, False) \<Longrightarrow>
    rw_step hostile s (rgoto t WWaiting (s \<lparr> lk := l \<rparr>))"
| try_write_call: "t \<noteq> 0 \<Longrightarrow> rpc s t = RwIdle \<Longrightarrow> try_write t (lk s) = (l, r) \<Longrightarrow> rw_step hostile s (s \<lparr> lk := l \<rparr>)"
| read_unlock_ok: "t \<noteq> 0 \<Longrightarrow> rpc s t = RwIdle \<Longrightarrow> t \<in># readers s \<Longrightarrow> read_unlock (lk s) = (l, Inr a) \<Longrightarrow>
    rw_step hostile s (rgoto t (after a) (s \<lparr> lk := l, readers := readers s - {#t#} \<rparr>))"
| write_unlock_ok: "t \<noteq> 0 \<Longrightarrow> rpc s t = RwIdle \<Longrightarrow> write_unlock t (lk s) = (l, Inr a) \<Longrightarrow>
    rw_step hostile s (rgoto t (after a) (s \<lparr> lk := l \<rparr>))"
| write_unlock_err: "t \<noteq> 0 \<Longrightarrow> rpc s t = RwIdle \<Longrightarrow> write_unlock t (lk s) = (l, Inl e) \<Longrightarrow> rw_step hostile s (s \<lparr> lk := l \<rparr>)"
| wake_all: "rpc s t = After (WakeAll ws) \<Longrightarrow>
    rw_step hostile s (rgoto t RwIdle (s \<lparr> revent := (\<lambda>u. u \<in> set ws \<or> revent s u) \<rparr>))"
| follow_front: "rpc s t = After (WakeFront w) \<Longrightarrow> w \<in> set (writer_queue (lk s)) \<Longrightarrow>
    rw_step hostile s (rgoto t RwIdle (s \<lparr> revent := (revent s)(w := True) \<rparr>))"
| follow_dangling: "rpc s t = After (WakeFront w) \<Longrightarrow> w \<notin> set (writer_queue (lk s)) \<Longrightarrow>
    rw_step hostile s (rgoto t RwIdle (s \<lparr> dangling := True \<rparr>))"

definition rw_init :: "rwsync \<Rightarrow> bool" where
  "rw_init s \<longleftrightarrow> s = \<lparr> lk = rwlock_new, rpc = (\<lambda>_. RwIdle), revent = (\<lambda>_. False), readers = {#}, dangling = False \<rparr>"


section \<open>Invariant\<close>

definition excl_inv :: "rwsync \<Rightarrow> bool" where
  "excl_inv s \<longleftrightarrow> size (readers s) = unat (reader_count (lk s))
     \<and> (rw_owner (lk s) \<noteq> 0 \<longrightarrow> reader_count (lk s) = 0)"

definition rwq_inv :: "rwsync \<Rightarrow> bool" where
  "rwq_inv s \<longleftrightarrow>
     distinct (reader_queue (lk s)) \<and> distinct (writer_queue (lk s))
     \<and> (\<forall>t. t \<in> set (reader_queue (lk s)) \<longleftrightarrow> rpc s t = RWaiting \<or> rpc s t = RRetry)
     \<and> (\<forall>t. t \<in> set (writer_queue (lk s)) \<longleftrightarrow> rpc s t = WWaiting \<or> rpc s t = WRetry)
     \<and> rpc s 0 = RwIdle"

text \<open>
  A wake-up is pending for a thread, or another thread is about to send it: to a queued reader with the
  copied addresses, to a queued writer through the reference.
\<close>

definition reader_woken :: "rwsync \<Rightarrow> tid \<Rightarrow> bool" where
  "reader_woken s t \<longleftrightarrow> revent s t \<or> (\<exists>u ws. rpc s u = After (WakeAll ws) \<and> t \<in> set ws)"

definition writer_woken :: "rwsync \<Rightarrow> tid \<Rightarrow> bool" where
  "writer_woken s t \<longleftrightarrow> revent s t \<or> (\<exists>u. rpc s u = After (WakeFront t))"

text \<open>
  When no writer owns the lock every queued reader is on its way; when the lock is free and no reader
  is queued, the first queued writer is.
\<close>

definition reader_wake_inv :: "rwsync \<Rightarrow> bool" where
  "reader_wake_inv s \<longleftrightarrow> (rw_owner (lk s) = 0 \<longrightarrow>
     (\<forall>t \<in> set (reader_queue (lk s)). rpc s t = RRetry \<or> reader_woken s t))"

definition writer_wake_inv :: "rwsync \<Rightarrow> bool" where
  "writer_wake_inv s \<longleftrightarrow> (rw_owner (lk s) = 0 \<and> reader_count (lk s) = 0 \<and> reader_queue (lk s) = [] \<longrightarrow>
     (case writer_queue (lk s) of [] \<Rightarrow> True | h # _ \<Rightarrow> rpc s h = WRetry \<or> writer_woken s h))"

definition rw_inv :: "rwsync \<Rightarrow> bool" where
  "rw_inv s \<longleftrightarrow> excl_inv s \<and> rwq_inv s \<and> reader_wake_inv s \<and> writer_wake_inv s"

lemma rgoto_sel [simp]:
  "lk (rgoto t p s) = lk s" "rpc (rgoto t p s) = (rpc s)(t := p)" "revent (rgoto t p s) = revent s"
  "readers (rgoto t p s) = readers s" "dangling (rgoto t p s) = dangling s"
  by (simp_all add: rgoto_def)

lemmas rw_op_defs = read_enter_def read_retry_def try_read_def write_enter_def write_retry_def try_write_def
  read_unlock_def write_unlock_def Let_def

lemma unat_u32_inc: "(r :: u32) \<noteq> -1 \<Longrightarrow> unat (r + 1) = Suc (unat r)"
  using unatSuc [of r] eq_neg_iff_add_eq_0 [of r 1] by (simp add: add.commute)

lemma unat_u32_dec: "(r :: u32) \<noteq> 0 \<Longrightarrow> unat (r - 1) = unat r - 1"
  by (simp add: unat_minus_one)

lemma step_excl_inv:
  assumes step: "rw_step hostile s s'" and inv: "excl_inv s"
  shows "excl_inv s'"
  using step
proof (cases rule: rw_step.cases)
  case (read_unlock_ok t l a)
  then show ?thesis
    using inv by (auto simp: excl_inv_def read_unlock_def Let_def unat_u32_dec size_Diff_singleton split: if_splits)
qed (use inv in \<open>auto simp: excl_inv_def rw_op_defs unat_u32_inc split: if_splits\<close>)

lemma step_rwq_inv:
  assumes step: "rw_step hostile s s'" and inv: "rwq_inv s"
  shows "rwq_inv s'"
  using step
proof (cases rule: rw_step.cases)
  case (read_unlock_ok t l a)
  then have "after a \<noteq> RWaiting \<and> after a \<noteq> RRetry \<and> after a \<noteq> WWaiting \<and> after a \<noteq> WRetry"
    by (simp add: after_def)
  moreover have "reader_queue l = reader_queue (lk s)" "writer_queue l = writer_queue (lk s)"
    using read_unlock_ok(5) by (auto simp: read_unlock_def Let_def split: if_splits)
  ultimately show ?thesis using read_unlock_ok inv by (auto simp: rwq_inv_def)
next
  case (write_unlock_ok t l a)
  then have "after a \<noteq> RWaiting \<and> after a \<noteq> RRetry \<and> after a \<noteq> WWaiting \<and> after a \<noteq> WRetry"
    by (simp add: after_def)
  moreover have "reader_queue l = reader_queue (lk s)" "writer_queue l = writer_queue (lk s)"
    using write_unlock_ok(4) by (auto simp: write_unlock_def Let_def split: if_splits)
  ultimately show ?thesis using write_unlock_ok inv by (auto simp: rwq_inv_def)
qed (use inv in \<open>auto simp: rwq_inv_def rw_op_defs split: if_splits\<close>)


text \<open>Steps that send no wake-up keep those that are pending.\<close>

lemma reader_woken_mono:
  assumes "reader_woken s x" and "rpc s' = (rpc s)(t := p)" and "\<And>u. u \<noteq> t \<Longrightarrow> revent s u \<Longrightarrow> revent s' u"
    and "\<And>ws. rpc s t = After (WakeAll ws) \<Longrightarrow> x \<in> set ws \<Longrightarrow> revent s' x" and "x \<noteq> t \<or> (revent s t \<longrightarrow> revent s' t)"
  shows "reader_woken s' x"
  using assms unfolding reader_woken_def by (metis fun_upd_apply)

lemma writer_woken_mono:
  assumes "writer_woken s x" and "rpc s' = (rpc s)(t := p)" and "\<And>u. u \<noteq> t \<Longrightarrow> revent s u \<Longrightarrow> revent s' u"
    and "rpc s t = After (WakeFront x) \<Longrightarrow> revent s' x" and "x \<noteq> t \<or> (revent s t \<longrightarrow> revent s' t)"
  shows "writer_woken s' x"
  using assms unfolding writer_woken_def by (metis fun_upd_apply)

lemma reader_wake_inv_mono:
  assumes inv: "reader_wake_inv s" and pc: "rpc s' = (rpc s)(t := p)"
    and own: "rw_owner (lk s') = 0 \<Longrightarrow> rw_owner (lk s) = 0
      \<and> set (reader_queue (lk s')) \<subseteq> set (reader_queue (lk s)) \<and> (t \<in> set (reader_queue (lk s')) \<longrightarrow> p = RRetry)"
    and ev: "\<And>u. u \<noteq> t \<Longrightarrow> revent s u \<Longrightarrow> revent s' u"
    and wk: "\<And>ws x. rpc s t = After (WakeAll ws) \<Longrightarrow> x \<in> set ws \<Longrightarrow> revent s' x"
  shows "reader_wake_inv s'"
  unfolding reader_wake_inv_def
proof (intro impI ballI)
  fix x
  assume o': "rw_owner (lk s') = 0" and x: "x \<in> set (reader_queue (lk s'))"
  show "rpc s' x = RRetry \<or> reader_woken s' x"
  proof (cases "x = t")
    case True
    then show ?thesis using own [OF o'] x pc by auto
  next
    case False
    then have "rpc s x = RRetry \<or> reader_woken s x"
      using own [OF o'] x inv by (auto simp: reader_wake_inv_def)
    then show ?thesis
      using False pc ev wk reader_woken_mono [of s x s' t p] by auto
  qed
qed

lemma writer_wake_inv_mono:
  assumes inv: "writer_wake_inv s" and pc: "rpc s' = (rpc s)(t := p)"
    and own: "rw_owner (lk s') = 0 \<Longrightarrow> reader_count (lk s') = 0 \<Longrightarrow> reader_queue (lk s') = [] \<Longrightarrow>
      rw_owner (lk s) = 0 \<and> reader_count (lk s) = 0 \<and> reader_queue (lk s) = []
      \<and> writer_queue (lk s') = writer_queue (lk s) \<and> (t \<in> set (writer_queue (lk s')) \<longrightarrow> p = WRetry)"
    and ev: "\<And>u. u \<noteq> t \<Longrightarrow> revent s u \<Longrightarrow> revent s' u"
    and wk: "\<And>x. rpc s t = After (WakeFront x) \<Longrightarrow> x \<in> set (writer_queue (lk s)) \<Longrightarrow> revent s' x"
  shows "writer_wake_inv s'"
proof (cases "rw_owner (lk s') = 0 \<and> reader_count (lk s') = 0 \<and> reader_queue (lk s') = []")
  case True
  note free = own [OF conjunct1 [OF True] conjunct1 [OF conjunct2 [OF True]] conjunct2 [OF conjunct2 [OF True]]]
  show ?thesis
  proof (cases "writer_queue (lk s)")
    case Nil
    then show ?thesis using free by (simp add: writer_wake_inv_def)
  next
    case (Cons h qs)
    then have h: "rpc s h = WRetry \<or> writer_woken s h"
      using inv free by (simp add: writer_wake_inv_def)
    have "rpc s' h = WRetry \<or> writer_woken s' h"
    proof (cases "h = t")
      case True
      then show ?thesis using free Cons pc by auto
    next
      case False
      then show ?thesis using h pc ev wk Cons writer_woken_mono [of s h s' t p] by auto
    qed
    then show ?thesis using free Cons by (simp add: writer_wake_inv_def)
  qed
qed (auto simp: writer_wake_inv_def)


lemma rwq_notin:
  assumes "rwq_inv s"
  shows "rpc s t \<noteq> RWaiting \<Longrightarrow> rpc s t \<noteq> RRetry \<Longrightarrow> t \<notin> set (reader_queue (lk s))"
    and "rpc s t \<noteq> WWaiting \<Longrightarrow> rpc s t \<noteq> WRetry \<Longrightarrow> t \<notin> set (writer_queue (lk s))"
    and "distinct (reader_queue (lk s))" and "distinct (writer_queue (lk s))" and "rpc s 0 = RwIdle"
  using assms by (simp_all add: rwq_inv_def)

lemma step_reader_wake_inv:
  assumes step: "rw_step hostile s s'" and inv: "reader_wake_inv s" and qinv: "rwq_inv s"
  shows "reader_wake_inv s'"
  using step
proof (cases rule: rw_step.cases)
  case (read_unlock_ok t l a)
  then show ?thesis
    by (intro reader_wake_inv_mono [OF inv, of s' t "after a"])
      (auto simp: rw_op_defs rwq_notin [OF qinv] split: if_splits)
next
  case (write_unlock_ok t l a)
  then have "a = WakeAll (reader_queue l)" if "reader_queue l \<noteq> []"
    using that by (auto simp: write_unlock_def Let_def split: if_splits)
  then have "rpc s' t = After (WakeAll (reader_queue l))" if "reader_queue l \<noteq> []"
    using that write_unlock_ok(1) by (simp add: after_def)
  then have "reader_woken s' x" if "x \<in> set (reader_queue l)" for x
    using that unfolding reader_woken_def by (metis list.set_cases list.distinct(1))
  then show ?thesis
    using write_unlock_ok(1) by (simp add: reader_wake_inv_def)
next
  case (read_ok t l)
  then show ?thesis
    by (intro reader_wake_inv_mono [OF inv, of s' t "rpc s t"])
      (auto simp: rw_op_defs rwq_notin [OF qinv] split: if_splits)
next
  case (read_err t l e)
  then show ?thesis
    by (intro reader_wake_inv_mono [OF inv, of s' t "rpc s t"])
      (auto simp: rw_op_defs rwq_notin [OF qinv] split: if_splits)
next
  case (read_wait t l)
  then show ?thesis
    by (intro reader_wake_inv_mono [OF inv, of s' t RWaiting])
      (auto simp: rw_op_defs rwq_notin [OF qinv] split: if_splits)
next
  case (read_woken t)
  then show ?thesis
    by (intro reader_wake_inv_mono [OF inv, of s' t RRetry])
      (auto simp: rw_op_defs rwq_notin [OF qinv] split: if_splits)
next
  case (read_spurious t)
  then show ?thesis
    by (intro reader_wake_inv_mono [OF inv, of s' t RRetry])
      (auto simp: rw_op_defs rwq_notin [OF qinv] split: if_splits)
next
  case (read_take t l)
  then show ?thesis
    by (intro reader_wake_inv_mono [OF inv, of s' t RwIdle])
      (auto simp: rw_op_defs rwq_notin [OF qinv] split: if_splits)
next
  case (read_again t l)
  then show ?thesis
    by (intro reader_wake_inv_mono [OF inv, of s' t RWaiting])
      (auto simp: rw_op_defs rwq_notin [OF qinv] split: if_splits)
next
  case (try_read_ok t l)
  then show ?thesis
    by (intro reader_wake_inv_mono [OF inv, of s' t "rpc s t"])
      (auto simp: rw_op_defs rwq_notin [OF qinv] split: if_splits)
next
  case (try_read_busy t l e)
  then show ?thesis
    by (intro reader_wake_inv_mono [OF inv, of s' t "rpc s t"])
      (auto simp: rw_op_defs rwq_notin [OF qinv] split: if_splits)
next
  case (write_ok t l r)
  then show ?thesis
    by (intro reader_wake_inv_mono [OF inv, of s' t "rpc s t"])
      (auto simp: rw_op_defs rwq_notin [OF qinv] split: if_splits)
next
  case (write_wait t l)
  then show ?thesis
    by (intro reader_wake_inv_mono [OF inv, of s' t WWaiting])
      (auto simp: rw_op_defs rwq_notin [OF qinv] split: if_splits)
next
  case (write_woken t)
  then show ?thesis
    by (intro reader_wake_inv_mono [OF inv, of s' t WRetry])
      (auto simp: rw_op_defs rwq_notin [OF qinv] split: if_splits)
next
  case (write_spurious t)
  then show ?thesis
    by (intro reader_wake_inv_mono [OF inv, of s' t WRetry])
      (auto simp: rw_op_defs rwq_notin [OF qinv] split: if_splits)
next
  case (write_take t l)
  then show ?thesis
    by (intro reader_wake_inv_mono [OF inv, of s' t RwIdle])
      (auto simp: rw_op_defs rwq_notin [OF qinv] split: if_splits)
next
  case (write_again t l)
  then show ?thesis
    by (intro reader_wake_inv_mono [OF inv, of s' t WWaiting])
      (auto simp: rw_op_defs rwq_notin [OF qinv] split: if_splits)
next
  case (try_write_call t l r)
  then show ?thesis
    by (intro reader_wake_inv_mono [OF inv, of s' t "rpc s t"])
      (auto simp: rw_op_defs rwq_notin [OF qinv] split: if_splits)
next
  case (write_unlock_err t l e)
  then show ?thesis
    by (intro reader_wake_inv_mono [OF inv, of s' t "rpc s t"])
      (auto simp: rw_op_defs rwq_notin [OF qinv] split: if_splits)
next
  case (wake_all t ws)
  then show ?thesis
    by (intro reader_wake_inv_mono [OF inv, of s' t RwIdle])
      (auto simp: rw_op_defs rwq_notin [OF qinv] split: if_splits)
next
  case (follow_front t w)
  then show ?thesis
    by (intro reader_wake_inv_mono [OF inv, of s' t RwIdle])
      (auto simp: rw_op_defs rwq_notin [OF qinv] split: if_splits)
next
  case (follow_dangling t w)
  then show ?thesis
    by (intro reader_wake_inv_mono [OF inv, of s' t RwIdle])
      (auto simp: rw_op_defs rwq_notin [OF qinv] split: if_splits)
qed

lemma u32_inc_nz: "(r :: u32) \<noteq> -1 \<Longrightarrow> r + 1 \<noteq> 0"
  using eq_neg_iff_add_eq_0 [of r 1] by simp

lemma writer_wake_front:
  assumes "rpc s' t = after (wake_front (writer_queue (lk s')))"
  shows "writer_wake_inv s'"
proof (cases "writer_queue (lk s')")
  case (Cons h qs)
  then have "writer_woken s' h"
    using assms unfolding writer_woken_def by (auto simp: after_def wake_front_def)
  then show ?thesis using Cons by (simp add: writer_wake_inv_def)
qed (simp add: writer_wake_inv_def)

lemma step_writer_wake_inv:
  assumes step: "rw_step hostile s s'" and inv: "writer_wake_inv s" and qinv: "rwq_inv s"
  shows "writer_wake_inv s'"
  using step
proof (cases rule: rw_step.cases)
  case (read_unlock_ok t l a)
  show ?thesis
  proof (cases "reader_count l = 0")
    case True
    then have "a = wake_front (writer_queue l)"
      using read_unlock_ok(5) by (auto simp: read_unlock_def Let_def split: if_splits)
    then show ?thesis
      using read_unlock_ok(1) by (intro writer_wake_front [of s' t]) simp
  next
    case False
    then show ?thesis using read_unlock_ok(1) by (simp add: writer_wake_inv_def)
  qed
next
  case (write_unlock_ok t l a)
  show ?thesis
  proof (cases "reader_queue l = []")
    case True
    then have "a = wake_front (writer_queue l)"
      using write_unlock_ok(4) by (auto simp: write_unlock_def Let_def split: if_splits)
    then show ?thesis
      using write_unlock_ok(1) by (intro writer_wake_front [of s' t]) simp
  next
    case False
    then show ?thesis using write_unlock_ok(1) by (simp add: writer_wake_inv_def)
  qed
next
  case (read_ok t l)
  then show ?thesis
    using u32_inc_nz [of "reader_count (lk s)"]
    by (intro writer_wake_inv_mono [OF inv, of s' t "rpc s t"])
      (auto simp: rw_op_defs rwq_notin [OF qinv] split: if_splits)
next
  case (read_err t l e)
  then show ?thesis
    by (intro writer_wake_inv_mono [OF inv, of s' t "rpc s t"])
      (auto simp: rw_op_defs rwq_notin [OF qinv] split: if_splits)
next
  case (read_wait t l)
  then show ?thesis
    by (intro writer_wake_inv_mono [OF inv, of s' t RWaiting])
      (auto simp: rw_op_defs rwq_notin [OF qinv] split: if_splits)
next
  case (read_woken t)
  then show ?thesis
    by (intro writer_wake_inv_mono [OF inv, of s' t RRetry])
      (auto simp: rw_op_defs rwq_notin [OF qinv] split: if_splits)
next
  case (read_spurious t)
  then show ?thesis
    by (intro writer_wake_inv_mono [OF inv, of s' t RRetry])
      (auto simp: rw_op_defs rwq_notin [OF qinv] split: if_splits)
next
  case (read_take t l)
  then show ?thesis
    using u32_inc_nz [of "reader_count (lk s)"]
    by (intro writer_wake_inv_mono [OF inv, of s' t RwIdle])
      (auto simp: rw_op_defs rwq_notin [OF qinv] split: if_splits)
next
  case (read_again t l)
  then show ?thesis
    by (intro writer_wake_inv_mono [OF inv, of s' t RWaiting])
      (auto simp: rw_op_defs rwq_notin [OF qinv] split: if_splits)
next
  case (try_read_ok t l)
  then show ?thesis
    using u32_inc_nz [of "reader_count (lk s)"]
    by (intro writer_wake_inv_mono [OF inv, of s' t "rpc s t"])
      (auto simp: rw_op_defs rwq_notin [OF qinv] split: if_splits)
next
  case (try_read_busy t l e)
  then show ?thesis
    by (intro writer_wake_inv_mono [OF inv, of s' t "rpc s t"])
      (auto simp: rw_op_defs rwq_notin [OF qinv] split: if_splits)
next
  case (write_ok t l r)
  then show ?thesis
    by (intro writer_wake_inv_mono [OF inv, of s' t "rpc s t"])
      (auto simp: rw_op_defs rwq_notin [OF qinv] split: if_splits)
next
  case (write_wait t l)
  then show ?thesis
    by (intro writer_wake_inv_mono [OF inv, of s' t WWaiting])
      (auto simp: rw_op_defs rwq_notin [OF qinv] split: if_splits)
next
  case (write_woken t)
  then show ?thesis
    by (intro writer_wake_inv_mono [OF inv, of s' t WRetry])
      (auto simp: rw_op_defs rwq_notin [OF qinv] split: if_splits)
next
  case (write_spurious t)
  then show ?thesis
    by (intro writer_wake_inv_mono [OF inv, of s' t WRetry])
      (auto simp: rw_op_defs rwq_notin [OF qinv] split: if_splits)
next
  case (write_take t l)
  then show ?thesis
    by (intro writer_wake_inv_mono [OF inv, of s' t RwIdle])
      (auto simp: rw_op_defs rwq_notin [OF qinv] split: if_splits)
next
  case (write_again t l)
  then show ?thesis
    by (intro writer_wake_inv_mono [OF inv, of s' t WWaiting])
      (auto simp: rw_op_defs rwq_notin [OF qinv] split: if_splits)
next
  case (try_write_call t l r)
  then show ?thesis
    by (intro writer_wake_inv_mono [OF inv, of s' t "rpc s t"])
      (auto simp: rw_op_defs rwq_notin [OF qinv] split: if_splits)
next
  case (write_unlock_err t l e)
  then show ?thesis
    by (intro writer_wake_inv_mono [OF inv, of s' t "rpc s t"])
      (auto simp: rw_op_defs rwq_notin [OF qinv] split: if_splits)
next
  case (wake_all t ws)
  then show ?thesis
    by (intro writer_wake_inv_mono [OF inv, of s' t RwIdle])
      (auto simp: rw_op_defs rwq_notin [OF qinv] split: if_splits)
next
  case (follow_front t w)
  then show ?thesis
    by (intro writer_wake_inv_mono [OF inv, of s' t RwIdle])
      (auto simp: rw_op_defs rwq_notin [OF qinv] split: if_splits)
next
  case (follow_dangling t w)
  then show ?thesis
    by (intro writer_wake_inv_mono [OF inv, of s' t RwIdle])
      (auto simp: rw_op_defs rwq_notin [OF qinv] split: if_splits)
qed


interpretation rw: invariant_machine rw_init "rw_step hostile" rw_inv for hostile
proof
  show "rw_inv s" if "rw_init s" for s
    using that by (simp add: rw_init_def rw_inv_def excl_inv_def rwq_inv_def reader_wake_inv_def
        writer_wake_inv_def rwlock_new_def)
  show "rw_inv t" if "rw_step hostile s t" "rw_inv s" for s t
    using that step_excl_inv step_rwq_inv step_reader_wake_inv step_writer_wake_inv
    unfolding rw_inv_def by blast
qed

section \<open>Progress\<close>

lemma step_reader_take:
  assumes "rpc s t = RRetry" and "rw_owner (lk s) = 0" and "reader_count (lk s) \<noteq> -1"
  shows "\<exists>s'. rw_step hostile s s' \<and> t \<in># readers s'"
  using read_take [of s t "fst (read_retry t (lk s))" hostile] assms
  by (intro exI [of _ "rgoto t RwIdle (s \<lparr> lk := fst (read_retry t (lk s)), readers := add_mset t (readers s) \<rparr>)"])
    (simp add: read_retry_def)

lemma steps_reader_event:
  assumes "rpc s t = RRetry \<or> rpc s t = RWaiting \<and> revent s t"
    and "rw_owner (lk s) = 0" and "reader_count (lk s) \<noteq> -1"
  shows "\<exists>s'. (rw_step hostile)\<^sup>*\<^sup>* s s' \<and> t \<in># readers s'"
  using assms(1)
proof
  assume "rpc s t = RRetry"
  then show ?thesis using step_reader_take assms(2,3) by blast
next
  assume w: "rpc s t = RWaiting \<and> revent s t"
  let ?s = "rgoto t RRetry (s \<lparr> revent := (revent s)(t := False) \<rparr>)"
  have "rw_step hostile s ?s" using w by (intro read_woken) simp_all
  moreover obtain s' where "rw_step hostile ?s s'" "t \<in># readers s'"
    using step_reader_take [of ?s t hostile] assms(2,3) by auto
  ultimately show ?thesis by (meson converse_rtranclp_into_rtranclp r_into_rtranclp)
qed

lemma steps_reader:
  assumes inv: "rw_inv s" and own: "rw_owner (lk s) = 0" and cnt: "reader_count (lk s) \<noteq> -1"
    and t: "t \<in> set (reader_queue (lk s))"
  shows "\<exists>s'. (rw_step hostile)\<^sup>*\<^sup>* s s' \<and> t \<in># readers s'"
proof -
  have pc: "rpc s t = RWaiting \<or> rpc s t = RRetry" using inv t by (simp add: rw_inv_def rwq_inv_def)
  have "rpc s t = RRetry \<or> reader_woken s t"
    using inv own t by (simp add: rw_inv_def reader_wake_inv_def)
  then consider (now) "rpc s t = RRetry \<or> rpc s t = RWaiting \<and> revent s t"
    | (sent) u ws where "rpc s t = RWaiting" "rpc s u = After (WakeAll ws)" "t \<in> set ws"
    using pc by (auto simp: reader_woken_def)
  then show ?thesis
  proof cases
    case now
    then show ?thesis using steps_reader_event own cnt by blast
  next
    case sent
    let ?s = "rgoto u RwIdle (s \<lparr> revent := (\<lambda>v. v \<in> set ws \<or> revent s v) \<rparr>)"
    have ut: "u \<noteq> t" using sent by auto
    have "rw_step hostile s ?s" using sent(2) by (rule wake_all)
    moreover obtain s' where "(rw_step hostile)\<^sup>*\<^sup>* ?s s'" "t \<in># readers s'"
      using steps_reader_event [of ?s t hostile] sent own cnt ut by auto
    ultimately show ?thesis by (meson converse_rtranclp_into_rtranclp)
  qed
qed

lemma step_writer_take:
  assumes "rpc s h = WRetry" and "rw_owner (lk s) = 0" and "reader_count (lk s) = 0"
  shows "\<exists>s'. rw_step hostile s s' \<and> rw_owner (lk s') = h"
  using write_take [of s h "fst (write_retry h (lk s))" hostile] assms
  by (intro exI [of _ "rgoto h RwIdle (s \<lparr> lk := fst (write_retry h (lk s)) \<rparr>)"]) (simp add: write_retry_def)

lemma steps_writer_event:
  assumes "rpc s h = WRetry \<or> rpc s h = WWaiting \<and> revent s h"
    and "rw_owner (lk s) = 0" and "reader_count (lk s) = 0"
  shows "\<exists>s'. (rw_step hostile)\<^sup>*\<^sup>* s s' \<and> rw_owner (lk s') = h"
  using assms(1)
proof
  assume "rpc s h = WRetry"
  then show ?thesis using step_writer_take assms(2,3) by blast
next
  assume w: "rpc s h = WWaiting \<and> revent s h"
  let ?s = "rgoto h WRetry (s \<lparr> revent := (revent s)(h := False) \<rparr>)"
  have "rw_step hostile s ?s" using w by (intro write_woken) simp_all
  moreover obtain s' where s': "rw_step hostile ?s s'" "rw_owner (lk s') = h"
    using step_writer_take [of ?s h hostile] assms(2,3) by auto
  ultimately have "(rw_step hostile)\<^sup>*\<^sup>* s s'" by auto
  then show ?thesis using s'(2) by blast
qed

lemma steps_writer:
  assumes inv: "rw_inv s" and free: "rw_owner (lk s) = 0" "reader_count (lk s) = 0" "reader_queue (lk s) = []"
    and q: "writer_queue (lk s) = h # qs"
  shows "\<exists>s'. (rw_step hostile)\<^sup>*\<^sup>* s s' \<and> rw_owner (lk s') = h"
proof -
  have pc: "rpc s h = WWaiting \<or> rpc s h = WRetry" using inv q by (auto simp: rw_inv_def rwq_inv_def)
  have "rpc s h = WRetry \<or> writer_woken s h"
    using inv free q by (simp add: rw_inv_def writer_wake_inv_def)
  then consider (now) "rpc s h = WRetry \<or> rpc s h = WWaiting \<and> revent s h"
    | (sent) u where "rpc s h = WWaiting" "rpc s u = After (WakeFront h)"
    using pc by (auto simp: writer_woken_def)
  then show ?thesis
  proof cases
    case now
    then show ?thesis using steps_writer_event free by blast
  next
    case sent
    let ?s = "rgoto u RwIdle (s \<lparr> revent := (revent s)(h := True) \<rparr>)"
    have uh: "u \<noteq> h" using sent by auto
    have "rw_step hostile s ?s" using sent(2) q by (intro follow_front) simp_all
    moreover obtain s' where s': "(rw_step hostile)\<^sup>*\<^sup>* ?s s'" "rw_owner (lk s') = h"
      using steps_writer_event [of ?s h hostile] sent free uh by auto
    ultimately have "(rw_step hostile)\<^sup>*\<^sup>* s s'" by (meson converse_rtranclp_into_rtranclp)
    then show ?thesis using s'(2) by blast
  qed
qed


section \<open>Properties\<close>



text \<open>A run: thread 1 reads, thread 3 queues up to write, and threads 1 and 2 unlock one after the other.\<close>

definition demo_rw :: "u32 \<Rightarrow> tid \<Rightarrow> tid list \<Rightarrow> (tid \<Rightarrow> rwpc) \<Rightarrow> (tid \<Rightarrow> bool) \<Rightarrow> tid multiset \<Rightarrow> bool \<Rightarrow> rwsync" where
  "demo_rw c ow wq p ev rs d =
     \<lparr> lk = \<lparr> reader_count = c, writer_waiting = 0, rw_owner = ow, reader_queue = [], writer_queue = wq \<rparr>,
       rpc = p, revent = ev, readers = rs, dangling = d \<rparr>"

abbreviation idle :: "tid \<Rightarrow> rwpc" where
  "idle \<equiv> \<lambda>_. RwIdle"

lemma demo_rw_sel [simp]:
  "rpc (demo_rw c ow wq p ev rs d) = p" "revent (demo_rw c ow wq p ev rs d) = ev"
  "readers (demo_rw c ow wq p ev rs d) = rs" "dangling (demo_rw c ow wq p ev rs d) = d"
  "reader_count (lk (demo_rw c ow wq p ev rs d)) = c" "rw_owner (lk (demo_rw c ow wq p ev rs d)) = ow"
  "writer_queue (lk (demo_rw c ow wq p ev rs d)) = wq" "reader_queue (lk (demo_rw c ow wq p ev rs d)) = []"
  by (simp_all add: demo_rw_def)

lemma reach_demo_rw1:
  "reach rw_init (rw_step hostile) (demo_rw 1 0 [] idle (\<lambda>_. False) {#1#} False)"
proof -
  let ?s0 = "demo_rw 0 0 [] idle (\<lambda>_. False) {#} False"
  have "reach rw_init (rw_step hostile) ?s0"
    by (rule reach_init) (simp add: rw_init_def demo_rw_def rwlock_new_def)
  moreover have "rw_step hostile ?s0 (demo_rw 1 0 [] idle (\<lambda>_. False) {#1#} False)"
    using try_read_ok [of 1 ?s0 _ hostile] by (simp add: demo_rw_def try_read_def)
  ultimately show ?thesis by (rule reach_step)
qed

lemma reach_demo_rw2:
  "reach rw_init (rw_step hostile) (demo_rw 0 0 [3] (idle(3 := WWaiting, 1 := After (WakeFront 3))) (\<lambda>_. False) {#} False)"
proof -
  let ?s1 = "demo_rw 1 0 [] idle (\<lambda>_. False) {#1#} False"
  let ?s2 = "demo_rw 1 0 [3] (idle(3 := WWaiting)) (\<lambda>_. False) {#1#} False"
  have "rw_step hostile ?s1 ?s2"
    using write_wait [of 3 ?s1 _ hostile] by (simp add: demo_rw_def write_enter_def rgoto_def)
  moreover have "rw_step hostile ?s2 (demo_rw 0 0 [3] (idle(3 := WWaiting, 1 := After (WakeFront 3))) (\<lambda>_. False) {#} False)"
    using read_unlock_ok [of 1 ?s2 _ _ hostile]
    by (simp add: demo_rw_def read_unlock_def rgoto_def wake_front_def after_def)
  ultimately show ?thesis
    using reach_step [OF reach_step [OF reach_demo_rw1]] by blast
qed





text \<open>
  C32.  A defect of the reader count: it is 32 bits wide and nothing stops it from wrapping.  After
  \<open>2 ^ 32\<close> successful \<open>try_read\<close> calls (guards can be leaked in safe code) the lock looks free and a
  writer is let in beside all the readers.
\<close>

theorem reader_count_wraps:
  "let l = ((\<lambda>l. fst (try_read l)) ^^ (2 ^ 32)) rwlock_new
   in snd (try_read (((\<lambda>l. fst (try_read l)) ^^ n) rwlock_new)) = Inr ()
      \<and> reader_count l = 0 \<and> try_write t l = (l \<lparr> rw_owner := t \<rparr>, Inr ())"
proof -
  have iter: "((\<lambda>l. fst (try_read l)) ^^ k) rwlock_new = rwlock_new \<lparr> reader_count := of_nat k \<rparr>" for k
    by (induction k) (simp_all add: try_read_def rwlock_new_def add.commute)
  have zero: "(of_nat (2 ^ 32) :: u32) = 0"
    by (simp add: word_unat_eq_iff unat_of_nat)
  show ?thesis
    unfolding Let_def iter zero by (simp add: try_read_def try_write_def rwlock_new_def)
qed

end
