(* ===== verification/Tcrypto_Handle.thy ===== *)
theory Tcrypto_Handle
  imports Tcrypto
begin

text \<open>
  \<open>sgx_tcrypto\<close> (crypto.rs), the stateful part: SHA-256, AES-CMAC and the P-256 curve behind the handle
  types \<open>SgxShaHandle\<close>, \<open>SgxCmacHandle\<close> and \<open>SgxEccHandle\<close>.  A handle owns a context of the C
  library.  The C functions are fields of the environment over a state \<open>'c\<close>, the memory of the C
  library; a context is addressed by a 64-bit pointer.  Methods take and return the pair of the
  handle and that state.
\<close>

section \<open>C functions\<close>

record 'c thandle_ext = tcrypto_ext +
  sgx_sha256_msg :: "bytes \<Rightarrow> u32 \<Rightarrow> sgx_status_t \<times> bytes"
  sgx_sha256_init :: "u64 \<Rightarrow> 'c \<Rightarrow> sgx_status_t \<times> u64 \<times> 'c"
  sgx_sha256_update :: "bytes \<Rightarrow> u32 \<Rightarrow> u64 \<Rightarrow> 'c \<Rightarrow> sgx_status_t \<times> 'c"
  sgx_sha256_get_hash :: "u64 \<Rightarrow> 'c \<Rightarrow> sgx_status_t \<times> bytes \<times> 'c"
  sgx_sha256_close :: "u64 \<Rightarrow> 'c \<Rightarrow> sgx_status_t \<times> 'c"
  sgx_cmac128_init :: "bytes \<Rightarrow> u64 \<Rightarrow> 'c \<Rightarrow> sgx_status_t \<times> u64 \<times> 'c"
  sgx_cmac128_update :: "bytes \<Rightarrow> u32 \<Rightarrow> u64 \<Rightarrow> 'c \<Rightarrow> sgx_status_t \<times> 'c"
  sgx_cmac128_final :: "u64 \<Rightarrow> 'c \<Rightarrow> sgx_status_t \<times> bytes \<times> 'c"
  sgx_cmac128_close :: "u64 \<Rightarrow> 'c \<Rightarrow> sgx_status_t \<times> 'c"
  sgx_aes_ctr_encrypt :: "bytes \<Rightarrow> bytes \<Rightarrow> u32 \<Rightarrow> bytes \<Rightarrow> u32 \<Rightarrow> sgx_status_t \<times> bytes \<times> bytes"
  sgx_aes_ctr_decrypt :: "bytes \<Rightarrow> bytes \<Rightarrow> u32 \<Rightarrow> bytes \<Rightarrow> u32 \<Rightarrow> sgx_status_t \<times> bytes \<times> bytes"
  sgx_ecc256_open_context :: "u64 \<Rightarrow> 'c \<Rightarrow> sgx_status_t \<times> u64 \<times> 'c"
  sgx_ecc256_close_context :: "u64 \<Rightarrow> 'c \<Rightarrow> sgx_status_t \<times> 'c"
  sgx_ecc256_create_key_pair :: "u64 \<Rightarrow> 'c \<Rightarrow> sgx_status_t \<times> bytes \<times> bytes \<times> 'c"
  sgx_ecc256_check_point :: "bytes \<Rightarrow> u64 \<Rightarrow> 'c \<Rightarrow> sgx_status_t \<times> int \<times> 'c"
  sgx_ecc256_compute_shared_dhkey :: "bytes \<Rightarrow> bytes \<Rightarrow> u64 \<Rightarrow> 'c \<Rightarrow> sgx_status_t \<times> bytes \<times> 'c"
  sgx_ecdsa_sign :: "bytes \<Rightarrow> u32 \<Rightarrow> bytes \<Rightarrow> u64 \<Rightarrow> 'c \<Rightarrow> sgx_status_t \<times> bytes \<times> 'c"
  sgx_ecdsa_verify :: "bytes \<Rightarrow> u32 \<Rightarrow> bytes \<Rightarrow> bytes \<Rightarrow> u64 \<Rightarrow> 'c \<Rightarrow> sgx_status_t \<times> u8 \<times> 'c"
  sgx_ecdsa_verify_hash :: "bytes \<Rightarrow> bytes \<Rightarrow> bytes \<Rightarrow> u64 \<Rightarrow> 'c \<Rightarrow> sgx_status_t \<times> u8 \<times> 'c"

text \<open>
  The three handle types have the same two fields.  A field is a \<open>Cell\<close> or a \<open>RefCell\<close> that no
  method borrows across a call, so borrowing never fails.
\<close>

record crypto_handle =
  handle :: u64
  initflag :: bool

type_synonym SgxShaHandle = crypto_handle
type_synonym SgxCmacHandle = crypto_handle
type_synonym SgxEccHandle = crypto_handle

section \<open>Threading the state\<close>

text \<open>
  \<open>rtry m f\<close> is \<open>let x = m?; f(x)\<close>; \<open>rmap_err\<close> is \<open>map_err\<close> on the result of a call that changes
  the state.  \<open>scoped\<close> is a block with a local variable whose destructor runs at every exit, and
  \<open>outer\<close> is a call inside it that does not use the variable.
\<close>

type_synonym ('s, 'a) stateful = "'s \<Rightarrow> 'a SgxResult \<times> 's"

definition rtry :: "('s, 'a) stateful \<Rightarrow> ('a \<Rightarrow> ('s, 'b) stateful) \<Rightarrow> ('s, 'b) stateful" where
  "rtry m f s = (case m s of (Inl e, t) \<Rightarrow> (Inl e, t) | (Inr a, t) \<Rightarrow> f a t)"

definition rreturn :: "'a SgxResult \<Rightarrow> ('s, 'a) stateful" where
  "rreturn r s = (r, s)"

definition scoped :: "'h \<Rightarrow> ('h \<times> 'c \<Rightarrow> 'h \<times> 'c) \<Rightarrow> ('h \<times> 'c, 'a) stateful \<Rightarrow> ('c, 'a) stateful" where
  "scoped new dtor body c = (case body (new, c) of (r, s) \<Rightarrow> (r, snd (dtor s)))"

definition outer :: "('c, 'a) stateful \<Rightarrow> ('h \<times> 'c, 'a) stateful" where
  "outer m s = (case m (snd s) of (r, c) \<Rightarrow> (r, fst s, c))"

lemma rtry_Inr_iff: "rtry m f s = (Inr b, t) \<longleftrightarrow> (\<exists>a u. m s = (Inr a, u) \<and> f a u = (Inr b, t))"
  by (auto simp: rtry_def split: prod.split sum.split)

lemma rtry_step: "m s = (Inr a, t) \<Longrightarrow> rtry m f s = f a t"
  by (simp add: rtry_def)

lemma rtry_stop: "m s = (Inl e, t) \<Longrightarrow> rtry m f s = (Inl e, t)"
  by (simp add: rtry_def)

lemma ret_simp [simp]: "rreturn r s = (r, s)"
  by (simp add: rreturn_def)

lemma scoped_Inr_iff:
  "scoped new dtor body c = (Inr a, c') \<longleftrightarrow> (\<exists>s. body (new, c) = (Inr a, s) \<and> c' = snd (dtor s))"
  by (auto simp: scoped_def split: prod.split)

lemma fst_scoped: "fst (scoped new dtor body c) = fst (body (new, c))"
  by (simp add: scoped_def split: prod.split)

lemma outer_Inr_iff: "outer m s = (Inr a, t) \<longleftrightarrow> (\<exists>c. m (snd s) = (Inr a, c) \<and> t = (fst s, c))"
  by (auto simp: outer_def split: prod.split)

section \<open>SHA-256\<close>

definition rsgx_sha256_msg :: "('c, 'z) thandle_ext_scheme \<Rightarrow> bytes \<Rightarrow> bytes SgxResult" where
  "rsgx_sha256_msg env src =
     (let sz = length src in
      if sz = 0 then Inl SGX_ERROR_INVALID_PARAMETER
      else if sz > MAX32 then Inl SGX_ERROR_INVALID_PARAMETER
      else case sgx_sha256_msg env src (of_nat sz) of (ret, hash) \<Rightarrow> sgx_result ret hash)"

definition rsgx_sha256_slice :: "('c, 'z) thandle_ext_scheme \<Rightarrow> bytes \<Rightarrow> bytes SgxResult" where
  "rsgx_sha256_slice env src =
     (let sz = length src in
      if sz = 0 then Inl SGX_ERROR_INVALID_PARAMETER
      else if sz > MAX32 then Inl SGX_ERROR_INVALID_PARAMETER
      else case sgx_sha256_msg env src (of_nat sz) of (ret, hash) \<Rightarrow> sgx_result ret hash)"

definition rsgx_sha256_init :: "('c, 'z) thandle_ext_scheme \<Rightarrow> u64 \<Rightarrow> 'c \<Rightarrow> sgx_status_t \<times> u64 \<times> 'c" where
  "rsgx_sha256_init env sha_handle c = sgx_sha256_init env sha_handle c"

definition rsgx_sha256_update_msg :: "('c, 'z) thandle_ext_scheme \<Rightarrow> bytes \<Rightarrow> u64 \<Rightarrow> 'c \<Rightarrow> sgx_status_t \<times> 'c" where
  "rsgx_sha256_update_msg env src sha_handle c =
     (let sz = length src in
      if sz = 0 then (SGX_ERROR_INVALID_PARAMETER, c)
      else if sz > MAX32 then (SGX_ERROR_INVALID_PARAMETER, c)
      else sgx_sha256_update env src (of_nat sz) sha_handle c)"

definition rsgx_sha256_update_slice :: "('c, 'z) thandle_ext_scheme \<Rightarrow> bytes \<Rightarrow> u64 \<Rightarrow> 'c \<Rightarrow> sgx_status_t \<times> 'c" where
  "rsgx_sha256_update_slice env src sha_handle c =
     (let sz = length src in
      if sz = 0 then (SGX_ERROR_INVALID_PARAMETER, c)
      else if sz > MAX32 then (SGX_ERROR_INVALID_PARAMETER, c)
      else sgx_sha256_update env src (of_nat sz) sha_handle c)"

definition rsgx_sha256_get_hash :: "('c, 'z) thandle_ext_scheme \<Rightarrow> u64 \<Rightarrow> 'c \<Rightarrow> sgx_status_t \<times> bytes \<times> 'c" where
  "rsgx_sha256_get_hash env sha_handle c = sgx_sha256_get_hash env sha_handle c"

definition rsgx_sha256_close :: "('c, 'z) thandle_ext_scheme \<Rightarrow> u64 \<Rightarrow> 'c \<Rightarrow> sgx_status_t \<times> 'c" where
  "rsgx_sha256_close env sha_handle c = sgx_sha256_close env sha_handle c"

definition SgxShaHandle_new :: SgxShaHandle where
  "SgxShaHandle_new = \<lparr> handle = 0, initflag = False \<rparr>"

definition SgxShaHandle_init :: "('c, 'z) thandle_ext_scheme \<Rightarrow> (SgxShaHandle \<times> 'c, unit) stateful" where
  "SgxShaHandle_init env = (\<lambda>(self, c).
     if initflag self then (Inr (), self, c)
     else case rsgx_sha256_init env (handle self) c of (ret, p, c') \<Rightarrow>
       if ret = SGX_SUCCESS then (Inr (), \<lparr> handle = p, initflag = True \<rparr>, c')
       else (Inl ret, self \<lparr> handle := p \<rparr>, c'))"

definition SgxShaHandle_update_msg :: "('c, 'z) thandle_ext_scheme \<Rightarrow> bytes \<Rightarrow> (SgxShaHandle \<times> 'c, unit) stateful" where
  "SgxShaHandle_update_msg env src = (\<lambda>(self, c).
     if \<not> initflag self then (Inl SGX_ERROR_INVALID_STATE, self, c)
     else case rsgx_sha256_update_msg env src (handle self) c of (ret, c') \<Rightarrow>
       (sgx_result ret (), self, c'))"

definition SgxShaHandle_update_slice :: "('c, 'z) thandle_ext_scheme \<Rightarrow> bytes \<Rightarrow> (SgxShaHandle \<times> 'c, unit) stateful" where
  "SgxShaHandle_update_slice env src = (\<lambda>(self, c).
     if \<not> initflag self then (Inl SGX_ERROR_INVALID_STATE, self, c)
     else case rsgx_sha256_update_slice env src (handle self) c of (ret, c') \<Rightarrow>
       (sgx_result ret (), self, c'))"

definition SgxShaHandle_get_hash :: "('c, 'z) thandle_ext_scheme \<Rightarrow> (SgxShaHandle \<times> 'c, bytes) stateful" where
  "SgxShaHandle_get_hash env = (\<lambda>(self, c).
     if \<not> initflag self then (Inl SGX_ERROR_INVALID_STATE, self, c)
     else case rsgx_sha256_get_hash env (handle self) c of (ret, hash, c') \<Rightarrow>
       (sgx_result ret hash, self, c'))"

definition SgxShaHandle_close :: "('c, 'z) thandle_ext_scheme \<Rightarrow> (SgxShaHandle \<times> 'c, unit) stateful" where
  "SgxShaHandle_close env = (\<lambda>(self, c).
     if \<not> initflag self then (Inr (), self, c)
     else
       let (ret, c') = (if handle self = 0 then (SGX_SUCCESS, c) else rsgx_sha256_close env (handle self) c) in
       if ret = SGX_SUCCESS then (Inr (), \<lparr> handle = 0, initflag = False \<rparr>, c')
       else (Inl ret, self, c'))"

definition SgxShaHandle_drop :: "('c, 'z) thandle_ext_scheme \<Rightarrow> SgxShaHandle \<times> 'c \<Rightarrow> SgxShaHandle \<times> 'c" where
  "SgxShaHandle_drop env s = snd (SgxShaHandle_close env s)"

section \<open>AES-CMAC\<close>

definition rsgx_rijndael128_align_cmac_msg :: "'z tcrypto_ext_scheme \<Rightarrow> bytes \<Rightarrow> bytes \<Rightarrow> bytes SgxResult" where
  "rsgx_rijndael128_align_cmac_msg env key src =
     (let sz = length src in
      if sz = 0 then Inl SGX_ERROR_INVALID_PARAMETER
      else if sz > MAX32 then Inl SGX_ERROR_INVALID_PARAMETER
      else case sgx_rijndael128_cmac_msg env key src (of_nat sz) of (ret, mac) \<Rightarrow> sgx_result ret mac)"

definition rsgx_cmac128_init :: "('c, 'z) thandle_ext_scheme \<Rightarrow> bytes \<Rightarrow> u64 \<Rightarrow> 'c \<Rightarrow> sgx_status_t \<times> u64 \<times> 'c" where
  "rsgx_cmac128_init env key cmac_handle c = sgx_cmac128_init env key cmac_handle c"

definition rsgx_cmac128_update_msg :: "('c, 'z) thandle_ext_scheme \<Rightarrow> bytes \<Rightarrow> u64 \<Rightarrow> 'c \<Rightarrow> sgx_status_t \<times> 'c" where
  "rsgx_cmac128_update_msg env src cmac_handle c =
     (let sz = length src in
      if sz = 0 then (SGX_ERROR_INVALID_PARAMETER, c)
      else if sz > MAX32 then (SGX_ERROR_INVALID_PARAMETER, c)
      else sgx_cmac128_update env src (of_nat sz) cmac_handle c)"

definition rsgx_cmac128_update_slice :: "('c, 'z) thandle_ext_scheme \<Rightarrow> bytes \<Rightarrow> u64 \<Rightarrow> 'c \<Rightarrow> sgx_status_t \<times> 'c" where
  "rsgx_cmac128_update_slice env src cmac_handle c =
     (let sz = length src in
      if sz = 0 then (SGX_ERROR_INVALID_PARAMETER, c)
      else if sz > MAX32 then (SGX_ERROR_INVALID_PARAMETER, c)
      else sgx_cmac128_update env src (of_nat sz) cmac_handle c)"

definition rsgx_cmac128_final :: "('c, 'z) thandle_ext_scheme \<Rightarrow> u64 \<Rightarrow> 'c \<Rightarrow> sgx_status_t \<times> bytes \<times> 'c" where
  "rsgx_cmac128_final env cmac_handle c = sgx_cmac128_final env cmac_handle c"

definition rsgx_cmac128_close :: "('c, 'z) thandle_ext_scheme \<Rightarrow> u64 \<Rightarrow> 'c \<Rightarrow> sgx_status_t \<times> 'c" where
  "rsgx_cmac128_close env cmac_handle c = sgx_cmac128_close env cmac_handle c"

definition SgxCmacHandle_new :: SgxCmacHandle where
  "SgxCmacHandle_new = \<lparr> handle = 0, initflag = False \<rparr>"

definition SgxCmacHandle_init :: "('c, 'z) thandle_ext_scheme \<Rightarrow> bytes \<Rightarrow> (SgxCmacHandle \<times> 'c, unit) stateful" where
  "SgxCmacHandle_init env key = (\<lambda>(self, c).
     if initflag self then (Inr (), self, c)
     else case rsgx_cmac128_init env key (handle self) c of (ret, p, c') \<Rightarrow>
       if ret = SGX_SUCCESS then (Inr (), \<lparr> handle = p, initflag = True \<rparr>, c')
       else (Inl ret, self \<lparr> handle := p \<rparr>, c'))"

definition SgxCmacHandle_update_msg :: "('c, 'z) thandle_ext_scheme \<Rightarrow> bytes \<Rightarrow> (SgxCmacHandle \<times> 'c, unit) stateful" where
  "SgxCmacHandle_update_msg env src = (\<lambda>(self, c).
     if \<not> initflag self then (Inl SGX_ERROR_INVALID_STATE, self, c)
     else case rsgx_cmac128_update_msg env src (handle self) c of (ret, c') \<Rightarrow>
       (sgx_result ret (), self, c'))"

definition SgxCmacHandle_update_slice :: "('c, 'z) thandle_ext_scheme \<Rightarrow> bytes \<Rightarrow> (SgxCmacHandle \<times> 'c, unit) stateful" where
  "SgxCmacHandle_update_slice env src = (\<lambda>(self, c).
     if \<not> initflag self then (Inl SGX_ERROR_INVALID_STATE, self, c)
     else case rsgx_cmac128_update_slice env src (handle self) c of (ret, c') \<Rightarrow>
       (sgx_result ret (), self, c'))"

definition SgxCmacHandle_get_hash :: "('c, 'z) thandle_ext_scheme \<Rightarrow> (SgxCmacHandle \<times> 'c, bytes) stateful" where
  "SgxCmacHandle_get_hash env = (\<lambda>(self, c).
     if \<not> initflag self then (Inl SGX_ERROR_INVALID_STATE, self, c)
     else case rsgx_cmac128_final env (handle self) c of (ret, hash, c') \<Rightarrow>
       (sgx_result ret hash, self, c'))"

definition SgxCmacHandle_get_align_hash :: "('c, 'z) thandle_ext_scheme \<Rightarrow> (SgxCmacHandle \<times> 'c, bytes) stateful" where
  "SgxCmacHandle_get_align_hash env = (\<lambda>(self, c).
     if \<not> initflag self then (Inl SGX_ERROR_INVALID_STATE, self, c)
     else case rsgx_cmac128_final env (handle self) c of (ret, hash, c') \<Rightarrow>
       (sgx_result ret hash, self, c'))"

definition SgxCmacHandle_close :: "('c, 'z) thandle_ext_scheme \<Rightarrow> (SgxCmacHandle \<times> 'c, unit) stateful" where
  "SgxCmacHandle_close env = (\<lambda>(self, c).
     if \<not> initflag self then (Inr (), self, c)
     else
       let (ret, c') = (if handle self = 0 then (SGX_SUCCESS, c) else rsgx_cmac128_close env (handle self) c) in
       if ret = SGX_SUCCESS then (Inr (), \<lparr> handle = 0, initflag = False \<rparr>, c')
       else (Inl ret, self, c'))"

definition SgxCmacHandle_drop :: "('c, 'z) thandle_ext_scheme \<Rightarrow> SgxCmacHandle \<times> 'c \<Rightarrow> SgxCmacHandle \<times> 'c" where
  "SgxCmacHandle_drop env s = snd (SgxCmacHandle_close env s)"

section \<open>AES-CTR\<close>

text \<open>Both functions return the status together with the final contents of \<open>ctr\<close> and \<open>dst\<close>.\<close>

definition rsgx_aes_ctr_encrypt ::
  "('c, 'z) thandle_ext_scheme \<Rightarrow> bytes \<Rightarrow> bytes \<Rightarrow> bytes \<Rightarrow> u32 \<Rightarrow> bytes \<Rightarrow> SgxError \<times> bytes \<times> bytes" where
  "rsgx_aes_ctr_encrypt env key src ctr ctr_inc_bits dst =
     (let src_len = length src in
      if src_len > MAX32 then (Inl SGX_ERROR_INVALID_PARAMETER, ctr, dst)
      else if src_len < 1 then (Inl SGX_ERROR_INVALID_PARAMETER, ctr, dst)
      else
        let dst_len = length dst in
        if dst_len > MAX32 then (Inl SGX_ERROR_INVALID_PARAMETER, ctr, dst)
        else if dst_len < src_len then (Inl SGX_ERROR_INVALID_PARAMETER, ctr, dst)
        else case sgx_aes_ctr_encrypt env key src (of_nat src_len) ctr ctr_inc_bits of (ret, ctr', out) \<Rightarrow>
          (sgx_result ret (), ctr', write_at 0 out dst))"

definition rsgx_aes_ctr_decrypt ::
  "('c, 'z) thandle_ext_scheme \<Rightarrow> bytes \<Rightarrow> bytes \<Rightarrow> bytes \<Rightarrow> u32 \<Rightarrow> bytes \<Rightarrow> SgxError \<times> bytes \<times> bytes" where
  "rsgx_aes_ctr_decrypt env key src ctr ctr_inc_bits dst =
     (let src_len = length src in
      if src_len > MAX32 then (Inl SGX_ERROR_INVALID_PARAMETER, ctr, dst)
      else if src_len < 1 then (Inl SGX_ERROR_INVALID_PARAMETER, ctr, dst)
      else
        let dst_len = length dst in
        if dst_len > MAX32 then (Inl SGX_ERROR_INVALID_PARAMETER, ctr, dst)
        else if dst_len < src_len then (Inl SGX_ERROR_INVALID_PARAMETER, ctr, dst)
        else case sgx_aes_ctr_decrypt env key src (of_nat (length src)) ctr ctr_inc_bits of (ret, ctr', out) \<Rightarrow>
          (sgx_result ret (), ctr', write_at 0 out dst))"

section \<open>P-256\<close>

text \<open>
  Keys, shared secrets and signatures are the byte images of their structs, which only C reads.
\<close>

datatype sgx_generic_ecresult_t =
  SGX_EC_VALID | SGX_EC_COMPOSITE_BASE | SGX_EC_COMPLICATED_BASE | SGX_EC_IS_ZERO_DISCRIMINANT
| SGX_EC_COMPOSITE_ORDER | SGX_EC_INVALID_ORDER | SGX_EC_IS_WEAK_MOV | SGX_EC_IS_WEAK_SSA
| SGX_EC_IS_SUPER_SINGULAR | SGX_EC_INVALID_PRIVATE_KEY | SGX_EC_INVALID_PUBLIC_KEY
| SGX_EC_INVALID_KEY_PAIR | SGX_EC_POINT_OUT_OF_GROUP | SGX_EC_POINT_IS_AT_INFINITY
| SGX_EC_POINT_IS_NOT_VALID | SGX_EC_POINT_IS_EQUAL | SGX_EC_POINT_IS_NOT_EQUAL
| SGX_EC_INVALID_SIGNATURE

definition ecresult_from_repr :: "u32 \<Rightarrow> sgx_generic_ecresult_t option" where
  "ecresult_from_repr v = map_of
     [(0, SGX_EC_VALID), (1, SGX_EC_COMPOSITE_BASE), (2, SGX_EC_COMPLICATED_BASE),
      (3, SGX_EC_IS_ZERO_DISCRIMINANT), (4, SGX_EC_COMPOSITE_ORDER), (5, SGX_EC_INVALID_ORDER),
      (6, SGX_EC_IS_WEAK_MOV), (7, SGX_EC_IS_WEAK_SSA), (8, SGX_EC_IS_SUPER_SINGULAR),
      (9, SGX_EC_INVALID_PRIVATE_KEY), (0xA, SGX_EC_INVALID_PUBLIC_KEY), (0xB, SGX_EC_INVALID_KEY_PAIR),
      (0xC, SGX_EC_POINT_OUT_OF_GROUP), (0xD, SGX_EC_POINT_IS_AT_INFINITY),
      (0xE, SGX_EC_POINT_IS_NOT_VALID), (0xF, SGX_EC_POINT_IS_EQUAL),
      (0x10, SGX_EC_POINT_IS_NOT_EQUAL), (0x11, SGX_EC_INVALID_SIGNATURE)] v"

definition rsgx_ecc256_open_context :: "('c, 'z) thandle_ext_scheme \<Rightarrow> u64 \<Rightarrow> 'c \<Rightarrow> sgx_status_t \<times> u64 \<times> 'c" where
  "rsgx_ecc256_open_context env ecc_handle c = sgx_ecc256_open_context env ecc_handle c"

definition rsgx_ecc256_close_context :: "('c, 'z) thandle_ext_scheme \<Rightarrow> u64 \<Rightarrow> 'c \<Rightarrow> sgx_status_t \<times> 'c" where
  "rsgx_ecc256_close_context env ecc_handle c = sgx_ecc256_close_context env ecc_handle c"

definition rsgx_ecc256_create_key_pair ::
  "('c, 'z) thandle_ext_scheme \<Rightarrow> u64 \<Rightarrow> 'c \<Rightarrow> sgx_status_t \<times> bytes \<times> bytes \<times> 'c" where
  "rsgx_ecc256_create_key_pair env ecc_handle c = sgx_ecc256_create_key_pair env ecc_handle c"

definition rsgx_ecc256_check_point ::
  "('c, 'z) thandle_ext_scheme \<Rightarrow> bytes \<Rightarrow> u64 \<Rightarrow> 'c \<Rightarrow> sgx_status_t \<times> int \<times> 'c" where
  "rsgx_ecc256_check_point env point ecc_handle c = sgx_ecc256_check_point env point ecc_handle c"

definition rsgx_ecc256_compute_shared_dhkey ::
  "('c, 'z) thandle_ext_scheme \<Rightarrow> bytes \<Rightarrow> bytes \<Rightarrow> u64 \<Rightarrow> 'c \<Rightarrow> sgx_status_t \<times> bytes \<times> 'c" where
  "rsgx_ecc256_compute_shared_dhkey env private_b public_ga ecc_handle c =
     sgx_ecc256_compute_shared_dhkey env private_b public_ga ecc_handle c"

text \<open>An out-parameter that an early return leaves alone is passed in and returned.\<close>

definition rsgx_ecdsa_sign_msg ::
  "('c, 'z) thandle_ext_scheme \<Rightarrow> bytes \<Rightarrow> bytes \<Rightarrow> bytes \<Rightarrow> u64 \<Rightarrow> 'c \<Rightarrow> sgx_status_t \<times> bytes \<times> 'c" where
  "rsgx_ecdsa_sign_msg env data private signature ecc_handle c =
     (let sz = length data in
      if sz = 0 then (SGX_ERROR_INVALID_PARAMETER, signature, c)
      else if sz > MAX32 then (SGX_ERROR_INVALID_PARAMETER, signature, c)
      else sgx_ecdsa_sign env data (of_nat sz) private ecc_handle c)"

definition rsgx_ecdsa_sign_slice ::
  "('c, 'z) thandle_ext_scheme \<Rightarrow> bytes \<Rightarrow> bytes \<Rightarrow> bytes \<Rightarrow> u64 \<Rightarrow> 'c \<Rightarrow> sgx_status_t \<times> bytes \<times> 'c" where
  "rsgx_ecdsa_sign_slice env data private signature ecc_handle c =
     (let sz = length data in
      if sz = 0 then (SGX_ERROR_INVALID_PARAMETER, signature, c)
      else if sz > MAX32 then (SGX_ERROR_INVALID_PARAMETER, signature, c)
      else sgx_ecdsa_sign env data (of_nat sz) private ecc_handle c)"

definition rsgx_ecdsa_verify_msg ::
  "('c, 'z) thandle_ext_scheme \<Rightarrow> bytes \<Rightarrow> bytes \<Rightarrow> bytes \<Rightarrow> sgx_generic_ecresult_t \<Rightarrow> u64 \<Rightarrow> 'c
     \<Rightarrow> sgx_status_t \<times> sgx_generic_ecresult_t \<times> 'c" where
  "rsgx_ecdsa_verify_msg env data public signature result ecc_handle c =
     (let sz = length data in
      if sz = 0 then (SGX_ERROR_INVALID_PARAMETER, result, c)
      else if sz > MAX32 then (SGX_ERROR_INVALID_PARAMETER, result, c)
      else case sgx_ecdsa_verify env data (of_nat sz) public signature ecc_handle c of (ret, verify, c') \<Rightarrow>
        let result' = (if ret = SGX_SUCCESS
          then case_option SGX_EC_INVALID_SIGNATURE id (ecresult_from_repr (ucast verify))
          else SGX_EC_INVALID_SIGNATURE)
        in (ret, result', c'))"

definition rsgx_ecdsa_verify_slice ::
  "('c, 'z) thandle_ext_scheme \<Rightarrow> bytes \<Rightarrow> bytes \<Rightarrow> bytes \<Rightarrow> sgx_generic_ecresult_t \<Rightarrow> u64 \<Rightarrow> 'c
     \<Rightarrow> sgx_status_t \<times> sgx_generic_ecresult_t \<times> 'c" where
  "rsgx_ecdsa_verify_slice env data public signature result ecc_handle c =
     (let sz = length data in
      if sz = 0 then (SGX_ERROR_INVALID_PARAMETER, result, c)
      else if sz > MAX32 then (SGX_ERROR_INVALID_PARAMETER, result, c)
      else case sgx_ecdsa_verify env data (of_nat sz) public signature ecc_handle c of (ret, verify, c') \<Rightarrow>
        let result' = (if ret = SGX_SUCCESS
          then case_option SGX_EC_INVALID_SIGNATURE id (ecresult_from_repr (ucast verify))
          else SGX_EC_INVALID_SIGNATURE)
        in (ret, result', c'))"

definition rsgx_ecdsa_verify_hash ::
  "('c, 'z) thandle_ext_scheme \<Rightarrow> bytes \<Rightarrow> bytes \<Rightarrow> bytes \<Rightarrow> u64 \<Rightarrow> 'c
     \<Rightarrow> sgx_status_t \<times> sgx_generic_ecresult_t \<times> 'c" where
  "rsgx_ecdsa_verify_hash env hash public signature ecc_handle c =
     (case sgx_ecdsa_verify_hash env hash public signature ecc_handle c of (ret, verify, c') \<Rightarrow>
        let result' = (if ret = SGX_SUCCESS
          then case_option SGX_EC_INVALID_SIGNATURE id (ecresult_from_repr (ucast verify))
          else SGX_EC_INVALID_SIGNATURE)
        in (ret, result', c'))"

definition SgxEccHandle_new :: SgxEccHandle where
  "SgxEccHandle_new = \<lparr> handle = 0, initflag = False \<rparr>"

definition SgxEccHandle_open :: "('c, 'z) thandle_ext_scheme \<Rightarrow> (SgxEccHandle \<times> 'c, unit) stateful" where
  "SgxEccHandle_open env = (\<lambda>(self, c).
     if initflag self then (Inr (), self, c)
     else case rsgx_ecc256_open_context env (handle self) c of (ret, p, c') \<Rightarrow>
       if ret = SGX_SUCCESS then (Inr (), \<lparr> handle = p, initflag = True \<rparr>, c')
       else (Inl ret, self \<lparr> handle := p \<rparr>, c'))"

definition SgxEccHandle_create_key_pair ::
  "('c, 'z) thandle_ext_scheme \<Rightarrow> (SgxEccHandle \<times> 'c, bytes \<times> bytes) stateful" where
  "SgxEccHandle_create_key_pair env = (\<lambda>(self, c).
     if \<not> initflag self then (Inl SGX_ERROR_INVALID_STATE, self, c)
     else case rsgx_ecc256_create_key_pair env (handle self) c of (ret, private, public, c') \<Rightarrow>
       (sgx_result ret (private, public), self, c'))"

definition SgxEccHandle_create_align_key_pair ::
  "('c, 'z) thandle_ext_scheme \<Rightarrow> (SgxEccHandle \<times> 'c, bytes \<times> bytes) stateful" where
  "SgxEccHandle_create_align_key_pair env = (\<lambda>(self, c).
     if \<not> initflag self then (Inl SGX_ERROR_INVALID_STATE, self, c)
     else case rsgx_ecc256_create_key_pair env (handle self) c of (ret, private, public, c') \<Rightarrow>
       (sgx_result ret (private, public), self, c'))"

definition SgxEccHandle_check_point ::
  "('c, 'z) thandle_ext_scheme \<Rightarrow> bytes \<Rightarrow> (SgxEccHandle \<times> 'c, bool) stateful" where
  "SgxEccHandle_check_point env point = (\<lambda>(self, c).
     if \<not> initflag self then (Inl SGX_ERROR_INVALID_STATE, self, c)
     else case rsgx_ecc256_check_point env point (handle self) c of (ret, valid, c') \<Rightarrow>
       (sgx_result ret (valid > 0), self, c'))"

definition SgxEccHandle_compute_shared_dhkey ::
  "('c, 'z) thandle_ext_scheme \<Rightarrow> bytes \<Rightarrow> bytes \<Rightarrow> (SgxEccHandle \<times> 'c, bytes) stateful" where
  "SgxEccHandle_compute_shared_dhkey env private_b public_ga = (\<lambda>(self, c).
     if \<not> initflag self then (Inl SGX_ERROR_INVALID_STATE, self, c)
     else case rsgx_ecc256_compute_shared_dhkey env private_b public_ga (handle self) c of (ret, shared_key, c') \<Rightarrow>
       (sgx_result ret shared_key, self, c'))"

definition SgxEccHandle_compute_align_shared_dhkey ::
  "('c, 'z) thandle_ext_scheme \<Rightarrow> bytes \<Rightarrow> bytes \<Rightarrow> (SgxEccHandle \<times> 'c, bytes) stateful" where
  "SgxEccHandle_compute_align_shared_dhkey env private_b public_ga = (\<lambda>(self, c).
     if \<not> initflag self then (Inl SGX_ERROR_INVALID_STATE, self, c)
     else case rsgx_ecc256_compute_shared_dhkey env private_b public_ga (handle self) c of (ret, shared_key, c') \<Rightarrow>
       (sgx_result ret shared_key, self, c'))"

definition SgxEccHandle_ecdsa_sign_msg ::
  "('c, 'z) thandle_ext_scheme \<Rightarrow> bytes \<Rightarrow> bytes \<Rightarrow> (SgxEccHandle \<times> 'c, bytes) stateful" where
  "SgxEccHandle_ecdsa_sign_msg env data private = (\<lambda>(self, c).
     if \<not> initflag self then (Inl SGX_ERROR_INVALID_STATE, self, c)
     else case rsgx_ecdsa_sign_msg env data private (replicate 64 0) (handle self) c of (ret, signature, c') \<Rightarrow>
       (sgx_result ret signature, self, c'))"

definition SgxEccHandle_ecdsa_sign_slice ::
  "('c, 'z) thandle_ext_scheme \<Rightarrow> bytes \<Rightarrow> bytes \<Rightarrow> (SgxEccHandle \<times> 'c, bytes) stateful" where
  "SgxEccHandle_ecdsa_sign_slice env data private = (\<lambda>(self, c).
     if \<not> initflag self then (Inl SGX_ERROR_INVALID_STATE, self, c)
     else case rsgx_ecdsa_sign_slice env data private (replicate 64 0) (handle self) c of (ret, signature, c') \<Rightarrow>
       (sgx_result ret signature, self, c'))"

definition SgxEccHandle_ecdsa_verify_msg ::
  "('c, 'z) thandle_ext_scheme \<Rightarrow> bytes \<Rightarrow> bytes \<Rightarrow> bytes \<Rightarrow> (SgxEccHandle \<times> 'c, bool) stateful" where
  "SgxEccHandle_ecdsa_verify_msg env data public signature = (\<lambda>(self, c).
     if \<not> initflag self then (Inl SGX_ERROR_INVALID_STATE, self, c)
     else case rsgx_ecdsa_verify_msg env data public signature SGX_EC_VALID (handle self) c of (ret, result, c') \<Rightarrow>
       (sgx_result ret (result = SGX_EC_VALID), self, c'))"

definition SgxEccHandle_ecdsa_verify_slice ::
  "('c, 'z) thandle_ext_scheme \<Rightarrow> bytes \<Rightarrow> bytes \<Rightarrow> bytes \<Rightarrow> (SgxEccHandle \<times> 'c, bool) stateful" where
  "SgxEccHandle_ecdsa_verify_slice env data public signature = (\<lambda>(self, c).
     if \<not> initflag self then (Inl SGX_ERROR_INVALID_STATE, self, c)
     else case rsgx_ecdsa_verify_slice env data public signature SGX_EC_VALID (handle self) c of (ret, result, c') \<Rightarrow>
       (sgx_result ret (result = SGX_EC_VALID), self, c'))"

definition SgxEccHandle_ecdsa_verify_hash ::
  "('c, 'z) thandle_ext_scheme \<Rightarrow> bytes \<Rightarrow> bytes \<Rightarrow> bytes \<Rightarrow> (SgxEccHandle \<times> 'c, bool) stateful" where
  "SgxEccHandle_ecdsa_verify_hash env hash public signature = (\<lambda>(self, c).
     if \<not> initflag self then (Inl SGX_ERROR_INVALID_STATE, self, c)
     else case rsgx_ecdsa_verify_hash env hash public signature (handle self) c of (ret, result, c') \<Rightarrow>
       (sgx_result ret (result = SGX_EC_VALID), self, c'))"

definition SgxEccHandle_close :: "('c, 'z) thandle_ext_scheme \<Rightarrow> (SgxEccHandle \<times> 'c, unit) stateful" where
  "SgxEccHandle_close env = (\<lambda>(self, c).
     if \<not> initflag self then (Inr (), self, c)
     else
       let (ret, c') = (if handle self = 0 then (SGX_SUCCESS, c) else rsgx_ecc256_close_context env (handle self) c) in
       if ret = SGX_SUCCESS then (Inr (), \<lparr> handle = 0, initflag = False \<rparr>, c')
       else (Inl ret, self, c'))"

definition SgxEccHandle_drop :: "('c, 'z) thandle_ext_scheme \<Rightarrow> SgxEccHandle \<times> 'c \<Rightarrow> SgxEccHandle \<times> 'c" where
  "SgxEccHandle_drop env s = snd (SgxEccHandle_close env s)"

section \<open>The common shape of the handles\<close>

text \<open>
  The methods of the three handle types are instances of three shapes: allocate a context unless the
  handle has one, use the context, and release it.  The lemmas about handles are proved once for
  the shapes.
\<close>

definition h_open :: "(u64 \<Rightarrow> 'c \<Rightarrow> sgx_status_t \<times> u64 \<times> 'c) \<Rightarrow> (crypto_handle \<times> 'c, unit) stateful" where
  "h_open f = (\<lambda>(self, c).
     if initflag self then (Inr (), self, c)
     else case f (handle self) c of (ret, p, c') \<Rightarrow>
       if ret = SGX_SUCCESS then (Inr (), \<lparr> handle = p, initflag = True \<rparr>, c')
       else (Inl ret, self \<lparr> handle := p \<rparr>, c'))"

definition h_use :: "(u64 \<Rightarrow> 'c \<Rightarrow> sgx_status_t \<times> 'a \<times> 'c) \<Rightarrow> (crypto_handle \<times> 'c, 'a) stateful" where
  "h_use f = (\<lambda>(self, c).
     if \<not> initflag self then (Inl SGX_ERROR_INVALID_STATE, self, c)
     else case f (handle self) c of (ret, a, c') \<Rightarrow> (sgx_result ret a, self, c'))"

definition h_close :: "(u64 \<Rightarrow> 'c \<Rightarrow> sgx_status_t \<times> 'c) \<Rightarrow> (crypto_handle \<times> 'c, unit) stateful" where
  "h_close f = (\<lambda>(self, c).
     if \<not> initflag self then (Inr (), self, c)
     else
       let (ret, c') = (if handle self = 0 then (SGX_SUCCESS, c) else f (handle self) c) in
       if ret = SGX_SUCCESS then (Inr (), \<lparr> handle = 0, initflag = False \<rparr>, c')
       else (Inl ret, self, c'))"

definition sized :: "(bytes \<Rightarrow> u32 \<Rightarrow> u64 \<Rightarrow> 'c \<Rightarrow> sgx_status_t \<times> 'c) \<Rightarrow> bytes \<Rightarrow> u64 \<Rightarrow> 'c \<Rightarrow> sgx_status_t \<times> unit \<times> 'c" where
  "sized f d p c =
     (if d = [] \<or> length d > MAX32 then (SGX_ERROR_INVALID_PARAMETER, (), c)
      else case f d (of_nat (length d)) p c of (ret, c') \<Rightarrow> (ret, (), c'))"

lemma sha_handle_shape:
  "SgxShaHandle_init env = h_open (sgx_sha256_init env)"
  "SgxShaHandle_update_msg env d = h_use (sized (sgx_sha256_update env) d)"
  "SgxShaHandle_update_slice env d = h_use (sized (sgx_sha256_update env) d)"
  "SgxShaHandle_get_hash env = h_use (sgx_sha256_get_hash env)"
  "SgxShaHandle_close env = h_close (sgx_sha256_close env)"
  by (simp_all add: fun_eq_iff h_open_def h_use_def h_close_def sized_def SgxShaHandle_init_def
      rsgx_sha256_init_def SgxShaHandle_update_msg_def SgxShaHandle_update_slice_def
      rsgx_sha256_update_msg_def rsgx_sha256_update_slice_def SgxShaHandle_get_hash_def
      rsgx_sha256_get_hash_def SgxShaHandle_close_def rsgx_sha256_close_def Let_def split: prod.split)

lemma cmac_handle_shape:
  "SgxCmacHandle_init env key = h_open (sgx_cmac128_init env key)"
  "SgxCmacHandle_update_msg env d = h_use (sized (sgx_cmac128_update env) d)"
  "SgxCmacHandle_update_slice env d = h_use (sized (sgx_cmac128_update env) d)"
  "SgxCmacHandle_get_hash env = h_use (sgx_cmac128_final env)"
  "SgxCmacHandle_get_align_hash env = h_use (sgx_cmac128_final env)"
  "SgxCmacHandle_close env = h_close (sgx_cmac128_close env)"
  by (simp_all add: fun_eq_iff h_open_def h_use_def h_close_def sized_def SgxCmacHandle_init_def
      rsgx_cmac128_init_def SgxCmacHandle_update_msg_def SgxCmacHandle_update_slice_def
      rsgx_cmac128_update_msg_def rsgx_cmac128_update_slice_def SgxCmacHandle_get_hash_def
      SgxCmacHandle_get_align_hash_def rsgx_cmac128_final_def SgxCmacHandle_close_def
      rsgx_cmac128_close_def Let_def split: prod.split)

lemma ecc_handle_shape:
  "SgxEccHandle_open env = h_open (sgx_ecc256_open_context env)"
  "SgxEccHandle_create_key_pair env =
     h_use (\<lambda>p c. case sgx_ecc256_create_key_pair env p c of (r, a, b, c') \<Rightarrow> (r, (a, b), c'))"
  "SgxEccHandle_create_align_key_pair env =
     h_use (\<lambda>p c. case sgx_ecc256_create_key_pair env p c of (r, a, b, c') \<Rightarrow> (r, (a, b), c'))"
  "SgxEccHandle_check_point env g =
     h_use (\<lambda>p c. case sgx_ecc256_check_point env g p c of (r, v, c') \<Rightarrow> (r, v > 0, c'))"
  "SgxEccHandle_compute_shared_dhkey env k g = h_use (sgx_ecc256_compute_shared_dhkey env k g)"
  "SgxEccHandle_compute_align_shared_dhkey env k g = h_use (sgx_ecc256_compute_shared_dhkey env k g)"
  "SgxEccHandle_ecdsa_sign_msg env d k = h_use (rsgx_ecdsa_sign_msg env d k (replicate 64 0))"
  "SgxEccHandle_ecdsa_sign_slice env d k = h_use (rsgx_ecdsa_sign_slice env d k (replicate 64 0))"
  "SgxEccHandle_ecdsa_verify_msg env d g sg = h_use (\<lambda>p c.
     case rsgx_ecdsa_verify_msg env d g sg SGX_EC_VALID p c of (r, v, c') \<Rightarrow> (r, v = SGX_EC_VALID, c'))"
  "SgxEccHandle_ecdsa_verify_slice env d g sg = h_use (\<lambda>p c.
     case rsgx_ecdsa_verify_slice env d g sg SGX_EC_VALID p c of (r, v, c') \<Rightarrow> (r, v = SGX_EC_VALID, c'))"
  "SgxEccHandle_ecdsa_verify_hash env hs g sg = h_use (\<lambda>p c.
     case rsgx_ecdsa_verify_hash env hs g sg p c of (r, v, c') \<Rightarrow> (r, v = SGX_EC_VALID, c'))"
  "SgxEccHandle_close env = h_close (sgx_ecc256_close_context env)"
  by (simp_all add: fun_eq_iff h_open_def h_use_def h_close_def SgxEccHandle_open_def
      SgxEccHandle_ecdsa_sign_msg_def SgxEccHandle_ecdsa_sign_slice_def SgxEccHandle_ecdsa_verify_msg_def
      SgxEccHandle_ecdsa_verify_slice_def SgxEccHandle_ecdsa_verify_hash_def
      rsgx_ecc256_open_context_def SgxEccHandle_create_key_pair_def
      SgxEccHandle_create_align_key_pair_def rsgx_ecc256_create_key_pair_def
      SgxEccHandle_check_point_def rsgx_ecc256_check_point_def SgxEccHandle_compute_shared_dhkey_def
      SgxEccHandle_compute_align_shared_dhkey_def rsgx_ecc256_compute_shared_dhkey_def
      SgxEccHandle_close_def rsgx_ecc256_close_context_def split: prod.split)

section \<open>Ownership of a context\<close>

text \<open>
  \<open>live c\<close> is the set of contexts the C library has allocated.  The documentation defines the calls
  on live contexts only, and so do the contracts: nothing is known of a call with any other pointer.
\<close>

definition open_spec :: "(u64 \<Rightarrow> 'c \<Rightarrow> sgx_status_t \<times> u64 \<times> 'c) \<Rightarrow> ('c \<Rightarrow> u64 set) \<Rightarrow> bool" where
  "open_spec f live \<longleftrightarrow> (\<forall>p c ret p' c'. f p c = (ret, p', c') \<longrightarrow>
     (if ret = SGX_SUCCESS then p' \<noteq> 0 \<and> p' \<notin> live c \<and> live c' = insert p' (live c) else live c' = live c))"

definition use_spec :: "(u64 \<Rightarrow> 'c \<Rightarrow> sgx_status_t \<times> 'a \<times> 'c) \<Rightarrow> ('c \<Rightarrow> u64 set) \<Rightarrow> bool" where
  "use_spec f live \<longleftrightarrow> (\<forall>p c ret a c'. p \<in> live c \<longrightarrow> f p c = (ret, a, c') \<longrightarrow> live c' = live c)"

definition close_spec :: "(u64 \<Rightarrow> 'c \<Rightarrow> sgx_status_t \<times> 'c) \<Rightarrow> ('c \<Rightarrow> u64 set) \<Rightarrow> bool" where
  "close_spec f live \<longleftrightarrow> (\<forall>p c ret c'. p \<in> live c \<longrightarrow> f p c = (ret, c') \<longrightarrow>
     live c' = (if ret = SGX_SUCCESS then live c - {p} else live c))"

text \<open>A handle owns exactly one context beyond the contexts \<open>L\<close> of others, or none.\<close>

definition owns :: "('c \<Rightarrow> u64 set) \<Rightarrow> u64 set \<Rightarrow> crypto_handle \<times> 'c \<Rightarrow> bool" where
  "owns live L s \<longleftrightarrow>
     (if initflag (fst s) then handle (fst s) \<noteq> 0 \<and> handle (fst s) \<notin> L \<and> live (snd s) = insert (handle (fst s)) L
      else live (snd s) = L)"

lemma h_open_owns: "open_spec f live \<Longrightarrow> owns live L s \<Longrightarrow> owns live L (snd (h_open f s))"
  by (cases s) (auto simp: h_open_def open_spec_def owns_def split: prod.split)

lemma use_specD: "use_spec f live \<Longrightarrow> f p c = (r, a, c') \<Longrightarrow> p \<in> live c \<Longrightarrow> live c' = live c"
  unfolding use_spec_def by blast

lemma close_specD:
  "close_spec f live \<Longrightarrow> f p c = (r, c') \<Longrightarrow> p \<in> live c \<Longrightarrow>
     live c' = (if r = SGX_SUCCESS then live c - {p} else live c)"
  unfolding close_spec_def by blast

lemma h_use_owns:
  assumes "use_spec f live" "owns live L s"
  shows "owns live L (snd (h_use f s))"
proof (cases s)
  case (Pair self c)
  obtain r a c' where f: "f (handle self) c = (r, a, c')" by (metis prod.exhaust)
  show ?thesis
    using assms(2) use_specD [OF assms(1) f] f by (simp add: Pair h_use_def owns_def split: if_splits)
qed

lemma h_close_owns:
  assumes "close_spec f live" "owns live L s"
  shows "owns live L (snd (h_close f s))"
proof (cases s)
  case (Pair self c)
  obtain r c' where f: "f (handle self) c = (r, c')" by force
  show ?thesis
    using assms(2) close_specD [OF assms(1) f] f by (simp add: Pair h_close_def owns_def split: if_splits)
qed

lemma h_close_clears: "h_close f s = (Inr (), t) \<Longrightarrow> \<not> initflag (fst t)"
  by (cases s) (auto simp: h_close_def Let_def split: prod.splits if_splits)

locale context_owner =
  fixes spec :: "'e \<Rightarrow> ('c \<Rightarrow> u64 set) \<Rightarrow> bool"
    and new :: crypto_handle
    and exec :: "'e \<Rightarrow> 'op \<Rightarrow> crypto_handle \<times> 'c \<Rightarrow> crypto_handle \<times> 'c"
    and close :: "'e \<Rightarrow> (crypto_handle \<times> 'c, unit) stateful"
  assumes new_closed: "\<not> initflag new"
    and exec_owns: "spec env live \<Longrightarrow> owns live L s \<Longrightarrow> owns live L (exec env op s)"
    and close_owns: "spec env live \<Longrightarrow> owns live L s \<Longrightarrow> owns live L (snd (close env s))"
    and close_clears: "close env s = (Inr (), t) \<Longrightarrow> \<not> initflag (fst t)"
begin

lemma session_owns: "spec env live \<Longrightarrow> owns live L s \<Longrightarrow> owns live L (fold (exec env) ops s)"
  by (induction ops arbitrary: s) (simp_all add: exec_owns)

lemma session_from_new: "spec env live \<Longrightarrow> owns live (live c) (fold (exec env) ops (new, c))"
  by (rule session_owns) (simp_all add: owns_def new_closed)

lemma session_freed:
  assumes "spec env live" "close env (fold (exec env) ops (new, c)) = (Inr (), t)"
  shows "live (snd t) = live c"
  using close_owns [OF assms(1) session_from_new [OF assms(1), of c ops]] close_clears [OF assms(2)] assms(2)
  by (simp add: owns_def)

end

datatype sha_call = ShaInit | ShaUpdateMsg bytes | ShaUpdateSlice bytes | ShaGetHash | ShaClose

fun sha_exec :: "('c, 'z) thandle_ext_scheme \<Rightarrow> sha_call \<Rightarrow> SgxShaHandle \<times> 'c \<Rightarrow> SgxShaHandle \<times> 'c" where
  "sha_exec env ShaInit s = snd (SgxShaHandle_init env s)"
| "sha_exec env (ShaUpdateMsg d) s = snd (SgxShaHandle_update_msg env d s)"
| "sha_exec env (ShaUpdateSlice d) s = snd (SgxShaHandle_update_slice env d s)"
| "sha_exec env ShaGetHash s = snd (SgxShaHandle_get_hash env s)"
| "sha_exec env ShaClose s = snd (SgxShaHandle_close env s)"

datatype cmac_call = CmacInit bytes | CmacUpdateMsg bytes | CmacUpdateSlice bytes
  | CmacGetHash | CmacGetAlignHash | CmacClose

fun cmac_exec :: "('c, 'z) thandle_ext_scheme \<Rightarrow> cmac_call \<Rightarrow> SgxCmacHandle \<times> 'c \<Rightarrow> SgxCmacHandle \<times> 'c" where
  "cmac_exec env (CmacInit k) s = snd (SgxCmacHandle_init env k s)"
| "cmac_exec env (CmacUpdateMsg d) s = snd (SgxCmacHandle_update_msg env d s)"
| "cmac_exec env (CmacUpdateSlice d) s = snd (SgxCmacHandle_update_slice env d s)"
| "cmac_exec env CmacGetHash s = snd (SgxCmacHandle_get_hash env s)"
| "cmac_exec env CmacGetAlignHash s = snd (SgxCmacHandle_get_align_hash env s)"
| "cmac_exec env CmacClose s = snd (SgxCmacHandle_close env s)"

definition sha_heap_spec :: "('c, 'z) thandle_ext_scheme \<Rightarrow> ('c \<Rightarrow> u64 set) \<Rightarrow> bool" where
  "sha_heap_spec env live \<longleftrightarrow>
     open_spec (sgx_sha256_init env) live \<and>
     (\<forall>d. use_spec (sized (sgx_sha256_update env) d) live) \<and>
     use_spec (sgx_sha256_get_hash env) live \<and>
     close_spec (sgx_sha256_close env) live"

definition cmac_heap_spec :: "('c, 'z) thandle_ext_scheme \<Rightarrow> ('c \<Rightarrow> u64 set) \<Rightarrow> bool" where
  "cmac_heap_spec env live \<longleftrightarrow>
     (\<forall>k. open_spec (sgx_cmac128_init env k) live) \<and>
     (\<forall>d. use_spec (sized (sgx_cmac128_update env) d) live) \<and>
     use_spec (sgx_cmac128_final env) live \<and>
     close_spec (sgx_cmac128_close env) live"

interpretation sha_ctx: context_owner sha_heap_spec SgxShaHandle_new sha_exec SgxShaHandle_close
proof
  fix env :: "('c, 'z) thandle_ext_scheme" and live L s op
  assume "sha_heap_spec env live" "owns live L s"
  then show "owns live L (sha_exec env op s)"
    by (cases op) (simp_all add: sha_handle_shape sha_heap_spec_def h_open_owns h_use_owns h_close_owns)
qed (simp_all add: SgxShaHandle_new_def sha_handle_shape sha_heap_spec_def h_close_owns h_close_clears)

interpretation cmac_ctx: context_owner cmac_heap_spec SgxCmacHandle_new cmac_exec SgxCmacHandle_close
proof
  fix env :: "('c, 'z) thandle_ext_scheme" and live L s op
  assume "cmac_heap_spec env live" "owns live L s"
  then show "owns live L (cmac_exec env op s)"
    by (cases op) (simp_all add: cmac_handle_shape cmac_heap_spec_def h_open_owns h_use_owns h_close_owns)
qed (simp_all add: SgxCmacHandle_new_def cmac_handle_shape cmac_heap_spec_def h_close_owns h_close_clears)

datatype ecc_call = EccOpen | EccCreateKeyPair | EccCheckPoint bytes | EccSharedKey bytes bytes
  | EccSign bytes bytes | EccVerify bytes bytes bytes | EccVerifyHash bytes bytes bytes | EccClose

fun ecc_exec :: "('c, 'z) thandle_ext_scheme \<Rightarrow> ecc_call \<Rightarrow> SgxEccHandle \<times> 'c \<Rightarrow> SgxEccHandle \<times> 'c" where
  "ecc_exec env EccOpen s = snd (SgxEccHandle_open env s)"
| "ecc_exec env EccCreateKeyPair s = snd (SgxEccHandle_create_align_key_pair env s)"
| "ecc_exec env (EccCheckPoint g) s = snd (SgxEccHandle_check_point env g s)"
| "ecc_exec env (EccSharedKey k g) s = snd (SgxEccHandle_compute_align_shared_dhkey env k g s)"
| "ecc_exec env (EccSign d k) s = snd (SgxEccHandle_ecdsa_sign_slice env d k s)"
| "ecc_exec env (EccVerify d g sg) s = snd (SgxEccHandle_ecdsa_verify_slice env d g sg s)"
| "ecc_exec env (EccVerifyHash hs g sg) s = snd (SgxEccHandle_ecdsa_verify_hash env hs g sg s)"
| "ecc_exec env EccClose s = snd (SgxEccHandle_close env s)"

definition ecc_heap_spec :: "('c, 'z) thandle_ext_scheme \<Rightarrow> ('c \<Rightarrow> u64 set) \<Rightarrow> bool" where
  "ecc_heap_spec env live \<longleftrightarrow>
     open_spec (sgx_ecc256_open_context env) live \<and>
     use_spec (\<lambda>p c. case sgx_ecc256_create_key_pair env p c of (r, a, b, c') \<Rightarrow> (r, (a, b), c')) live \<and>
     (\<forall>g. use_spec (sgx_ecc256_check_point env g) live) \<and>
     (\<forall>k g. use_spec (sgx_ecc256_compute_shared_dhkey env k g) live) \<and>
     (\<forall>d n k. use_spec (sgx_ecdsa_sign env d n k) live) \<and>
     (\<forall>d n g sg. use_spec (sgx_ecdsa_verify env d n g sg) live) \<and>
     (\<forall>hs g sg. use_spec (sgx_ecdsa_verify_hash env hs g sg) live) \<and>
     close_spec (sgx_ecc256_close_context env) live"

lemma use_spec_map:
  "use_spec f live \<Longrightarrow> use_spec (\<lambda>p c. case f p c of (r, v, c') \<Rightarrow> (r, g v, c')) live"
  unfolding use_spec_def by (auto split: prod.splits)

lemma ecc_heap_specD:
  assumes "ecc_heap_spec env live"
  shows "open_spec (sgx_ecc256_open_context env) live"
    and "use_spec (\<lambda>p c. case sgx_ecc256_create_key_pair env p c of (r, a, b, c') \<Rightarrow> (r, (a, b), c')) live"
    and "use_spec (sgx_ecc256_check_point env g) live"
    and "use_spec (sgx_ecc256_compute_shared_dhkey env k g) live"
    and "use_spec (sgx_ecdsa_sign env d n k) live"
    and "use_spec (sgx_ecdsa_verify env d n g sg) live"
    and "use_spec (sgx_ecdsa_verify_hash env hs g sg) live"
    and "close_spec (sgx_ecc256_close_context env) live"
  using assms unfolding ecc_heap_spec_def by blast+

lemma sign_use_spec:
  "ecc_heap_spec env live \<Longrightarrow> use_spec (rsgx_ecdsa_sign_slice env d k sig0) live"
  unfolding use_spec_def rsgx_ecdsa_sign_slice_def Let_def
  by (auto dest!: use_specD [OF ecc_heap_specD(5), rotated] split: if_splits)

lemma verify_use_spec:
  "ecc_heap_spec env live \<Longrightarrow> use_spec (rsgx_ecdsa_verify_slice env d g sg r0) live"
  unfolding use_spec_def rsgx_ecdsa_verify_slice_def Let_def
  by (auto dest!: use_specD [OF ecc_heap_specD(6), rotated] split: if_splits prod.splits)

lemma verify_hash_use_spec:
  "ecc_heap_spec env live \<Longrightarrow> use_spec (rsgx_ecdsa_verify_hash env hs g sg) live"
  unfolding use_spec_def rsgx_ecdsa_verify_hash_def Let_def
  by (auto dest!: use_specD [OF ecc_heap_specD(7), rotated] split: prod.splits)

interpretation ecc_ctx: context_owner ecc_heap_spec SgxEccHandle_new ecc_exec SgxEccHandle_close
proof
  fix env :: "('c, 'z) thandle_ext_scheme" and live L s op
  assume own: "owns live L s" and spec: "ecc_heap_spec env live"
  note use = h_use_owns [OF _ own] and D = ecc_heap_specD [OF spec]
  show "owns live L (ecc_exec env op s)"
    by (cases op)
      (auto simp: ecc_handle_shape own intro!: h_open_owns [OF D(1)] h_close_owns [OF D(8)] use use_spec_map
        D sign_use_spec [OF spec] verify_use_spec [OF spec] verify_hash_use_spec [OF spec])
qed (simp_all add: SgxEccHandle_new_def ecc_handle_shape ecc_heap_spec_def h_close_owns h_close_clears)

section \<open>Digests in pieces\<close>

text \<open>
  \<open>ctx c p\<close> is what the context at \<open>p\<close> has taken in: the key it was opened with and the bytes so far.
  The contract of the four C functions of a digest: a new context is empty, an update appends, and
  both the final call and the one-shot call give the digest \<open>D\<close>.
\<close>

definition digest_spec ::
  "('k \<Rightarrow> u64 \<Rightarrow> 'c \<Rightarrow> sgx_status_t \<times> u64 \<times> 'c) \<Rightarrow> (bytes \<Rightarrow> u32 \<Rightarrow> u64 \<Rightarrow> 'c \<Rightarrow> sgx_status_t \<times> 'c) \<Rightarrow>
   (u64 \<Rightarrow> 'c \<Rightarrow> sgx_status_t \<times> bytes \<times> 'c) \<Rightarrow> ('k \<Rightarrow> bytes \<Rightarrow> u32 \<Rightarrow> sgx_status_t \<times> bytes) \<Rightarrow>
   ('k \<Rightarrow> bytes \<Rightarrow> bytes) \<Rightarrow> ('c \<Rightarrow> u64 \<Rightarrow> ('k \<times> bytes) option) \<Rightarrow> bool" where
  "digest_spec init update final msg D ctx \<longleftrightarrow>
     (\<forall>k p c p' c'. init k p c = (SGX_SUCCESS, p', c') \<longrightarrow> ctx c' p' = Some (k, [])) \<and>
     (\<forall>d p c c' k b. ctx c p = Some (k, b) \<longrightarrow> length d \<le> MAX32 \<longrightarrow>
        update d (of_nat (length d)) p c = (SGX_SUCCESS, c') \<longrightarrow> ctx c' p = Some (k, b @ d)) \<and>
     (\<forall>p c k b t c'. ctx c p = Some (k, b) \<longrightarrow> final p c = (SGX_SUCCESS, t, c') \<longrightarrow> t = D k b) \<and>
     (\<forall>k d t. length d \<le> MAX32 \<longrightarrow> msg k d (of_nat (length d)) = (SGX_SUCCESS, t) \<longrightarrow> t = D k d)"

text \<open>No call fails that has a live context and a non-empty input (there is memory, for one).\<close>

definition digest_total ::
  "('k \<Rightarrow> u64 \<Rightarrow> 'c \<Rightarrow> sgx_status_t \<times> u64 \<times> 'c) \<Rightarrow> (bytes \<Rightarrow> u32 \<Rightarrow> u64 \<Rightarrow> 'c \<Rightarrow> sgx_status_t \<times> 'c) \<Rightarrow>
   (u64 \<Rightarrow> 'c \<Rightarrow> sgx_status_t \<times> bytes \<times> 'c) \<Rightarrow> ('k \<Rightarrow> bytes \<Rightarrow> u32 \<Rightarrow> sgx_status_t \<times> bytes) \<Rightarrow>
   ('c \<Rightarrow> u64 \<Rightarrow> ('k \<times> bytes) option) \<Rightarrow> bool" where
  "digest_total init update final msg ctx \<longleftrightarrow>
     (\<forall>k p c. \<exists>p' c'. init k p c = (SGX_SUCCESS, p', c')) \<and>
     (\<forall>d p c. ctx c p \<noteq> None \<longrightarrow> d \<noteq> [] \<longrightarrow> length d \<le> MAX32 \<longrightarrow>
        (\<exists>c'. update d (of_nat (length d)) p c = (SGX_SUCCESS, c'))) \<and>
     (\<forall>p c. ctx c p \<noteq> None \<longrightarrow> (\<exists>t c'. final p c = (SGX_SUCCESS, t, c'))) \<and>
     (\<forall>k d. d \<noteq> [] \<longrightarrow> length d \<le> MAX32 \<longrightarrow> (\<exists>t. msg k d (of_nat (length d)) = (SGX_SUCCESS, t)))"

definition holds :: "('c \<Rightarrow> u64 \<Rightarrow> 'v option) \<Rightarrow> crypto_handle \<times> 'c \<Rightarrow> 'v \<Rightarrow> bool" where
  "holds ctx s v \<longleftrightarrow> initflag (fst s) \<and> ctx (snd s) (handle (fst s)) = Some v"

lemma h_open_holds:
  assumes "digest_spec init update final msg D ctx" "\<not> initflag (fst s)" "h_open (init k) s = (Inr (), t)"
  shows "holds ctx t (k, [])"
  using assms(2,3) conjunct1 [OF assms(1) [unfolded digest_spec_def]]
  by (cases s) (auto simp: h_open_def holds_def split: prod.splits if_splits)

lemma digest_spec_update:
  assumes "digest_spec init update final msg D ctx" "ctx c p = Some (k, b)" "length d \<le> MAX32"
    "update d (of_nat (length d)) p c = (SGX_SUCCESS, c')"
  shows "ctx c' p = Some (k, b @ d)"
  using assms(2-) conjunct1 [OF conjunct2 [OF assms(1) [unfolded digest_spec_def]]] by blast

lemma h_update_holds:
  assumes "digest_spec init update final msg D ctx" "holds ctx s (k, b)" "h_use (sized update d) s = (Inr (), t)"
  shows "holds ctx t (k, b @ d)"
  using assms(2,3) digest_spec_update [OF assms(1)]
  by (cases s) (auto simp: h_use_def sized_def holds_def split: prod.splits if_splits)

lemma h_final_value:
  assumes "digest_spec init update final msg D ctx" "holds ctx s (k, b)" "h_use final s = (Inr v, t)"
  shows "v = D k b"
  using assms(2,3) conjunct1 [OF conjunct2 [OF conjunct2 [OF assms(1) [unfolded digest_spec_def]]]]
  by (cases s) (auto simp: h_use_def holds_def split: prod.splits if_splits)

lemma digest_totalD:
  assumes "digest_total init update final msg ctx"
  shows "\<exists>p' c'. init k p c = (SGX_SUCCESS, p', c')"
    and "ctx c p \<noteq> None \<Longrightarrow> d \<noteq> [] \<Longrightarrow> length d \<le> MAX32 \<Longrightarrow>
       \<exists>c'. update d (of_nat (length d)) p c = (SGX_SUCCESS, c')"
    and "ctx c p \<noteq> None \<Longrightarrow> \<exists>t c'. final p c = (SGX_SUCCESS, t, c')"
    and "d \<noteq> [] \<Longrightarrow> length d \<le> MAX32 \<Longrightarrow> \<exists>t. msg k d (of_nat (length d)) = (SGX_SUCCESS, t)"
  using assms unfolding digest_total_def by blast+

lemma h_open_total:
  assumes "digest_total init update final msg ctx"
  shows "\<exists>t. h_open (init k) s = (Inr (), t)"
  using digest_totalD(1) [OF assms, of k "handle (fst s)" "snd s"]
  by (cases s) (auto simp: h_open_def)

lemma h_update_total:
  assumes "digest_total init update final msg ctx" "holds ctx s v" "d \<noteq> []" "length d \<le> MAX32"
  shows "\<exists>t. h_use (sized update d) s = (Inr (), t)"
  using digest_totalD(2) [OF assms(1), of "snd s" "handle (fst s)" d] assms(2-)
  by (cases s) (auto simp: h_use_def sized_def holds_def)

lemma h_final_total:
  assumes "digest_total init update final msg ctx" "holds ctx s v"
  shows "\<exists>w t. h_use final s = (Inr w, t)"
  using digest_totalD(3) [OF assms(1), of "snd s" "handle (fst s)"] assms(2)
  by (cases s) (auto simp: h_use_def holds_def)

text \<open>
  The contract of a digest behind a handle, and what follows for a caller that opens the handle,
  feeds it pieces and asks for the digest.
\<close>

fun updates :: "(bytes \<Rightarrow> ('s, unit) stateful) \<Rightarrow> bytes list \<Rightarrow> ('s, unit) stateful" where
  "updates upd [] = rreturn (Inr ())"
| "updates upd (d # ds) = rtry (upd d) (\<lambda>_. updates upd ds)"

definition digest_run ::
  "('s, unit) stateful \<Rightarrow> (bytes \<Rightarrow> ('s, unit) stateful) \<Rightarrow> ('s, bytes) stateful \<Rightarrow> bytes list \<Rightarrow> ('s, bytes) stateful" where
  "digest_run init upd fin ds = rtry init (\<lambda>_. rtry (updates upd ds) (\<lambda>_. fin))"

locale stream_digest =
  fixes spec :: "'e \<Rightarrow> ('k \<Rightarrow> bytes \<Rightarrow> bytes) \<Rightarrow> ('c \<Rightarrow> u64 \<Rightarrow> ('k \<times> bytes) option) \<Rightarrow> bool"
    and total :: "'e \<Rightarrow> ('c \<Rightarrow> u64 \<Rightarrow> ('k \<times> bytes) option) \<Rightarrow> bool"
    and init :: "'e \<Rightarrow> 'k \<Rightarrow> (crypto_handle \<times> 'c, unit) stateful"
    and update :: "'e \<Rightarrow> bytes \<Rightarrow> (crypto_handle \<times> 'c, unit) stateful"
    and fin :: "'e \<Rightarrow> (crypto_handle \<times> 'c, bytes) stateful"
    and oneshot :: "'e \<Rightarrow> 'k \<Rightarrow> bytes \<Rightarrow> bytes SgxResult"
  assumes init_holds: "spec env D ctx \<Longrightarrow> \<not> initflag (fst s) \<Longrightarrow> init env k s = (Inr (), t) \<Longrightarrow> holds ctx t (k, [])"
    and update_holds: "spec env D ctx \<Longrightarrow> holds ctx s (k, b) \<Longrightarrow> update env d s = (Inr (), t) \<Longrightarrow> holds ctx t (k, b @ d)"
    and fin_value: "spec env D ctx \<Longrightarrow> holds ctx s (k, b) \<Longrightarrow> fin env s = (Inr v, t) \<Longrightarrow> v = D k b"
    and oneshot_value: "spec env D ctx \<Longrightarrow> oneshot env k d = Inr v \<Longrightarrow> v = D k d"
    and init_total: "total env ctx \<Longrightarrow> \<exists>t. init env k s = (Inr (), t)"
    and update_total: "total env ctx \<Longrightarrow> holds ctx s kv \<Longrightarrow> d \<noteq> [] \<Longrightarrow> length d \<le> MAX32 \<Longrightarrow>
      \<exists>t. update env d s = (Inr (), t)"
    and fin_total: "total env ctx \<Longrightarrow> holds ctx s kv \<Longrightarrow> \<exists>v t. fin env s = (Inr v, t)"
    and oneshot_total: "total env ctx \<Longrightarrow> d \<noteq> [] \<Longrightarrow> length d \<le> MAX32 \<Longrightarrow> \<exists>v. oneshot env k d = Inr v"
begin

lemma updates_hold:
  "spec env D ctx \<Longrightarrow> holds ctx s (k, b) \<Longrightarrow> updates (update env) ds s = (Inr (), t) \<Longrightarrow>
     holds ctx t (k, b @ concat ds)"
proof (induction ds arbitrary: s b)
  case (Cons d ds)
  then obtain u where "update env d s = (Inr (), u)" "updates (update env) ds u = (Inr (), t)"
    by (auto simp: rtry_Inr_iff)
  with Cons.IH [OF Cons.prems(1) update_holds [OF Cons.prems(1,2)]] show ?case by simp
qed simp

lemma updates_total:
  assumes "spec env D ctx" "total env ctx" "holds ctx s (k, b)" "\<forall>d\<in>set ds. d \<noteq> [] \<and> length d \<le> MAX32"
  shows "\<exists>t. updates (update env) ds s = (Inr (), t)"
  using assms(3,4)
proof (induction ds arbitrary: s b)
  case (Cons d ds)
  obtain u where u: "update env d s = (Inr (), u)"
    using update_total [OF assms(2) Cons.prems(1), of d] Cons.prems(2) by auto
  then show ?case
    using Cons.IH [OF update_holds [OF assms(1) Cons.prems(1) u]] Cons.prems(2) by (auto simp: rtry_step)
qed simp

lemma run_value:
  assumes "spec env D ctx" "\<not> initflag (fst s)"
    and "digest_run (init env k) (update env) (fin env) ds s = (Inr v, t)"
  shows "v = D k (concat ds)"
  using assms(3) init_holds [OF assms(1,2)] updates_hold [OF assms(1)] fin_value [OF assms(1)]
  by (fastforce simp: digest_run_def rtry_Inr_iff)

lemma run_total:
  assumes "spec env D ctx" "total env ctx" "\<not> initflag (fst s)" "\<forall>d\<in>set ds. d \<noteq> [] \<and> length d \<le> MAX32"
  shows "\<exists>t. digest_run (init env k) (update env) (fin env) ds s = (Inr (D k (concat ds)), t)"
proof -
  obtain t where t: "init env k s = (Inr (), t)" using init_total [OF assms(2)] by blast
  note h = init_holds [OF assms(1,3) t]
  obtain u where u: "updates (update env) ds t = (Inr (), u)"
    using updates_total [OF assms(1,2) h assms(4)] by blast
  obtain w x where "fin env u = (Inr w, x)"
    using fin_total [OF assms(2) updates_hold [OF assms(1) h u]] by blast
  then have run: "digest_run (init env k) (update env) (fin env) ds s = (Inr w, x)"
    using t u by (simp add: digest_run_def rtry_step)
  then show ?thesis using run_value [OF assms(1,3) run] by blast
qed

lemma run_oneshot:
  assumes "spec env D ctx" "total env ctx" "\<not> initflag (fst s)"
    and "ds \<noteq> []" "\<forall>d\<in>set ds. d \<noteq> []" "length (concat ds) \<le> MAX32"
  shows "fst (digest_run (init env k) (update env) (fin env) ds s) = oneshot env k (concat ds)"
proof -
  have "length d \<le> length (concat ds)" if "d \<in> set ds" for d
    using that by (auto simp: length_concat intro: member_le_sum_list)
  then have "\<forall>d\<in>set ds. d \<noteq> [] \<and> length d \<le> MAX32" using assms(5,6) by fastforce
  then obtain t where t: "digest_run (init env k) (update env) (fin env) ds s = (Inr (D k (concat ds)), t)"
    using run_total [OF assms(1-3)] by blast
  have "concat ds \<noteq> []" using assms(4,5) by (cases ds) auto
  then obtain v where v: "oneshot env k (concat ds) = Inr v"
    using oneshot_total [OF assms(2)] assms(6) by blast
  show ?thesis using t v oneshot_value [OF assms(1) v] by simp
qed

end

definition sha_spec ::
  "('c, 'z) thandle_ext_scheme \<Rightarrow> (unit \<Rightarrow> bytes \<Rightarrow> bytes) \<Rightarrow> ('c \<Rightarrow> u64 \<Rightarrow> (unit \<times> bytes) option) \<Rightarrow> bool" where
  "sha_spec env = digest_spec (\<lambda>_. sgx_sha256_init env) (sgx_sha256_update env) (sgx_sha256_get_hash env)
     (\<lambda>_. sgx_sha256_msg env)"

definition sha_total :: "('c, 'z) thandle_ext_scheme \<Rightarrow> ('c \<Rightarrow> u64 \<Rightarrow> (unit \<times> bytes) option) \<Rightarrow> bool" where
  "sha_total env = digest_total (\<lambda>_. sgx_sha256_init env) (sgx_sha256_update env) (sgx_sha256_get_hash env)
     (\<lambda>_. sgx_sha256_msg env)"

definition cmac_spec ::
  "('c, 'z) thandle_ext_scheme \<Rightarrow> (bytes \<Rightarrow> bytes \<Rightarrow> bytes) \<Rightarrow> ('c \<Rightarrow> u64 \<Rightarrow> (bytes \<times> bytes) option) \<Rightarrow> bool" where
  "cmac_spec env = digest_spec (sgx_cmac128_init env) (sgx_cmac128_update env) (sgx_cmac128_final env)
     (sgx_rijndael128_cmac_msg env)"

definition cmac_total :: "('c, 'z) thandle_ext_scheme \<Rightarrow> ('c \<Rightarrow> u64 \<Rightarrow> (bytes \<times> bytes) option) \<Rightarrow> bool" where
  "cmac_total env = digest_total (sgx_cmac128_init env) (sgx_cmac128_update env) (sgx_cmac128_final env)
     (sgx_rijndael128_cmac_msg env)"

lemma digest_spec_msg:
  assumes "digest_spec init update final msg D ctx" "length d \<le> MAX32"
    "msg k d (of_nat (length d)) = (SGX_SUCCESS, t)"
  shows "t = D k d"
  using assms unfolding digest_spec_def by blast

interpretation sha: stream_digest sha_spec sha_total "\<lambda>env _. SgxShaHandle_init env" SgxShaHandle_update_msg
  SgxShaHandle_get_hash "\<lambda>env _. rsgx_sha256_slice env"
proof
  fix env :: "('c, 'z) thandle_ext_scheme" and D ctx k d v
  show "v = D k d" if "sha_spec env D ctx" "rsgx_sha256_slice env d = Inr v"
    using that digest_spec_msg [OF that(1) [unfolded sha_spec_def], of d v k]
    by (auto simp: rsgx_sha256_slice_def Let_def split: prod.splits if_splits)
  show "\<exists>v. rsgx_sha256_slice env d = Inr v" if "sha_total env ctx" "d \<noteq> []" "length d \<le> MAX32"
    using digest_totalD(4) [OF that(1) [unfolded sha_total_def] that(2,3)] that(2,3)
    by (auto simp: rsgx_sha256_slice_def Let_def)
qed (unfold sha_handle_shape sha_spec_def sha_total_def;
     erule h_open_holds [where init = "\<lambda>_. sgx_sha256_init env" for env] h_update_holds h_final_value
       h_open_total [where init = "\<lambda>_. sgx_sha256_init env" for env] h_update_total h_final_total; assumption?)+

interpretation cmac: stream_digest cmac_spec cmac_total SgxCmacHandle_init SgxCmacHandle_update_msg
  SgxCmacHandle_get_hash rsgx_rijndael128_cmac_slice
proof
  fix env :: "('c, 'z) thandle_ext_scheme" and D ctx k d v
  show "v = D k d" if "cmac_spec env D ctx" "rsgx_rijndael128_cmac_slice env k d = Inr v"
    using that digest_spec_msg [OF that(1) [unfolded cmac_spec_def], of d k v]
    by (auto simp: rsgx_rijndael128_cmac_slice_def Let_def split: prod.splits if_splits)
  show "\<exists>v. rsgx_rijndael128_cmac_slice env k d = Inr v" if "cmac_total env ctx" "d \<noteq> []" "length d \<le> MAX32"
    using digest_totalD(4) [OF that(1) [unfolded cmac_total_def] that(2,3), of k] that(2,3)
    by (auto simp: rsgx_rijndael128_cmac_slice_def Let_def)
qed (unfold cmac_handle_shape cmac_spec_def cmac_total_def;
     erule h_open_holds h_update_holds h_final_value h_open_total h_update_total h_final_total; assumption?)+

section \<open>Elliptic curves and counter mode\<close>

text \<open>
  \<open>gen\<close> is multiplication of the base point and \<open>dh\<close> the shared secret of a private key and a
  point.  \<open>dh_law\<close> is the identity key agreement rests on.
\<close>

definition ecdh_spec :: "('c, 'z) thandle_ext_scheme \<Rightarrow> (bytes \<Rightarrow> bytes) \<Rightarrow> (bytes \<Rightarrow> bytes \<Rightarrow> bytes) \<Rightarrow> bool" where
  "ecdh_spec env gen dh \<longleftrightarrow>
     (\<forall>p c k g c'. sgx_ecc256_create_key_pair env p c = (SGX_SUCCESS, k, g, c') \<longrightarrow> g = gen k) \<and>
     (\<forall>k g p c v c'. sgx_ecc256_compute_shared_dhkey env k g p c = (SGX_SUCCESS, v, c') \<longrightarrow> v = dh k g)"

definition ecdh_total :: "('c, 'z) thandle_ext_scheme \<Rightarrow> bool" where
  "ecdh_total env \<longleftrightarrow>
     (\<forall>p c. \<exists>p' c'. sgx_ecc256_open_context env p c = (SGX_SUCCESS, p', c')) \<and>
     (\<forall>p c. \<exists>k g c'. sgx_ecc256_create_key_pair env p c = (SGX_SUCCESS, k, g, c')) \<and>
     (\<forall>k g p c. \<exists>v c'. sgx_ecc256_compute_shared_dhkey env k g p c = (SGX_SUCCESS, v, c'))"

definition dh_law :: "(bytes \<Rightarrow> bytes) \<Rightarrow> (bytes \<Rightarrow> bytes \<Rightarrow> bytes) \<Rightarrow> bool" where
  "dh_law gen dh \<longleftrightarrow> (\<forall>a b. dh a (gen b) = dh b (gen a))"

lemma ecc_create_value:
  "ecdh_spec env gen dh \<Longrightarrow> SgxEccHandle_create_align_key_pair env s = (Inr (k, g), t) \<Longrightarrow> g = gen k"
  unfolding ecdh_spec_def
  by (cases s) (clarsimp simp: ecc_handle_shape h_use_def split: prod.splits if_splits; blast)

lemma ecc_shared_value:
  "ecdh_spec env gen dh \<Longrightarrow> SgxEccHandle_compute_align_shared_dhkey env k g s = (Inr v, t) \<Longrightarrow> v = dh k g"
  unfolding ecdh_spec_def
  by (cases s) (clarsimp simp: ecc_handle_shape h_use_def split: prod.splits if_splits; blast)

lemma ecc_initflag:
  "SgxEccHandle_open env s = (Inr (), t) \<Longrightarrow> initflag (fst t)"
  "SgxEccHandle_create_align_key_pair env s = (r, t) \<Longrightarrow> initflag (fst t) = initflag (fst s)"
  by (cases s; auto simp: ecc_handle_shape h_open_def h_use_def split: prod.splits if_splits)+

lemma ecc_total:
  assumes "ecdh_total env"
  shows "\<exists>t. SgxEccHandle_open env s = (Inr (), t)"
    and "initflag (fst s) \<Longrightarrow> \<exists>k g t. SgxEccHandle_create_align_key_pair env s = (Inr (k, g), t)"
    and "initflag (fst s) \<Longrightarrow> \<exists>v t. SgxEccHandle_compute_align_shared_dhkey env k g s = (Inr v, t)"
proof -
  obtain self c where s: "s = (self, c)" by force
  from assms obtain p' c1 k' g' c2 v c3
    where f: "sgx_ecc256_open_context env (handle self) c = (SGX_SUCCESS, p', c1)"
      "sgx_ecc256_create_key_pair env (handle self) c = (SGX_SUCCESS, k', g', c2)"
      "sgx_ecc256_compute_shared_dhkey env k g (handle self) c = (SGX_SUCCESS, v, c3)"
    unfolding ecdh_total_def by metis
  show "\<exists>t. SgxEccHandle_open env s = (Inr (), t)"
    and "initflag (fst s) \<Longrightarrow> \<exists>k g t. SgxEccHandle_create_align_key_pair env s = (Inr (k, g), t)"
    and "initflag (fst s) \<Longrightarrow> \<exists>v t. SgxEccHandle_compute_align_shared_dhkey env k g s = (Inr v, t)"
    using f by (simp_all add: s ecc_handle_shape h_open_def h_use_def)
qed

text \<open>
  A verification answers \<open>true\<close> exactly when C reports success and the code 0; every other code,
  known to the enumeration or not, is a rejection and never an error.
\<close>

lemma ecresult_valid_iff: "ecresult_from_repr (ucast (v :: u8)) = Some SGX_EC_VALID \<longleftrightarrow> v = 0"
proof -
  have "(ucast v :: u32) = 0 \<longleftrightarrow> v = 0" by simp
  then show ?thesis by (simp add: ecresult_from_repr_def)
qed

lemma ecdsa_verify_decision:
  assumes "initflag self" "data \<noteq> []" "length data \<le> MAX32"
    and "sgx_ecdsa_verify env data (of_nat (length data)) public signature (handle self) c = (r, v, c')"
  shows "SgxEccHandle_ecdsa_verify_slice env data public signature (self, c) =
     (if r = SGX_SUCCESS then Inr (v = 0) else Inl r, self, c')"
  using assms ecresult_valid_iff [of v]
  by (auto simp: SgxEccHandle_ecdsa_verify_slice_def rsgx_ecdsa_verify_slice_def Let_def sgx_result_def split: option.split)

lemma ctr_roundtrip:
  assumes inv: "\<And>key src ctr out ctr'. sgx_aes_ctr_encrypt env key src (of_nat (length src)) ctr bits = (SGX_SUCCESS, ctr', out) \<Longrightarrow>
      length out = length src \<and> sgx_aes_ctr_decrypt env key out (of_nat (length out)) ctr bits = (SGX_SUCCESS, ctr', src)"
    and enc: "rsgx_aes_ctr_encrypt env key src ctr bits dst = (Inr (), ctr', dst')"
    and len: "length dst = length src" "length buf = length src"
  shows "rsgx_aes_ctr_decrypt env key dst' ctr bits buf = (Inr (), ctr', src)"
proof -
  obtain r out where e: "sgx_aes_ctr_encrypt env key src (of_nat (length src)) ctr bits = (r, ctr', out)"
    and ok: "r = SGX_SUCCESS" and dst': "dst' = write_at 0 out dst" and sz: "src \<noteq> []" "length src \<le> MAX32"
    using enc by (auto simp: rsgx_aes_ctr_encrypt_def Let_def split: if_splits prod.splits)
  note i = inv [OF e [unfolded ok]]
  have "dst' = out" using i dst' len by (simp add: write_at_whole)
  then show ?thesis
    using i [THEN conjunct2] i [THEN conjunct1] sz len by (simp add: rsgx_aes_ctr_decrypt_def write_at_whole)
qed

section \<open>Two small libraries\<close>

text \<open>
  \<open>model_env\<close> implements the C functions over one context of each kind, with checksums in the place
  of digests and exclusive-or as the group operation; the functions of \<open>sgx_tse\<close> are its arguments.
  \<open>slot_env\<close> keeps the contexts in two slots and runs out of memory.  They show that the contracts
  can be met.
\<close>

type_synonym lib_state = "bytes \<times> (bytes \<times> bytes) \<times> u8"

definition model_sum :: "nat \<Rightarrow> bytes \<Rightarrow> bytes" where
  "model_sum n b = fold (\<lambda>x s. 3 * s + x) b (7 :: u8) # replicate (n - 1) 0"

definition model_gen :: "bytes \<Rightarrow> bytes" where
  "model_gen k = take 32 (k @ replicate 32 0) @ replicate 32 0"

definition model_dh :: "bytes \<Rightarrow> bytes \<Rightarrow> bytes" where
  "model_dh k g = map2 (XOR) (take 32 (k @ replicate 32 0)) (take 32 (g @ replicate 32 0))"

definition model_env ::
  "(bytes \<Rightarrow> bytes \<Rightarrow> sgx_status_t \<times> sgx_report_t) \<Rightarrow> (sgx_report_t \<Rightarrow> sgx_status_t) \<Rightarrow> sgx_report_t
     \<Rightarrow> lib_state thandle_ext" where
  "model_env create verify self =
     \<lparr> sgx_is_within_enclave = (\<lambda>p n. if p \<ge> 0x1000 then 1 else 0),
       sgx_is_outside_enclave = (\<lambda>p n. if p < 0x1000 then 1 else 0),
       sgx_read_rand = (\<lambda>n. (SGX_SUCCESS, replicate n 7)),
       sgx_create_report = create,
       sgx_verify_report = verify,
       sgx_get_key = (\<lambda>kr. (SGX_SUCCESS, replicate 16 9)),
       sgx_self_report = self,
       sgx_rijndael128GCM_encrypt = (\<lambda>key src n d iv m aad k. (SGX_ERROR_UNEXPECTED, [], [])),
       sgx_rijndael128GCM_decrypt = (\<lambda>key src n d iv m aad k tag. (SGX_ERROR_UNEXPECTED, [])),
       sgx_rijndael128_cmac_msg = (\<lambda>key src n. (SGX_SUCCESS, model_sum 16 (key @ src))),
       sgx_sha256_msg = (\<lambda>src n. (SGX_SUCCESS, model_sum 32 src)),
       sgx_sha256_init = (\<lambda>p (b, m, r). (SGX_SUCCESS, 1, ([], m, r))),
       sgx_sha256_update = (\<lambda>d n p (b, m, r). (SGX_SUCCESS, (b @ d, m, r))),
       sgx_sha256_get_hash = (\<lambda>p (b, m, r). (SGX_SUCCESS, model_sum 32 b, (b, m, r))),
       sgx_sha256_close = (\<lambda>p c. (SGX_SUCCESS, c)),
       sgx_cmac128_init = (\<lambda>k p (b, m, r). (SGX_SUCCESS, 1, (b, (k, []), r))),
       sgx_cmac128_update = (\<lambda>d n p (b, m, r). (SGX_SUCCESS, (b, (fst m, snd m @ d), r))),
       sgx_cmac128_final = (\<lambda>p (b, m, r). (SGX_SUCCESS, model_sum 16 (fst m @ snd m), (b, m, r))),
       sgx_cmac128_close = (\<lambda>p c. (SGX_SUCCESS, c)),
       sgx_aes_ctr_encrypt = (\<lambda>key src n ctr i. (SGX_SUCCESS, ctr, src)),
       sgx_aes_ctr_decrypt = (\<lambda>key src n ctr i. (SGX_SUCCESS, ctr, src)),
       sgx_ecc256_open_context = (\<lambda>p c. (SGX_SUCCESS, 1, c)),
       sgx_ecc256_close_context = (\<lambda>p c. (SGX_SUCCESS, c)),
       sgx_ecc256_create_key_pair = (\<lambda>p (b, m, r).
          (SGX_SUCCESS, replicate 32 r, model_gen (replicate 32 r), (b, m, r + 1))),
       sgx_ecc256_check_point = (\<lambda>g p c. (SGX_SUCCESS, 1, c)),
       sgx_ecc256_compute_shared_dhkey = (\<lambda>k g p c. (SGX_SUCCESS, model_dh k g, c)),
       sgx_ecdsa_sign = (\<lambda>d n k p c. (SGX_SUCCESS, replicate 64 0, c)),
       sgx_ecdsa_verify = (\<lambda>d n g sg p c. (SGX_SUCCESS, 0, c)),
       sgx_ecdsa_verify_hash = (\<lambda>hs g sg p c. (SGX_SUCCESS, 0, c)) \<rparr>"

definition model_sha_ctx :: "lib_state \<Rightarrow> u64 \<Rightarrow> (unit \<times> bytes) option" where
  "model_sha_ctx c p = Some ((), fst c)"

definition model_cmac_ctx :: "lib_state \<Rightarrow> u64 \<Rightarrow> (bytes \<times> bytes) option" where
  "model_cmac_ctx c p = Some (fst (snd c))"

lemma model_sha_spec: "sha_spec (model_env cr ve se) (\<lambda>_. model_sum 32) model_sha_ctx"
  by (auto simp: sha_spec_def digest_spec_def model_env_def model_sha_ctx_def)

lemma model_sha_total: "sha_total (model_env cr ve se) model_sha_ctx"
  by (auto simp: sha_total_def digest_total_def model_env_def model_sha_ctx_def)

lemma model_cmac_spec: "cmac_spec (model_env cr ve se) (\<lambda>k b. model_sum 16 (k @ b)) model_cmac_ctx"
  by (auto simp: cmac_spec_def digest_spec_def model_env_def model_cmac_ctx_def)

lemma model_cmac_total: "cmac_total (model_env cr ve se) model_cmac_ctx"
  by (auto simp: cmac_total_def digest_total_def model_env_def model_cmac_ctx_def)

lemma model_ecdh_spec: "ecdh_spec (model_env cr ve se) model_gen model_dh"
  by (auto simp: ecdh_spec_def model_env_def)

lemma model_ecdh_total: "ecdh_total (model_env cr ve se)"
  by (auto simp: ecdh_total_def model_env_def)

lemma model_dh_law: "dh_law model_gen model_dh"
  by (auto simp: dh_law_def model_gen_def model_dh_def intro!: nth_equalityI simp: ac_simps)

definition slot_open :: "u64 \<Rightarrow> u64 list \<Rightarrow> sgx_status_t \<times> u64 \<times> u64 list" where
  "slot_open p c =
     (if 1 \<notin> set c then (SGX_SUCCESS, 1, 1 # c)
      else if 2 \<notin> set c then (SGX_SUCCESS, 2, 2 # c)
      else (SGX_ERROR_OUT_OF_MEMORY, 0, c))"

definition slot_close :: "u64 \<Rightarrow> u64 list \<Rightarrow> sgx_status_t \<times> u64 list" where
  "slot_close p c = (if p \<in> set c then (SGX_SUCCESS, removeAll p c) else (SGX_ERROR_UNEXPECTED, []))"

definition slot_env :: "u64 list thandle_ext" where
  "slot_env =
     \<lparr> sgx_is_within_enclave = (\<lambda>p n. 1),
       sgx_is_outside_enclave = (\<lambda>p n. 0),
       sgx_read_rand = (\<lambda>n. (SGX_SUCCESS, replicate n 7)),
       sgx_create_report = (\<lambda>t d. (SGX_ERROR_UNEXPECTED, undefined)),
       sgx_verify_report = (\<lambda>r. SGX_ERROR_UNEXPECTED),
       sgx_get_key = (\<lambda>kr. (SGX_SUCCESS, replicate 16 9)),
       sgx_self_report = undefined,
       sgx_rijndael128GCM_encrypt = (\<lambda>key src n d iv m aad k. (SGX_ERROR_UNEXPECTED, [], [])),
       sgx_rijndael128GCM_decrypt = (\<lambda>key src n d iv m aad k tag. (SGX_ERROR_UNEXPECTED, [])),
       sgx_rijndael128_cmac_msg = (\<lambda>key src n. (SGX_SUCCESS, model_sum 16 (key @ src))),
       sgx_sha256_msg = (\<lambda>src n. (SGX_SUCCESS, model_sum 32 src)),
       sgx_sha256_init = slot_open,
       sgx_sha256_update = (\<lambda>d n p c. (SGX_SUCCESS, c)),
       sgx_sha256_get_hash = (\<lambda>p c. (SGX_SUCCESS, replicate 32 0, c)),
       sgx_sha256_close = slot_close,
       sgx_cmac128_init = (\<lambda>k. slot_open),
       sgx_cmac128_update = (\<lambda>d n p c. (SGX_SUCCESS, c)),
       sgx_cmac128_final = (\<lambda>p c. (SGX_SUCCESS, replicate 16 0, c)),
       sgx_cmac128_close = slot_close,
       sgx_aes_ctr_encrypt = (\<lambda>key src n ctr i. (SGX_SUCCESS, ctr, src)),
       sgx_aes_ctr_decrypt = (\<lambda>key src n ctr i. (SGX_SUCCESS, ctr, src)),
       sgx_ecc256_open_context = slot_open,
       sgx_ecc256_close_context = slot_close,
       sgx_ecc256_create_key_pair = (\<lambda>p c. (SGX_SUCCESS, replicate 32 0, replicate 64 0, c)),
       sgx_ecc256_check_point = (\<lambda>g p c. (SGX_SUCCESS, 1, c)),
       sgx_ecc256_compute_shared_dhkey = (\<lambda>k g p c. (SGX_SUCCESS, model_dh k g, c)),
       sgx_ecdsa_sign = (\<lambda>d n k p c. (SGX_SUCCESS, replicate 64 0, c)),
       sgx_ecdsa_verify = (\<lambda>d n g sg p c. (SGX_SUCCESS, 0, c)),
       sgx_ecdsa_verify_hash = (\<lambda>hs g sg p c. (SGX_SUCCESS, 0, c)) \<rparr>"

lemma slot_specs:
  "open_spec slot_open set" "close_spec slot_close set"
  "use_spec (\<lambda>p c. (r, a, c)) set"
  by (auto simp: open_spec_def close_spec_def use_spec_def slot_open_def slot_close_def split: if_splits)

lemma slot_heap_specs: "sha_heap_spec slot_env set" "cmac_heap_spec slot_env set" "ecc_heap_spec slot_env set"
  by (simp_all add: sha_heap_spec_def cmac_heap_spec_def ecc_heap_spec_def slot_env_def slot_specs)
    (auto simp: use_spec_def sized_def split: if_splits)

lemma update_slice_is_msg:
  "SgxShaHandle_update_slice env = SgxShaHandle_update_msg env"
  "SgxCmacHandle_update_slice env = SgxCmacHandle_update_msg env"
  by (simp_all add: fun_eq_iff sha_handle_shape cmac_handle_shape)

definition model_report :: sgx_report_t where
  "model_report =
     \<lparr> report_body = \<lparr> rb_cpu_svn = replicate 16 0, rb_misc_select = 0, rb_reserved1 = replicate 12 0,
         rb_isv_ext_prod_id = replicate 16 0, rb_attributes = \<lparr> attr_flags = 0, attr_xfrm = 0 \<rparr>,
         rb_mr_enclave = replicate 32 0, rb_reserved2 = replicate 32 0, rb_mr_signer = replicate 32 0,
         rb_reserved3 = replicate 32 0, rb_config_id = replicate 64 0, rb_isv_prod_id = 0, rb_isv_svn = 0,
         rb_config_svn = 0, rb_reserved4 = replicate 42 0, rb_isv_family_id = replicate 16 0,
         rb_report_data = replicate 64 0 \<rparr>,
       report_key_id = replicate 32 0, report_mac = replicate 16 0 \<rparr>"

definition model_crypto :: "lib_state thandle_ext" where
  "model_crypto = model_env (\<lambda>_ _. (SGX_SUCCESS, model_report)) (\<lambda>_. SGX_SUCCESS) model_report"

section \<open>Correctness\<close>





end
