(* ===== verification/Tdh_Target.thy ===== *)
theory Tdh_Target
  imports Tcrypto_Handle
begin

text \<open>
  \<open>sgx_tdh\<close> (dh.rs), the data of a session: the byte image of a report, the protocol specification of
  the local attestation protocol (\<open>SgxLAv2ProtoSpec\<close>), whose small program \<open>make_target_info\<close> runs to
  turn a report into the target information of the enclave that made it, and the third message with
  its C image.
\<close>

section \<open>Byte image of a report\<close>

definition wf_report :: "sgx_report_t \<Rightarrow> bool" where
  "wf_report r \<longleftrightarrow>
     (let b = report_body r in
      length (rb_cpu_svn b) = 16 \<and> length (rb_reserved1 b) = 12 \<and> length (rb_isv_ext_prod_id b) = 16
      \<and> length (rb_mr_enclave b) = 32 \<and> length (rb_reserved2 b) = 32 \<and> length (rb_mr_signer b) = 32
      \<and> length (rb_reserved3 b) = 32 \<and> length (rb_config_id b) = 64 \<and> length (rb_reserved4 b) = 42
      \<and> length (rb_isv_family_id b) = 16 \<and> length (rb_report_data b) = 64)
     \<and> length (report_key_id r) = 32 \<and> length (report_mac r) = 16"

definition bytes_of_report :: "sgx_report_t \<Rightarrow> bytes" where
  "bytes_of_report r =
     (let b = report_body r in
      rb_cpu_svn b @ le_bytes 4 (rb_misc_select b) @ rb_reserved1 b @ rb_isv_ext_prod_id b
      @ le_bytes 8 (attr_flags (rb_attributes b)) @ le_bytes 8 (attr_xfrm (rb_attributes b))
      @ rb_mr_enclave b @ rb_reserved2 b @ rb_mr_signer b @ rb_reserved3 b @ rb_config_id b
      @ le_bytes 2 (rb_isv_prod_id b) @ le_bytes 2 (rb_isv_svn b) @ le_bytes 2 (rb_config_svn b)
      @ rb_reserved4 b @ rb_isv_family_id b @ rb_report_data b)
     @ report_key_id r @ report_mac r"

definition report_of_bytes :: "bytes \<Rightarrow> sgx_report_t" where
  "report_of_bytes bs =
     \<lparr> report_body =
         \<lparr> rb_cpu_svn = read_at 0 16 bs, rb_misc_select = le_word (read_at 16 4 bs),
           rb_reserved1 = read_at 20 12 bs, rb_isv_ext_prod_id = read_at 32 16 bs,
           rb_attributes = \<lparr> attr_flags = le_word (read_at 48 8 bs), attr_xfrm = le_word (read_at 56 8 bs) \<rparr>,
           rb_mr_enclave = read_at 64 32 bs, rb_reserved2 = read_at 96 32 bs,
           rb_mr_signer = read_at 128 32 bs, rb_reserved3 = read_at 160 32 bs,
           rb_config_id = read_at 192 64 bs, rb_isv_prod_id = le_word (read_at 256 2 bs),
           rb_isv_svn = le_word (read_at 258 2 bs), rb_config_svn = le_word (read_at 260 2 bs),
           rb_reserved4 = read_at 262 42 bs, rb_isv_family_id = read_at 304 16 bs,
           rb_report_data = read_at 320 64 bs \<rparr>,
       report_key_id = read_at 384 32 bs, report_mac = read_at 416 16 bs \<rparr>"

lemma length_bytes_of_report [simp]: "wf_report r \<Longrightarrow> length (bytes_of_report r) = 432"
  by (simp add: wf_report_def bytes_of_report_def Let_def)

lemma report_of_bytes_of [simp]: "wf_report r \<Longrightarrow> report_of_bytes (bytes_of_report r) = r"
  by (cases r; cases "report_body r"; cases "rb_attributes (report_body r)")
    (simp add: wf_report_def bytes_of_report_def report_of_bytes_def read_at_def Let_def)

text \<open>\<open>sgx_report_t::default()\<close> and \<open>sgx_report_data_t::default()\<close>: all fields zero.\<close>

definition report_default :: sgx_report_t where
  "report_default =
     \<lparr> report_body = \<lparr> rb_cpu_svn = replicate 16 0, rb_misc_select = 0, rb_reserved1 = replicate 12 0,
         rb_isv_ext_prod_id = replicate 16 0, rb_attributes = \<lparr> attr_flags = 0, attr_xfrm = 0 \<rparr>,
         rb_mr_enclave = replicate 32 0, rb_reserved2 = replicate 32 0, rb_mr_signer = replicate 32 0,
         rb_reserved3 = replicate 32 0, rb_config_id = replicate 64 0, rb_isv_prod_id = 0, rb_isv_svn = 0,
         rb_config_svn = 0, rb_reserved4 = replicate 42 0, rb_isv_family_id = replicate 16 0,
         rb_report_data = replicate 64 0 \<rparr>,
       report_key_id = replicate 32 0, report_mac = replicate 16 0 \<rparr>"

abbreviation report_data_default :: bytes where
  "report_data_default \<equiv> replicate 64 0"

abbreviation target_info_default :: bytes where
  "target_info_default \<equiv> replicate 512 0"

section \<open>The protocol specification\<close>

record SgxLAv2ProtoSpec =
  ps_signature :: bytes
  ps_ver :: u8
  ps_rev :: u8
  target_spec :: "u16 list"

definition to_report_data :: "SgxLAv2ProtoSpec \<Rightarrow> bytes" where
  "to_report_data self =
     ps_signature self @ [ps_ver self, ps_rev self] @ concat (map (le_bytes 2) (target_spec self))"

definition from_report_data :: "bytes \<Rightarrow> SgxLAv2ProtoSpec" where
  "from_report_data d =
     \<lparr> ps_signature = read_at 0 6 d, ps_ver = d ! 6, ps_rev = d ! 7,
       target_spec = map (\<lambda>i. le_word (read_at (8 + 2 * i) 2 d)) [0..<28] \<rparr>"

definition ts_count :: "SgxLAv2ProtoSpec \<Rightarrow> u16" where
  "ts_count self = drop_bit 8 (target_spec self ! 0)"

definition is_valid :: "SgxLAv2ProtoSpec \<Rightarrow> bool" where
  "is_valid self \<longleftrightarrow> ps_ver self = 2 \<and> ps_rev self = 0 \<and> (ucast (target_spec self ! 0) :: u8) = 0
     \<and> ts_count self < 28"

text \<open>
  The loop of \<open>make_target_info\<close> over the entries of the specification.  An entry holds the binary
  logarithm of a size in its low four bits and an offset into the report in the other twelve; \<open>to\<close>
  is aligned to the size before each copy.  \<open>i32\<close> variables are integers (\<open>target_info_range\<close> shows
  that they stay far inside the type).
\<close>

fun mti_loop :: "u16 list \<Rightarrow> bytes \<Rightarrow> bytes \<Rightarrow> int \<Rightarrow> SgxError \<times> bytes" where
  "mti_loop [] rpt ti to = (Inr (), ti)"
| "mti_loop (t # ts) rpt ti to =
     (let sz = push_bit (unat (t AND 0xF)) 1;
          to = (to + (sz - 1)) AND - sz in
      if nat (to + sz) > 512 then (Inl SGX_ERROR_UNEXPECTED, ti)
      else
        let from = int (unat (drop_bit 4 t)) in
        if from \<ge> 0 then
          if nat (from + sz) > 432 then (Inl SGX_ERROR_UNEXPECTED, ti)
          else mti_loop ts rpt (write_at (nat to) (read_at (nat from) (nat sz) rpt) ti) (to + sz)
        else if from = -1 then (Inr (), ti)
        else (Inl SGX_ERROR_UNEXPECTED, ti))"

definition make_target_info :: "SgxLAv2ProtoSpec \<Rightarrow> sgx_report_t \<Rightarrow> bytes \<Rightarrow> SgxError \<times> bytes" where
  "make_target_info self rpt ti =
     (if \<not> is_valid self then (Inl SGX_ERROR_INVALID_PARAMETER, ti)
      else mti_loop (take (unat (ts_count self)) (drop 1 (target_spec self))) (bytes_of_report rpt) ti 0)"

definition SGX_LAV2_PROTO_SPEC :: SgxLAv2ProtoSpec where
  "SGX_LAV2_PROTO_SPEC =
     \<lparr> ps_signature = [0x53, 0x47, 0x58, 0x20, 0x4C, 0x41], ps_ver = 2, ps_rev = 0,
       target_spec = [0x0600, 0x0405, 0x0304, 0x0140, 0x1041, 0x0102, 0x0C06,
         0, 0, 0, 0, 0, 0, 0, 0, 0, 0, 0, 0, 0, 0, 0, 0, 0, 0, 0, 0, 0] \<rparr>"

definition rsgx_self_target :: "'z tse_ext_scheme \<Rightarrow> bytes SgxResult" where
  "rsgx_self_target env =
     (let report = rsgx_self_report env in
      case make_target_info SGX_LAV2_PROTO_SPEC report target_info_default of
        (r, target_info) \<Rightarrow> map_ok (\<lambda>_. target_info) r)"

subsection \<open>Round trip through the report data\<close>

lemma read_concat_le_bytes:
  fixes xs :: "u16 list"
  assumes "i < length xs"
  shows "read_at (2 * i) 2 (concat (map (le_bytes 2) xs)) = le_bytes 2 (xs ! i)"
  using assms
proof (induction xs arbitrary: i)
  case (Cons x xs)
  show ?case
  proof (cases i)
    case 0
    then show ?thesis by (simp add: read_at_append1 read_at_all)
  next
    case (Suc j)
    then show ?thesis using Cons by (simp add: read_at_append2)
  qed
qed simp

lemma from_to_report_data:
  assumes "length (ps_signature ps) = 6" "length (target_spec ps) = 28"
  shows "from_report_data (to_report_data ps) = ps"
proof -
  have "map (\<lambda>i. le_word (read_at (8 + 2 * i) 2 (to_report_data ps))) [0..<28] = target_spec ps"
    using assms
    by (intro nth_equalityI) (simp_all add: to_report_data_def read_at_append2 read_concat_le_bytes flip: append_assoc append.simps)
  then show ?thesis
    using assms by (cases ps) (simp add: from_report_data_def to_report_data_def read_at_def nth_append)
qed

subsection \<open>What the program of the specification computes\<close>

text \<open>
  \<open>sgx_target_info_t\<close>: measurement, attributes, two bytes the newer layout splits into the CET
  attributes and a reserved byte, configuration SVN, MISCSELECT, eight reserved bytes, configuration
  id and 384 reserved bytes.
\<close>

definition target_info_of :: "sgx_report_t \<Rightarrow> bytes" where
  "target_info_of r =
     (let b = report_body r in
      rb_mr_enclave b
      @ le_bytes 8 (attr_flags (rb_attributes b)) @ le_bytes 8 (attr_xfrm (rb_attributes b))
      @ [rb_reserved1 b ! 0, 0] @ le_bytes 2 (rb_config_svn b) @ le_bytes 4 (rb_misc_select b)
      @ replicate 8 0 @ rb_config_id b @ replicate 384 0)"

lemma lav2_valid: "is_valid SGX_LAV2_PROTO_SPEC" "unat (ts_count SGX_LAV2_PROTO_SPEC) = 6"
  by (simp_all add: is_valid_def ts_count_def SGX_LAV2_PROTO_SPEC_def)

lemma report_reads:
  assumes "wf_report r"
  shows "read_at 64 32 (bytes_of_report r) = rb_mr_enclave (report_body r)"
    and "read_at 48 16 (bytes_of_report r) = le_bytes 8 (attr_flags (rb_attributes (report_body r)))
           @ le_bytes 8 (attr_xfrm (rb_attributes (report_body r)))"
    and "read_at 20 1 (bytes_of_report r) = [rb_reserved1 (report_body r) ! 0]"
    and "read_at 260 2 (bytes_of_report r) = le_bytes 2 (rb_config_svn (report_body r))"
    and "read_at 16 4 (bytes_of_report r) = le_bytes 4 (rb_misc_select (report_body r))"
    and "read_at 192 64 (bytes_of_report r) = rb_config_id (report_body r)"
  using assms
  by (simp_all add: wf_report_def bytes_of_report_def read_at_def Let_def take_Suc_conv_app_nth)

lemma lav2_entries:
  "take (unat (ts_count SGX_LAV2_PROTO_SPEC)) (drop 1 (target_spec SGX_LAV2_PROTO_SPEC)) =
     [0x0405, 0x0304, 0x0140, 0x1041, 0x0102, 0x0C06]"
  unfolding lav2_valid by (simp add: SGX_LAV2_PROTO_SPEC_def)

lemma mti_step:
  assumes "push_bit (unat (t AND 0xF)) 1 = int sz" "(to + (int sz - 1)) AND - int sz = int off"
    and "unat (drop_bit 4 t) = src" "off + sz \<le> 512" "src + sz \<le> 432"
  shows "mti_loop (t # ts) rpt ti to = mti_loop ts rpt (write_at off (read_at src sz rpt) ti) (int (off + sz))"
  unfolding mti_loop.simps Let_def assms(1-3) using assms(4,5) by (simp add: nat_int_add)

lemma write_at_append_zeros:
  assumes "length xs \<le> off" "off + length bs \<le> length xs + n"
  shows "write_at off bs (xs @ replicate n 0) =
     (xs @ replicate (off - length xs) 0 @ bs) @ replicate (length xs + n - (off + length bs)) 0"
  using assms by (simp add: write_at_def)

lemma lav2_steps:
  "mti_loop (0x0405 # ts) rpt ti 0 = mti_loop ts rpt (write_at 0 (read_at 64 32 rpt) ti) 32"
  "mti_loop (0x0304 # ts) rpt ti 32 = mti_loop ts rpt (write_at 32 (read_at 48 16 rpt) ti) 48"
  "mti_loop (0x0140 # ts) rpt ti 48 = mti_loop ts rpt (write_at 48 (read_at 20 1 rpt) ti) 49"
  "mti_loop (0x1041 # ts) rpt ti 49 = mti_loop ts rpt (write_at 50 (read_at 260 2 rpt) ti) 52"
  "mti_loop (0x0102 # ts) rpt ti 52 = mti_loop ts rpt (write_at 52 (read_at 16 4 rpt) ti) 56"
  "mti_loop (0x0C06 # ts) rpt ti 56 = mti_loop ts rpt (write_at 64 (read_at 192 64 rpt) ti) 128"
  using mti_step [of "0x0405" 32 0 0 64 ts rpt ti] mti_step [of "0x0304" 16 32 32 48 ts rpt ti]
    mti_step [of "0x0140" 1 48 48 20 ts rpt ti] mti_step [of "0x1041" 2 49 50 260 ts rpt ti]
    mti_step [of "0x0102" 4 52 52 16 ts rpt ti] mti_step [of "0x0C06" 64 56 64 192 ts rpt ti]
  by (simp_all del: mti_loop.simps)

lemma lav2_loop:
  assumes "length rpt = 432"
  shows "mti_loop [0x0405, 0x0304, 0x0140, 0x1041, 0x0102, 0x0C06] rpt target_info_default 0 =
    (Inr (), read_at 64 32 rpt @ read_at 48 16 rpt @ read_at 20 1 rpt @ [0] @ read_at 260 2 rpt
       @ read_at 16 4 rpt @ replicate 8 0 @ read_at 192 64 rpt @ replicate 384 0)"
proof -
  have len: "length (read_at a n rpt) = n" if "a + n \<le> 432" for a n
    using that assms by (simp add: read_at_def)
  have "write_at 0 (read_at 64 32 rpt) target_info_default = read_at 64 32 rpt @ replicate 480 0"
    using write_at_append_zeros [of "[]" 0 "read_at 64 32 rpt" 512] by (simp add: len)
  then show ?thesis
    by (simp only: lav2_steps mti_loop.simps(1)) (simp add: write_at_append_zeros len flip: append_assoc)
qed

lemma lav2_target_info_of:
  assumes "wf_report r"
  shows "make_target_info SGX_LAV2_PROTO_SPEC r target_info_default = (Inr (), target_info_of r)"
  unfolding make_target_info_def lav2_entries
  using lav2_loop [of "bytes_of_report r", unfolded report_reads [OF assms]] assms
  by (simp add: lav2_valid target_info_of_def Let_def del: mti_loop.simps)

text \<open>
  For any specification, also one a peer sent: the values of the \<open>i32\<close> variables stay below a
  hundred thousand, and every copy lies inside the report and inside the target information.
\<close>

lemma target_info_range:
  fixes t :: u16
  assumes "0 \<le> to" "to \<le> 512" and "sz = push_bit (unat (t AND 0xF)) 1" and "to' = (to + (sz - 1)) AND - sz"
  shows "1 \<le> sz" "sz \<le> 2 ^ 15" "0 \<le> to'" "to' + sz < 100000" "int (unat (drop_bit 4 t)) + sz < 100000"
proof -
  have "t AND 0xF \<le> 0xF" by (rule word_and_le1)
  then have k: "unat (t AND 0xF) \<le> 15" by (simp add: word_le_nat_alt)
  then show sz: "1 \<le> sz" "sz \<le> 2 ^ 15"
    using power_increasing [OF k, of "2 :: int"] by (simp_all add: assms(3))
  then show "0 \<le> to'" using assms(1) by (simp add: assms(4))
  have "to' \<le> to + (sz - 1)" using assms(1) sz by (simp add: assms(4) AND_upper1)
  then show "to' + sz < 100000" using sz assms(2) by simp
  have "unat (drop_bit 4 t) < 65536" using unsigned_less [of "drop_bit 4 t", where ?'a = nat] by simp
  then have "int (unat (drop_bit 4 t)) < 65536" by linarith
  with sz show "int (unat (drop_bit 4 t)) + sz < 100000" by simp
qed

lemma mti_loop_length:
  "length ti = 512 \<Longrightarrow> length rpt = 432 \<Longrightarrow> 0 \<le> to \<Longrightarrow> to \<le> 512 \<Longrightarrow> length (snd (mti_loop ts rpt ti to)) = 512"
proof (induction ts rpt ti to rule: mti_loop.induct)
  case (2 t ts rpt ti to)
  define sz :: int where "sz = push_bit (unat (t AND 0xF)) 1"
  define to' where "to' = (to + (sz - 1)) AND - sz"
  note r = target_info_range [OF 2(4,5) sz_def to'_def]
  have copy: "length (write_at (nat to') (read_at n (nat sz) rpt) ti) = 512"
    if "to' + sz \<le> 512" "int n + sz \<le> 432" for n
    using that r 2(2,3) by (subst length_write_at) (auto simp: in_buf_def read_at_def min_def)
  show ?case
    using 2(1) [OF sz_def to'_def _ refl] copy 2(2,3) r
    by (simp del: push_bit_of_1 add: Let_def flip: sz_def to'_def)
qed simp

section \<open>The third message\<close>

record SgxDhMsg3Body =
  m3_report :: sgx_report_t
  additional_prop :: slice

record SgxDhMsg3 =
  m3_cmac :: bytes
  msg3_body :: SgxDhMsg3Body

abbreviation dh_msg3_size :: nat where
  "dh_msg3_size \<equiv> 452"

definition SgxDhMsg3_new :: SgxDhMsg3 where
  "SgxDhMsg3_new = \<lparr> m3_cmac = replicate 16 0,
     msg3_body = \<lparr> m3_report = report_default, additional_prop = empty_box \<rparr> \<rparr>"

definition SgxDhMsg3_calc_raw_sealed_data_size :: "SgxDhMsg3 \<Rightarrow> u32" where
  "SgxDhMsg3_calc_raw_sealed_data_size self =
     (let additional_prop_len = sl_len (additional_prop (msg3_body self)) in
      if additional_prop_len > MAX32 - dh_msg3_size then u32_MAX
      else of_nat (dh_msg3_size + additional_prop_len))"

text \<open>
  The C image: MAC at 0, report at 16, length of the additional data at 448, the data from 452.  \<open>buf\<close>
  is the memory block at \<open>p\<close>.
\<close>

definition to_raw_dh_msg3_t ::
  "'z trts_ext_scheme \<Rightarrow> SgxDhMsg3 \<Rightarrow> u64 \<Rightarrow> u32 \<Rightarrow> bytes \<Rightarrow> bytes option outcome" where
  "to_raw_dh_msg3_t env self p len buf =
     (if p = 0 then Done None
      else if \<not> rsgx_raw_is_within_enclave env p (unat len) then Done None
      else
        let prop = sl_data (additional_prop (msg3_body self)); additional_prop_len = length prop in
        if additional_prop_len > MAX32 - dh_msg3_size then Done None
        else if len < of_nat (dh_msg3_size + additional_prop_len) then Done None
        else if \<not> in_buf 0 dh_msg3_size buf then Ub
        else
          let buf = write_at 0 (m3_cmac self) buf;
              buf = write_at 16 (bytes_of_report (m3_report (msg3_body self))) buf;
              buf = write_at 448 (le_bytes 4 (of_nat additional_prop_len :: u32)) buf in
          if additional_prop_len > 0 then
            if \<not> in_buf 0 (unat len) buf then Ub
            else if unat len - dh_msg3_size \<noteq> additional_prop_len then Panic
            else Done (Some (write_at dh_msg3_size prop buf))
          else Done (Some buf))"

definition from_raw_dh_msg3_t ::
  "'z trts_ext_scheme \<Rightarrow> (nat \<Rightarrow> u64) \<Rightarrow> u64 \<Rightarrow> u32 \<Rightarrow> bytes \<Rightarrow> SgxDhMsg3 option outcome" where
  "from_raw_dh_msg3_t env alloc p len buf =
     (if p = 0 then Done None
      else if \<not> rsgx_raw_is_within_enclave env p (unat len) then Done None
      else if \<not> in_buf 0 dh_msg3_size buf then Ub
      else
        let additional_prop_len = le_word (read_at 448 4 buf) :: u32 in
        if additional_prop_len > u32_MAX - of_nat dh_msg3_size then Done None
        else if len < of_nat dh_msg3_size + additional_prop_len then Done None
        else if additional_prop_len > 0 \<and> \<not> in_buf dh_msg3_size (unat additional_prop_len) buf then Ub
        else
          let prop = (if additional_prop_len > 0
                then \<lparr> sl_ptr = alloc (unat additional_prop_len),
                       sl_data = read_at dh_msg3_size (unat additional_prop_len) buf \<rparr>
                else empty_box) in
          Done (Some \<lparr> m3_cmac = read_at 0 16 buf,
            msg3_body = \<lparr> m3_report = report_of_bytes (read_at 16 432 buf), additional_prop = prop \<rparr> \<rparr>))"

definition wf_msg3 :: "SgxDhMsg3 \<Rightarrow> bool" where
  "wf_msg3 m \<longleftrightarrow> length (m3_cmac m) = 16 \<and> wf_report (m3_report (msg3_body m))
     \<and> (sl_data (additional_prop (msg3_body m)) = [] \<longrightarrow> additional_prop (msg3_body m) = empty_box)"

definition raw_msg3 :: "SgxDhMsg3 \<Rightarrow> bytes" where
  "raw_msg3 m = m3_cmac m @ bytes_of_report (m3_report (msg3_body m))
     @ le_bytes 4 (of_nat (sl_len (additional_prop (msg3_body m))) :: u32) @ sl_data (additional_prop (msg3_body m))"

lemma msg3_header_writes:
  assumes "wf_msg3 m" "dh_msg3_size \<le> length buf"
  shows "write_at 448 l4 (write_at 16 (bytes_of_report (m3_report (msg3_body m))) (write_at 0 (m3_cmac m) buf))
    = m3_cmac m @ bytes_of_report (m3_report (msg3_body m)) @ l4 @ drop (448 + length l4) buf"
  using assms by (simp add: wf_msg3_def write_at_def add.commute)

lemma to_raw_msg3:
  assumes "wf_msg3 m" "p \<noteq> 0" "rsgx_raw_is_within_enclave env p (unat len)" "length buf = unat len"
    and "dh_msg3_size + sl_len (additional_prop (msg3_body m)) \<le> unat len"
  shows "to_raw_dh_msg3_t env m p len buf =
    (if sl_data (additional_prop (msg3_body m)) \<noteq> [] \<and> unat len \<noteq> dh_msg3_size + sl_len (additional_prop (msg3_body m))
     then Panic else Done (Some (raw_msg3 m @ drop (dh_msg3_size + sl_len (additional_prop (msg3_body m))) buf)))"
proof -
  let ?bs = "sl_data (additional_prop (msg3_body m))"
  have max: "dh_msg3_size + length ?bs \<le> MAX32" using unat_u32_less [of len] assms(5) by simp
  then have "unat (of_nat (dh_msg3_size + length ?bs) :: u32) = dh_msg3_size + length ?bs"
    by (rule unat_of_nat_u32)
  then have "\<not> len < of_nat (dh_msg3_size + length ?bs)" using assms(5) by (simp add: word_less_nat_alt)
  moreover have "write_at dh_msg3_size ?bs (m3_cmac m @ bytes_of_report (m3_report (msg3_body m))
      @ le_bytes 4 l @ drop 452 buf) = m3_cmac m @ bytes_of_report (m3_report (msg3_body m)) @ le_bytes 4 l @ ?bs
      @ drop (452 + length ?bs) buf"
    for l :: u32
    using assms(1,4,5) by (simp add: wf_msg3_def write_at_def add.commute)
  ultimately show ?thesis
    using assms max
    by (simp add: to_raw_dh_msg3_t_def Let_def in_buf_def msg3_header_writes raw_msg3_def)
      (auto simp: wf_msg3_def)
qed

lemma raw_msg3_reads:
  assumes "wf_msg3 m"
  shows "read_at 0 16 (raw_msg3 m @ rest) = m3_cmac m"
    and "read_at 16 432 (raw_msg3 m @ rest) = bytes_of_report (m3_report (msg3_body m))"
    and "read_at 448 4 (raw_msg3 m @ rest) = le_bytes 4 (of_nat (sl_len (additional_prop (msg3_body m))) :: u32)"
    and "read_at dh_msg3_size (sl_len (additional_prop (msg3_body m))) (raw_msg3 m @ rest)
      = sl_data (additional_prop (msg3_body m))"
    and "length (raw_msg3 m) = dh_msg3_size + sl_len (additional_prop (msg3_body m))"
  using assms by (simp_all add: wf_msg3_def raw_msg3_def read_at_def)

text \<open>The message that reading an image gives: its additional data are in a new box.\<close>

definition reboxed :: "(nat \<Rightarrow> u64) \<Rightarrow> SgxDhMsg3 \<Rightarrow> SgxDhMsg3" where
  "reboxed alloc m =
     (let prop = additional_prop (msg3_body m) in
      m \<lparr> msg3_body := (msg3_body m) \<lparr> additional_prop :=
        (if sl_len prop > 0 then \<lparr> sl_ptr = alloc (sl_len prop), sl_data = sl_data prop \<rparr> else empty_box) \<rparr> \<rparr>)"

lemma from_raw_msg3:
  assumes "wf_msg3 m" "p \<noteq> 0" "rsgx_raw_is_within_enclave env p (unat len)"
    and "dh_msg3_size + sl_len (additional_prop (msg3_body m)) \<le> unat len"
  shows "from_raw_dh_msg3_t env alloc p len (raw_msg3 m @ rest) = Done (Some (reboxed alloc m))"
proof -
  define n where "n = sl_len (additional_prop (msg3_body m))"
  have n: "dh_msg3_size + n \<le> MAX32" using unat_u32_less [of len] assms(4) n_def by simp
  have un: "unat (of_nat n :: u32) = n" using n by (simp add: unat_of_nat_u32)
  have "unat (452 + of_nat n :: u32) = 452 + n"
    using n unat_add_u32 [of 452 "of_nat n"] un by simp
  then have le: "\<not> len < 452 + of_nat n" using assms(4) by (simp add: word_less_nat_alt n_def)
  have max: "\<not> of_nat n > (u32_MAX - 452 :: u32)"
    using n unat_u32_MAX_minus [of 452] by (simp add: word_less_nat_alt un)
  have pos: "(of_nat n :: u32) > 0 \<longleftrightarrow> n > 0" by (simp add: word_less_nat_alt un)
  have nil: "sl_data (additional_prop (msg3_body m)) = [] \<longleftrightarrow> n = 0" by (simp add: n_def)
  show ?thesis
    using assms(1-3) le max raw_msg3_reads [OF assms(1)]
    by (simp add: from_raw_dh_msg3_t_def in_buf_def Let_def pos un reboxed_def nil flip: n_def)
      (auto simp: wf_msg3_def)
qed

text \<open>
  The header is read before the length is looked at: a block inside the enclave that is shorter than
  the header is read past its end.
\<close>

lemma from_raw_short_block:
  assumes "p \<noteq> 0" "rsgx_raw_is_within_enclave env p (unat len)" "length buf = unat len" "unat len < dh_msg3_size"
  shows "from_raw_dh_msg3_t env alloc p len buf = Ub"
  using assms by (simp add: from_raw_dh_msg3_t_def in_buf_def)

section \<open>Correctness\<close>

text \<open>
  The program in the protocol specification is right.  Interpreting the six entries of
  \<open>SGX_LAV2_PROTO_SPEC\<close> over the bytes of any report succeeds, and the buffer it fills is the target
  information of the reporting enclave: measurement, attributes, CET attributes, configuration SVN,
  MISCSELECT and configuration id at the offsets of \<open>sgx_target_info_t\<close>, zero everywhere else.  So
  \<open>rsgx_self_target\<close> gives the target information of the running enclave.
\<close>

theorem lav2_target_info:
  assumes "wf_report r" "wf_report (sgx_self_report env)"
  shows "make_target_info SGX_LAV2_PROTO_SPEC r target_info_default = (Inr (), target_info_of r)
     \<and> rsgx_self_target env = Inr (target_info_of (sgx_self_report env))"
  using assms by (simp add: lav2_target_info_of rsgx_self_target_def rsgx_self_report_def)

lemma wf_model_report: "wf_report model_report"
  by (simp add: wf_report_def model_report_def)

theorem lav2_target_info_witness:
  "make_target_info SGX_LAV2_PROTO_SPEC model_report target_info_default = (Inr (), target_info_of model_report)
   \<and> rsgx_self_target model_crypto = Inr (target_info_of model_report)"
  using lav2_target_info [of model_report model_crypto] wf_model_report
  by (simp add: model_crypto_def model_env_def)


definition sample_msg3 :: SgxDhMsg3 where
  "sample_msg3 = \<lparr> m3_cmac = replicate 16 1, msg3_body = \<lparr> m3_report = model_report,
     additional_prop = \<lparr> sl_ptr = 0x2000, sl_data = [5, 6] \<rparr> \<rparr> \<rparr>"


end
