(* ===== verification/Tdh.thy ===== *)
theory Tdh
  imports Tdh_Target
begin

text \<open>
  \<open>sgx_tdh\<close> (dh.rs, ecp.rs): the two ends of a Diffie-Hellman session between enclaves of one machine.
  The methods of \<open>SgxDhResponder\<close> and \<open>SgxDhInitiator\<close> work on the objects their caller passes by
  reference; those objects, the state of the C library and the local handles of the running method
  are the state \<open>dh_vars\<close>.  The feature \<open>use_lav2\<close>, which selects one of two variants of each message,
  is an argument.
\<close>

section \<open>Data\<close>

record SgxDhMsg1 =
  g_a :: bytes
  m1_target :: bytes

record SgxDhMsg2 =
  g_b :: bytes
  m2_report :: sgx_report_t
  m2_cmac :: bytes

datatype SgxDhSessionState =
  SGX_DH_SESSION_STATE_ERROR | SGX_DH_SESSION_STATE_RESET | SGX_DH_SESSION_RESPONDER_WAIT_M2
| SGX_DH_SESSION_INITIATOR_WAIT_M1 | SGX_DH_SESSION_INITIATOR_WAIT_M3 | SGX_DH_SESSION_ACTIVE

record sgx_dh_session_enclave_identity_t =
  id_cpu_svn :: bytes
  id_misc_select :: u32
  id_reserved_1 :: bytes
  id_attributes :: sgx_attributes_t
  id_mr_enclave :: bytes
  id_reserved_2 :: bytes
  id_mr_signer :: bytes
  id_reserved_3 :: bytes
  id_isv_prod_id :: u16
  id_isv_svn :: u16

record SgxDhResponder =
  r_state :: SgxDhSessionState
  r_prv_key :: bytes
  r_pub_key :: bytes
  r_smk_aek :: bytes
  r_shared_key :: bytes

record SgxDhInitiator =
  i_state :: SgxDhSessionState
  i_smk_aek :: bytes
  i_pub_key :: bytes
  i_peer_pub_key :: bytes
  i_shared_key :: bytes

definition SgxDhResponder_default :: SgxDhResponder where
  "SgxDhResponder_default =
     \<lparr> r_state = SGX_DH_SESSION_STATE_RESET, r_prv_key = replicate 32 0, r_pub_key = replicate 64 0,
       r_smk_aek = replicate 16 0, r_shared_key = replicate 32 0 \<rparr>"

definition SgxDhInitiator_default :: SgxDhInitiator where
  "SgxDhInitiator_default =
     \<lparr> i_state = SGX_DH_SESSION_INITIATOR_WAIT_M1, i_smk_aek = replicate 16 0, i_pub_key = replicate 64 0,
       i_peer_pub_key = replicate 64 0, i_shared_key = replicate 32 0 \<rparr>"

definition SgxDhResponder_init_session :: SgxDhResponder where
  "SgxDhResponder_init_session = SgxDhResponder_default"

definition SgxDhInitiator_init_session :: SgxDhInitiator where
  "SgxDhInitiator_init_session = SgxDhInitiator_default"

text \<open>
  The objects of a session in the memory of one enclave, and the rest of the state.  A \<open>dh_place\<close>
  says where the objects are; the sizes of the two Rust structs without a fixed layout are among its
  fields.
\<close>

record dh_mem =
  v_resp :: SgxDhResponder
  v_init :: SgxDhInitiator
  v_msg1 :: SgxDhMsg1
  v_msg2 :: SgxDhMsg2
  v_msg3 :: SgxDhMsg3
  v_aek :: bytes
  v_ident :: sgx_dh_session_enclave_identity_t

record 'c dh_vars = dh_mem +
  lib :: 'c
  v_sha :: SgxShaHandle
  v_cmac :: SgxCmacHandle
  v_ecc :: SgxEccHandle

record dh_place =
  a_self :: u64
  sz_self :: nat
  a_msg1 :: u64
  a_msg2 :: u64
  a_msg3 :: u64
  sz_msg3 :: nat
  a_aek :: u64
  a_ident :: u64

section \<open>Statements\<close>

text \<open>
  \<open>rread\<close> and \<open>rmodify\<close> read and assign variables; \<open>on_sha\<close>, \<open>on_cmac\<close> and \<open>on_ecc\<close> call a method of a
  local handle, and \<open>with_sha\<close>, \<open>with_cmac\<close>, \<open>with_ecc\<close> are the scope of one, from \<open>new()\<close> to the
  destructor.
\<close>

definition rread :: "('s \<Rightarrow> 'a) \<Rightarrow> ('s, 'a) stateful" where
  "rread f s = (Inr (f s), s)"

definition rmodify :: "('s \<Rightarrow> 's) \<Rightarrow> ('s, unit) stateful" where
  "rmodify f s = (Inr (), f s)"

definition on_sha :: "(SgxShaHandle \<times> 'c, 'a) stateful \<Rightarrow> ('c dh_vars, 'a) stateful" where
  "on_sha m s = (case m (v_sha s, lib s) of (r, h, c) \<Rightarrow> (r, s \<lparr> v_sha := h, lib := c \<rparr>))"

definition on_cmac :: "(SgxCmacHandle \<times> 'c, 'a) stateful \<Rightarrow> ('c dh_vars, 'a) stateful" where
  "on_cmac m s = (case m (v_cmac s, lib s) of (r, h, c) \<Rightarrow> (r, s \<lparr> v_cmac := h, lib := c \<rparr>))"

definition on_ecc :: "(SgxEccHandle \<times> 'c, 'a) stateful \<Rightarrow> ('c dh_vars, 'a) stateful" where
  "on_ecc m s = (case m (v_ecc s, lib s) of (r, h, c) \<Rightarrow> (r, s \<lparr> v_ecc := h, lib := c \<rparr>))"

definition with_sha :: "('c, 'z) thandle_ext_scheme \<Rightarrow> ('c dh_vars, 'a) stateful \<Rightarrow> ('c dh_vars, 'a) stateful" where
  "with_sha env m s =
     (case m (s \<lparr> v_sha := SgxShaHandle_new \<rparr>) of (r, t) \<Rightarrow>
      case SgxShaHandle_drop env (v_sha t, lib t) of (h, c) \<Rightarrow> (r, t \<lparr> v_sha := h, lib := c \<rparr>))"

definition with_cmac :: "('c, 'z) thandle_ext_scheme \<Rightarrow> ('c dh_vars, 'a) stateful \<Rightarrow> ('c dh_vars, 'a) stateful" where
  "with_cmac env m s =
     (case m (s \<lparr> v_cmac := SgxCmacHandle_new \<rparr>) of (r, t) \<Rightarrow>
      case SgxCmacHandle_drop env (v_cmac t, lib t) of (h, c) \<Rightarrow> (r, t \<lparr> v_cmac := h, lib := c \<rparr>))"

definition with_ecc :: "('c, 'z) thandle_ext_scheme \<Rightarrow> ('c dh_vars, 'a) stateful \<Rightarrow> ('c dh_vars, 'a) stateful" where
  "with_ecc env m s =
     (case m (s \<lparr> v_ecc := SgxEccHandle_new \<rparr>) of (r, t) \<Rightarrow>
      case SgxEccHandle_drop env (v_ecc t, lib t) of (h, c) \<Rightarrow> (r, t \<lparr> v_ecc := h, lib := c \<rparr>))"

section \<open>Key derivation (ecp.rs)\<close>

definition EC_SMK_LABEL :: bytes where "EC_SMK_LABEL = [0x53, 0x4D, 0x4B]"
definition EC_AEK_LABEL :: bytes where "EC_AEK_LABEL = [0x41, 0x45, 0x4B]"

definition ecp_set_error :: "sgx_status_t \<Rightarrow> sgx_status_t" where
  "ecp_set_error sgx_ret =
     (if sgx_ret = SGX_ERROR_OUT_OF_MEMORY then SGX_ERROR_OUT_OF_MEMORY else SGX_ERROR_UNEXPECTED)"

definition derive_key :: "'z tcrypto_ext_scheme \<Rightarrow> bytes \<Rightarrow> bytes \<Rightarrow> bytes SgxResult" where
  "derive_key env shared_key label =
     (let cmac_key = replicate 16 0 in
      res_bind (map_err ecp_set_error (rsgx_rijndael128_cmac_msg env cmac_key shared_key)) (\<lambda>key_derive_key.
        let derivation_buffer = [0x01, label ! 0, label ! 1, label ! 2, 0x00, 0x80, 0x00] in
        map_err ecp_set_error (rsgx_rijndael128_align_cmac_slice env key_derive_key derivation_buffer)))"

section \<open>Responder\<close>

definition AES_CMAC_KDF_ID :: bytes where "AES_CMAC_KDF_ID = [1, 0]"

definition SgxDhResponder_dh_generate_message1 :: "('c, 'z) thandle_ext_scheme \<Rightarrow> ('c dh_vars, unit) stateful" where
  "SgxDhResponder_dh_generate_message1 env =
     rtry (rmodify (\<lambda>s. s \<lparr> v_msg1 := \<lparr> g_a = replicate 64 0, m1_target = target_info_default \<rparr> \<rparr>)) (\<lambda>_.
     rtry (rreturn (rsgx_create_report env target_info_default report_data_default)) (\<lambda>report.
     case make_target_info SGX_LAV2_PROTO_SPEC report target_info_default of (r, target) \<Rightarrow>
     rtry (rreturn r) (\<lambda>_.
     with_ecc env (
       rtry (on_ecc (SgxEccHandle_open env)) (\<lambda>_.
       rtry (on_ecc (SgxEccHandle_create_align_key_pair env)) (\<lambda>(prv_key, pub_key).
       rmodify (\<lambda>s. s \<lparr> v_resp := (v_resp s) \<lparr> r_prv_key := prv_key, r_pub_key := pub_key \<rparr>,
         v_msg1 := \<lparr> g_a = pub_key, m1_target = target \<rparr> \<rparr>)))))))"

definition SgxDhResponder_dh_verify_message2 ::
  "('c, 'z) thandle_ext_scheme \<Rightarrow> SgxDhMsg2 \<Rightarrow> ('c dh_vars, unit) stateful" where
  "SgxDhResponder_dh_verify_message2 env msg2 =
     rtry (rread v_resp) (\<lambda>self.
     let d = rb_report_data (report_body (m2_report msg2)); kdf_id = take 2 (drop 32 d); data_hash = take 32 d in
     if kdf_id \<noteq> AES_CMAC_KDF_ID then rreturn (Inl SGX_ERROR_KDF_MISMATCH)
     else
       let report = m2_report msg2 in
       rtry (rreturn (rsgx_rijndael128_cmac_msg env (r_smk_aek self) (bytes_of_report report))) (\<lambda>data_mac.
       if \<not> consttime_memeq data_mac (m2_cmac msg2) then rreturn (Inl SGX_ERROR_MAC_MISMATCH)
       else
         rtry (rreturn (rsgx_verify_report env report)) (\<lambda>_.
         with_sha env (
           rtry (on_sha (SgxShaHandle_init env)) (\<lambda>_.
           rtry (on_sha (SgxShaHandle_update_msg env (r_pub_key self))) (\<lambda>_.
           rtry (on_sha (SgxShaHandle_update_msg env (g_b msg2))) (\<lambda>_.
           rtry (on_sha (SgxShaHandle_get_hash env)) (\<lambda>msg_hash.
           rreturn (if msg_hash \<noteq> data_hash then Inl SGX_ERROR_MAC_MISMATCH else Inr ())))))))))"

definition SgxDhResponder_lav2_verify_message2 ::
  "('c, 'z) thandle_ext_scheme \<Rightarrow> SgxDhMsg2 \<Rightarrow> ('c dh_vars, unit) stateful" where
  "SgxDhResponder_lav2_verify_message2 env msg2 =
     rtry (rread v_resp) (\<lambda>self.
     let d = rb_report_data (report_body (m2_report msg2)) in
     with_sha env (
       rtry (on_sha (SgxShaHandle_init env)) (\<lambda>_.
       rtry (on_sha (SgxShaHandle_update_msg env d)) (\<lambda>_.
       rtry (on_sha (SgxShaHandle_update_msg env (g_b msg2))) (\<lambda>_.
       rtry (on_sha (SgxShaHandle_get_hash env)) (\<lambda>msg_hash.
       let report = (m2_report msg2) \<lparr> report_body := (report_body (m2_report msg2))
             \<lparr> rb_report_data := write_at 0 msg_hash report_data_default \<rparr> \<rparr> in
       rtry (rreturn (rsgx_verify_report env report)) (\<lambda>_.
       rtry (rreturn (rsgx_rijndael128_cmac_msg env (r_smk_aek self) (g_b msg2))) (\<lambda>data_mac.
       if \<not> consttime_memeq data_mac (m2_cmac msg2) then rreturn (Inl SGX_ERROR_MAC_MISMATCH)
       else
         let proto_spec = from_report_data d in
         rreturn (if ps_signature proto_spec \<noteq> ps_signature SGX_LAV2_PROTO_SPEC
               \<or> ps_ver proto_spec \<noteq> ps_ver SGX_LAV2_PROTO_SPEC
           then Inl SGX_ERROR_UNEXPECTED else Inr ())))))))))"

definition SgxDhResponder_dh_generate_message3 ::
  "('c, 'z) thandle_ext_scheme \<Rightarrow> SgxDhMsg2 \<Rightarrow> ('c dh_vars, unit) stateful" where
  "SgxDhResponder_dh_generate_message3 env msg2 =
     rtry (rread v_resp) (\<lambda>self.
     rtry (rmodify (\<lambda>s. s \<lparr> v_msg3 := (v_msg3 s) \<lparr> m3_cmac := replicate 16 0,
         msg3_body := (msg3_body (v_msg3 s)) \<lparr> m3_report := report_default \<rparr> \<rparr> \<rparr>)) (\<lambda>_.
     with_sha env (
       rtry (on_sha (SgxShaHandle_init env)) (\<lambda>_.
       rtry (on_sha (SgxShaHandle_update_msg env (g_b msg2))) (\<lambda>_.
       rtry (on_sha (SgxShaHandle_update_msg env (r_pub_key self))) (\<lambda>_.
       rtry (on_sha (SgxShaHandle_get_hash env)) (\<lambda>msg_hash.
       let report_data = write_at 0 msg_hash report_data_default in
       case make_target_info SGX_LAV2_PROTO_SPEC (m2_report msg2) target_info_default of (r, target) \<Rightarrow>
       rtry (rreturn r) (\<lambda>_.
       rtry (rreturn (rsgx_create_report env target report_data)) (\<lambda>report.
       rtry (rmodify (\<lambda>s. s \<lparr> v_msg3 := (v_msg3 s) \<lparr>
           msg3_body := (msg3_body (v_msg3 s)) \<lparr> m3_report := report \<rparr> \<rparr> \<rparr>)) (\<lambda>_.
       rtry (rread (\<lambda>s. sl_data (additional_prop (msg3_body (v_msg3 s))))) (\<lambda>prop.
       let add_prop_len = of_nat (length prop) :: u32 in
       with_cmac env (
         rtry (on_cmac (SgxCmacHandle_init env (r_smk_aek self))) (\<lambda>_.
         rtry (on_cmac (SgxCmacHandle_update_msg env (bytes_of_report report))) (\<lambda>_.
         rtry (on_cmac (SgxCmacHandle_update_msg env (le_bytes 4 add_prop_len))) (\<lambda>_.
         rtry (if add_prop_len > 0 then on_cmac (SgxCmacHandle_update_slice env prop) else rreturn (Inr ())) (\<lambda>_.
         rtry (on_cmac (SgxCmacHandle_get_hash env)) (\<lambda>mac.
         rmodify (\<lambda>s. s \<lparr> v_msg3 := (v_msg3 s) \<lparr> m3_cmac := mac \<rparr> \<rparr>))))))))))))))))))"

definition SgxDhResponder_lav2_generate_message3 ::
  "('c, 'z) thandle_ext_scheme \<Rightarrow> SgxDhMsg2 \<Rightarrow> ('c dh_vars, unit) stateful" where
  "SgxDhResponder_lav2_generate_message3 env msg2 =
     rtry (rread v_resp) (\<lambda>self.
     rtry (rmodify (\<lambda>s. s \<lparr> v_msg3 := (v_msg3 s) \<lparr> m3_cmac := replicate 16 0,
         msg3_body := (msg3_body (v_msg3 s)) \<lparr> m3_report := report_default \<rparr> \<rparr> \<rparr>)) (\<lambda>_.
     let proto_spec = from_report_data (rb_report_data (report_body (m2_report msg2))) in
     with_sha env (
       rtry (on_sha (SgxShaHandle_init env)) (\<lambda>_.
       rtry (on_sha (SgxShaHandle_update_msg env (r_pub_key self))) (\<lambda>_.
       rtry (on_sha (SgxShaHandle_update_msg env (to_report_data proto_spec))) (\<lambda>_.
       rtry (on_sha (SgxShaHandle_get_hash env)) (\<lambda>msg_hash.
       let report_data = write_at 0 msg_hash report_data_default in
       case make_target_info SGX_LAV2_PROTO_SPEC (m2_report msg2) target_info_default of (r, target) \<Rightarrow>
       rtry (rreturn r) (\<lambda>_.
       rtry (rreturn (rsgx_create_report env target report_data)) (\<lambda>report.
       rtry (rmodify (\<lambda>s. s \<lparr> v_msg3 := (v_msg3 s) \<lparr>
           msg3_body := (msg3_body (v_msg3 s)) \<lparr> m3_report := report \<rparr> \<rparr> \<rparr>)) (\<lambda>_.
       rtry (rread (\<lambda>s. sl_data (additional_prop (msg3_body (v_msg3 s))))) (\<lambda>prop.
       with_cmac env (
         rtry (on_cmac (SgxCmacHandle_init env (r_smk_aek self))) (\<lambda>_.
         rtry (if length prop > 0 then on_cmac (SgxCmacHandle_update_slice env prop) else rreturn (Inr ())) (\<lambda>_.
         rtry (on_cmac (SgxCmacHandle_update_msg env (r_pub_key self))) (\<lambda>_.
         rtry (on_cmac (SgxCmacHandle_get_hash env)) (\<lambda>mac.
         rmodify (\<lambda>s. s \<lparr> v_msg3 := (v_msg3 s) \<lparr> m3_cmac := mac \<rparr> \<rparr>)))))))))))))))))"

definition SgxDhResponder_set_error :: "SgxDhResponder \<Rightarrow> sgx_status_t \<Rightarrow> sgx_status_t \<times> SgxDhResponder" where
  "SgxDhResponder_set_error self sgx_ret =
     (if sgx_ret = SGX_ERROR_OUT_OF_MEMORY then SGX_ERROR_OUT_OF_MEMORY
      else if sgx_ret = SGX_ERROR_KDF_MISMATCH then SGX_ERROR_KDF_MISMATCH
      else SGX_ERROR_UNEXPECTED,
      SgxDhResponder_default \<lparr> r_state := SGX_DH_SESSION_STATE_ERROR \<rparr>)"

text \<open>\<open>m.map_err(|ret| self.set_error(ret))\<close>\<close>

definition resp_try :: "('c dh_vars, 'a) stateful \<Rightarrow> ('c dh_vars, 'a) stateful" where
  "resp_try m s = (case m s of
     (Inl e, t) \<Rightarrow> (case SgxDhResponder_set_error (v_resp t) e of (e', self) \<Rightarrow> (Inl e', t \<lparr> v_resp := self \<rparr>))
   | (Inr a, t) \<Rightarrow> (Inr a, t))"

definition SgxDhResponder_gen_msg1 :: "('c, 'z) thandle_ext_scheme \<Rightarrow> dh_place \<Rightarrow> ('c dh_vars, unit) stateful" where
  "SgxDhResponder_gen_msg1 env pl s =
     (if \<not> rsgx_data_is_within_enclave env (a_self pl) (sz_self pl) then (Inl SGX_ERROR_INVALID_PARAMETER, s)
      else if \<not> rsgx_data_is_within_enclave env (a_msg1 pl) 576 then (Inl SGX_ERROR_INVALID_PARAMETER, s)
      else if r_state (v_resp s) \<noteq> SGX_DH_SESSION_STATE_RESET
        then (Inl SGX_ERROR_INVALID_STATE, s \<lparr> v_resp := SgxDhResponder_default \<rparr>)
      else case SgxDhResponder_dh_generate_message1 env s of
        (Inl ret, t) \<Rightarrow>
          (Inl (if ret \<noteq> SGX_ERROR_OUT_OF_MEMORY then SGX_ERROR_UNEXPECTED else ret),
           t \<lparr> v_resp := SgxDhResponder_default \<rparr>)
      | (Inr _, t) \<Rightarrow> (Inr (), t \<lparr> v_resp := (v_resp t) \<lparr> r_state := SGX_DH_SESSION_RESPONDER_WAIT_M2 \<rparr> \<rparr>))"

definition SgxDhResponder_proc_msg2 ::
  "('c, 'z) thandle_ext_scheme \<Rightarrow> bool \<Rightarrow> dh_place \<Rightarrow> SgxDhMsg2 \<Rightarrow> ('c dh_vars, unit) stateful" where
  "SgxDhResponder_proc_msg2 env use_lav2 pl msg2 s =
     (let failed = SgxDhResponder_default \<lparr> r_state := SGX_DH_SESSION_STATE_ERROR \<rparr>;
          prop = additional_prop (msg3_body (v_msg3 s)) in
      if \<not> rsgx_data_is_within_enclave env (a_self pl) (sz_self pl) then (Inl SGX_ERROR_INVALID_PARAMETER, s)
      else if \<not> rsgx_data_is_within_enclave env (a_msg2 pl) 512
           \<or> \<not> rsgx_data_is_within_enclave env (a_aek pl) 16
           \<or> \<not> rsgx_data_is_within_enclave env (a_ident pl) 260
           \<or> \<not> rsgx_raw_is_within_enclave env (a_msg3 pl) (sz_msg3 pl)
        then (Inl SGX_ERROR_INVALID_PARAMETER, s \<lparr> v_resp := failed \<rparr>)
      else if sl_len prop > 0 \<and> (\<not> rsgx_slice_is_within_enclave env prop \<or> sl_len prop > MAX32 - dh_msg3_size)
        then (Inl SGX_ERROR_INVALID_PARAMETER, s \<lparr> v_resp := failed \<rparr>)
      else if r_state (v_resp s) \<noteq> SGX_DH_SESSION_RESPONDER_WAIT_M2
        then (Inl SGX_ERROR_INVALID_STATE, s \<lparr> v_resp := failed \<rparr>)
      else
        with_ecc env (
          rtry (resp_try (on_ecc (SgxEccHandle_open env))) (\<lambda>_.
          rtry (rread v_resp) (\<lambda>self.
          rtry (resp_try (on_ecc (SgxEccHandle_compute_align_shared_dhkey env (r_prv_key self) (g_b msg2)))) (\<lambda>shared_key.
          rtry (rmodify (\<lambda>s. s \<lparr> v_resp := (v_resp s) \<lparr> r_shared_key := shared_key \<rparr> \<rparr>)) (\<lambda>_.
          rtry (resp_try (rreturn (derive_key env shared_key EC_SMK_LABEL))) (\<lambda>smk_aek.
          rtry (rmodify (\<lambda>s. s \<lparr> v_resp := (v_resp s) \<lparr> r_smk_aek := smk_aek \<rparr> \<rparr>)) (\<lambda>_.
          rtry (resp_try (if use_lav2 then SgxDhResponder_lav2_verify_message2 env msg2
                          else SgxDhResponder_dh_verify_message2 env msg2)) (\<lambda>_.
          rtry (rmodify (\<lambda>s. s \<lparr> v_ident := (let b = report_body (m2_report msg2) in (v_ident s)
             \<lparr> id_isv_svn := rb_isv_svn b, id_isv_prod_id := rb_isv_prod_id b, id_attributes := rb_attributes b,
               id_mr_signer := rb_mr_signer b, id_mr_enclave := rb_mr_enclave b \<rparr>) \<rparr>)) (\<lambda>_.
          rtry (resp_try (if use_lav2 then SgxDhResponder_lav2_generate_message3 env msg2
                          else SgxDhResponder_dh_generate_message3 env msg2)) (\<lambda>_.
          rtry (rread v_resp) (\<lambda>self.
          rtry (resp_try (rreturn (derive_key env (r_shared_key self) EC_AEK_LABEL))) (\<lambda>align_aek.
          rmodify (\<lambda>s. s \<lparr> v_aek := align_aek,
            v_resp := SgxDhResponder_default \<lparr> r_state := SGX_DH_SESSION_ACTIVE \<rparr> \<rparr>))))))))))))) s)"

section \<open>Initiator\<close>

definition SgxDhInitiator_dh_generate_message2 ::
  "('c, 'z) thandle_ext_scheme \<Rightarrow> SgxDhMsg1 \<Rightarrow> ('c dh_vars, unit) stateful" where
  "SgxDhInitiator_dh_generate_message2 env msg1 =
     rtry (rread v_init) (\<lambda>self.
     rtry (rmodify (\<lambda>s. s \<lparr> v_msg2 := \<lparr> g_b = i_pub_key self, m2_report = report_default,
         m2_cmac = replicate 16 0 \<rparr> \<rparr>)) (\<lambda>_.
     with_sha env (
       rtry (on_sha (SgxShaHandle_init env)) (\<lambda>_.
       rtry (on_sha (SgxShaHandle_update_msg env (g_a msg1))) (\<lambda>_.
       rtry (on_sha (SgxShaHandle_update_msg env (i_pub_key self))) (\<lambda>_.
       rtry (on_sha (SgxShaHandle_get_hash env)) (\<lambda>msg_hash.
       let report_data = write_at 32 AES_CMAC_KDF_ID (write_at 0 msg_hash report_data_default) in
       rtry (rreturn (rsgx_create_report env (m1_target msg1) report_data)) (\<lambda>report.
       rtry (rmodify (\<lambda>s. s \<lparr> v_msg2 := (v_msg2 s) \<lparr> m2_report := report \<rparr> \<rparr>)) (\<lambda>_.
       rtry (rreturn (rsgx_rijndael128_cmac_msg env (i_smk_aek self) (bytes_of_report report))) (\<lambda>mac.
       rmodify (\<lambda>s. s \<lparr> v_msg2 := (v_msg2 s) \<lparr> m2_cmac := mac \<rparr> \<rparr>)))))))))))"

definition SgxDhInitiator_lav2_generate_message2 ::
  "('c, 'z) thandle_ext_scheme \<Rightarrow> SgxDhMsg1 \<Rightarrow> ('c dh_vars, unit) stateful" where
  "SgxDhInitiator_lav2_generate_message2 env msg1 =
     rtry (rread v_init) (\<lambda>self.
     rtry (rmodify (\<lambda>s. s \<lparr> v_msg2 := \<lparr> g_b = i_pub_key self, m2_report = report_default,
         m2_cmac = replicate 16 0 \<rparr> \<rparr>)) (\<lambda>_.
     with_sha env (
       rtry (on_sha (SgxShaHandle_init env)) (\<lambda>_.
       rtry (on_sha (SgxShaHandle_update_msg env (to_report_data SGX_LAV2_PROTO_SPEC))) (\<lambda>_.
       rtry (on_sha (SgxShaHandle_update_msg env (i_pub_key self))) (\<lambda>_.
       rtry (on_sha (SgxShaHandle_get_hash env)) (\<lambda>msg_hash.
       let report_data = write_at 0 msg_hash report_data_default in
       rtry (rreturn (rsgx_create_report env (m1_target msg1) report_data)) (\<lambda>report.
       let report = report \<lparr> report_body := (report_body report)
             \<lparr> rb_report_data := to_report_data SGX_LAV2_PROTO_SPEC \<rparr> \<rparr> in
       rtry (rmodify (\<lambda>s. s \<lparr> v_msg2 := (v_msg2 s) \<lparr> m2_report := report \<rparr> \<rparr>)) (\<lambda>_.
       rtry (rreturn (rsgx_rijndael128_cmac_msg env (i_smk_aek self) (i_pub_key self))) (\<lambda>mac.
       rmodify (\<lambda>s. s \<lparr> v_msg2 := (v_msg2 s) \<lparr> m2_cmac := mac \<rparr> \<rparr>)))))))))))"

definition SgxDhInitiator_dh_verify_message3 ::
  "('c, 'z) thandle_ext_scheme \<Rightarrow> SgxDhMsg3 \<Rightarrow> ('c dh_vars, unit) stateful" where
  "SgxDhInitiator_dh_verify_message3 env msg3 =
     rtry (rread v_init) (\<lambda>self.
     let prop = sl_data (additional_prop (msg3_body msg3)); add_prop_len = of_nat (length prop) :: u32;
         report = m3_report (msg3_body msg3) in
     with_cmac env (
       rtry (on_cmac (SgxCmacHandle_init env (i_smk_aek self))) (\<lambda>_.
       rtry (on_cmac (SgxCmacHandle_update_msg env (bytes_of_report report))) (\<lambda>_.
       rtry (on_cmac (SgxCmacHandle_update_msg env (le_bytes 4 add_prop_len))) (\<lambda>_.
       rtry (if add_prop_len > 0 then on_cmac (SgxCmacHandle_update_slice env prop) else rreturn (Inr ())) (\<lambda>_.
       rtry (on_cmac (SgxCmacHandle_get_hash env)) (\<lambda>data_mac.
       if \<not> consttime_memeq data_mac (m3_cmac msg3) then rreturn (Inl SGX_ERROR_MAC_MISMATCH)
       else
         rtry (rreturn (rsgx_verify_report env report)) (\<lambda>_.
         with_sha env (
           rtry (on_sha (SgxShaHandle_init env)) (\<lambda>_.
           rtry (on_sha (SgxShaHandle_update_msg env (i_pub_key self))) (\<lambda>_.
           rtry (on_sha (SgxShaHandle_update_msg env (i_peer_pub_key self))) (\<lambda>_.
           rtry (on_sha (SgxShaHandle_get_hash env)) (\<lambda>msg_hash.
           let data_hash = take 32 (rb_report_data (report_body report)) in
           rreturn (if msg_hash \<noteq> data_hash then Inl SGX_ERROR_MAC_MISMATCH else Inr ()))))))))))))))"

definition SgxDhInitiator_lav2_verify_message3 ::
  "('c, 'z) thandle_ext_scheme \<Rightarrow> SgxDhMsg3 \<Rightarrow> ('c dh_vars, unit) stateful" where
  "SgxDhInitiator_lav2_verify_message3 env msg3 =
     rtry (rread v_init) (\<lambda>self.
     let prop = sl_data (additional_prop (msg3_body msg3)) in
     with_sha env (
       rtry (on_sha (SgxShaHandle_init env)) (\<lambda>_.
       rtry (on_sha (SgxShaHandle_update_msg env (i_peer_pub_key self))) (\<lambda>_.
       rtry (on_sha (SgxShaHandle_update_msg env (to_report_data SGX_LAV2_PROTO_SPEC))) (\<lambda>_.
       rtry (on_sha (SgxShaHandle_get_hash env)) (\<lambda>msg_hash.
       let report = (m3_report (msg3_body msg3)) \<lparr> report_body := (report_body (m3_report (msg3_body msg3)))
             \<lparr> rb_report_data := write_at 0 msg_hash report_data_default \<rparr> \<rparr> in
       if rb_report_data (report_body report) \<noteq> rb_report_data (report_body (m3_report (msg3_body msg3)))
         then rreturn (Inl SGX_ERROR_UNEXPECTED)
       else
         rtry (rreturn (rsgx_verify_report env report)) (\<lambda>_.
         with_cmac env (
           rtry (on_cmac (SgxCmacHandle_init env (i_smk_aek self))) (\<lambda>_.
           rtry (if length prop > 0 then on_cmac (SgxCmacHandle_update_slice env prop) else rreturn (Inr ())) (\<lambda>_.
           rtry (on_cmac (SgxCmacHandle_update_msg env (i_peer_pub_key self))) (\<lambda>_.
           rtry (on_cmac (SgxCmacHandle_get_hash env)) (\<lambda>data_mac.
           rreturn (if \<not> consttime_memeq data_mac (m3_cmac msg3) then Inl SGX_ERROR_MAC_MISMATCH else Inr ())))))))))))))"

definition SgxDhInitiator_set_error :: "SgxDhInitiator \<Rightarrow> sgx_status_t \<Rightarrow> sgx_status_t \<times> SgxDhInitiator" where
  "SgxDhInitiator_set_error self sgx_ret =
     (if sgx_ret = SGX_ERROR_OUT_OF_MEMORY then SGX_ERROR_OUT_OF_MEMORY else SGX_ERROR_UNEXPECTED,
      SgxDhInitiator_default \<lparr> i_state := SGX_DH_SESSION_STATE_ERROR \<rparr>)"

definition init_try :: "('c dh_vars, 'a) stateful \<Rightarrow> ('c dh_vars, 'a) stateful" where
  "init_try m s = (case m s of
     (Inl e, t) \<Rightarrow> (case SgxDhInitiator_set_error (v_init t) e of (e', self) \<Rightarrow> (Inl e', t \<lparr> v_init := self \<rparr>))
   | (Inr a, t) \<Rightarrow> (Inr a, t))"

definition SgxDhInitiator_proc_msg1 ::
  "('c, 'z) thandle_ext_scheme \<Rightarrow> bool \<Rightarrow> dh_place \<Rightarrow> SgxDhMsg1 \<Rightarrow> ('c dh_vars, unit) stateful" where
  "SgxDhInitiator_proc_msg1 env use_lav2 pl msg1 s =
     (let failed = SgxDhInitiator_default \<lparr> i_state := SGX_DH_SESSION_STATE_ERROR \<rparr> in
      if \<not> rsgx_data_is_within_enclave env (a_self pl) (sz_self pl) then (Inl SGX_ERROR_INVALID_PARAMETER, s)
      else if \<not> rsgx_data_is_within_enclave env (a_msg1 pl) 576 \<or> \<not> rsgx_data_is_within_enclave env (a_msg2 pl) 512
        then (Inl SGX_ERROR_INVALID_PARAMETER, s \<lparr> v_init := failed \<rparr>)
      else if i_state (v_init s) \<noteq> SGX_DH_SESSION_INITIATOR_WAIT_M1
        then (Inl SGX_ERROR_INVALID_STATE, s \<lparr> v_init := failed \<rparr>)
      else
        with_ecc env (
          rtry (init_try (on_ecc (SgxEccHandle_open env))) (\<lambda>_.
          rtry (init_try (on_ecc (SgxEccHandle_create_align_key_pair env))) (\<lambda>(prv_key, pub_key).
          rtry (init_try (on_ecc (SgxEccHandle_compute_align_shared_dhkey env prv_key (g_a msg1)))) (\<lambda>shared_key.
          rtry (rmodify (\<lambda>s. s \<lparr> v_init := (v_init s) \<lparr> i_shared_key := shared_key, i_pub_key := pub_key \<rparr> \<rparr>)) (\<lambda>_.
          rtry (init_try (rreturn (derive_key env shared_key EC_SMK_LABEL))) (\<lambda>smk_aek.
          rtry (rmodify (\<lambda>s. s \<lparr> v_init := (v_init s) \<lparr> i_smk_aek := smk_aek \<rparr> \<rparr>)) (\<lambda>_.
          rtry (init_try (if use_lav2 then SgxDhInitiator_lav2_generate_message2 env msg1
                          else SgxDhInitiator_dh_generate_message2 env msg1)) (\<lambda>_.
          rmodify (\<lambda>s. s \<lparr> v_init := (v_init s) \<lparr> i_peer_pub_key := g_a msg1,
            i_state := SGX_DH_SESSION_INITIATOR_WAIT_M3 \<rparr> \<rparr>))))))))) s)"

definition SgxDhInitiator_proc_msg3 ::
  "('c, 'z) thandle_ext_scheme \<Rightarrow> bool \<Rightarrow> dh_place \<Rightarrow> SgxDhMsg3 \<Rightarrow> ('c dh_vars, unit) stateful" where
  "SgxDhInitiator_proc_msg3 env use_lav2 pl msg3 s =
     (let failed = SgxDhInitiator_default \<lparr> i_state := SGX_DH_SESSION_STATE_ERROR \<rparr>;
          prop = additional_prop (msg3_body msg3) in
      if \<not> rsgx_data_is_within_enclave env (a_self pl) (sz_self pl) then (Inl SGX_ERROR_INVALID_PARAMETER, s)
      else if \<not> rsgx_raw_is_within_enclave env (a_msg3 pl) (sz_msg3 pl)
           \<or> \<not> rsgx_data_is_within_enclave env (a_aek pl) 16
           \<or> \<not> rsgx_data_is_within_enclave env (a_ident pl) 260
        then (Inl SGX_ERROR_INVALID_PARAMETER, s \<lparr> v_init := failed \<rparr>)
      else if sl_len prop > 0 \<and> (\<not> rsgx_slice_is_within_enclave env prop \<or> sl_len prop > MAX32 - dh_msg3_size)
        then (Inl SGX_ERROR_INVALID_PARAMETER, s \<lparr> v_init := failed \<rparr>)
      else if i_state (v_init s) \<noteq> SGX_DH_SESSION_INITIATOR_WAIT_M3
        then (Inl SGX_ERROR_INVALID_STATE, s \<lparr> v_init := failed \<rparr>)
      else
        rtry (init_try (if use_lav2 then SgxDhInitiator_lav2_verify_message3 env msg3
                        else SgxDhInitiator_dh_verify_message3 env msg3)) (\<lambda>_.
        rtry (rread v_init) (\<lambda>self.
        rtry (init_try (rreturn (derive_key env (i_shared_key self) EC_AEK_LABEL))) (\<lambda>align_aek.
        rmodify (\<lambda>s. s \<lparr> v_aek := align_aek,
          v_init := SgxDhInitiator_default \<lparr> i_state := SGX_DH_SESSION_ACTIVE \<rparr>,
          v_ident := (let b = report_body (m3_report (msg3_body msg3)) in (v_ident s)
            \<lparr> id_cpu_svn := rb_cpu_svn b, id_misc_select := rb_misc_select b,
              id_isv_svn := rb_isv_svn b, id_isv_prod_id := rb_isv_prod_id b, id_attributes := rb_attributes b,
              id_mr_signer := rb_mr_signer b, id_mr_enclave := rb_mr_enclave b \<rparr>) \<rparr>)))) s)"

end
