(* ===== verification/Tdh_Session.thy ===== *)
theory Tdh_Session
  imports Tdh
begin

text \<open>
  What the session code of \<open>sgx_tdh\<close> guarantees: two ends that follow the protocol agree on a key, an
  end that accepts has checked the message, and keys do not outlive the phase that needs them.  The
  proofs use two predicate transformers for the statements of the model: \<open>wp m P\<close> (the statement
  succeeds and \<open>P\<close> holds) and \<open>wlp m P\<close> (if it succeeds, \<open>P\<close> holds).
\<close>

named_theorems wp_rules \<open>weakest preconditions of the statements\<close>
named_theorems wlp_rules \<open>weakest liberal preconditions of the statements\<close>
named_theorems fail_rules \<open>what holds when a statement fails\<close>

section \<open>Predicate transformers\<close>

definition wp :: "('s, 'a) stateful \<Rightarrow> ('a \<Rightarrow> 's \<Rightarrow> bool) \<Rightarrow> 's \<Rightarrow> bool" where
  "wp m P s \<longleftrightarrow> (\<exists>a t. m s = (Inr a, t) \<and> P a t)"

definition wlp :: "('s, 'a) stateful \<Rightarrow> ('a \<Rightarrow> 's \<Rightarrow> bool) \<Rightarrow> 's \<Rightarrow> bool" where
  "wlp m P s \<longleftrightarrow> (\<forall>a t. m s = (Inr a, t) \<longrightarrow> P a t)"

definition fails :: "('s, 'a) stateful \<Rightarrow> ('s \<Rightarrow> bool) \<Rightarrow> bool" where
  "fails m Q \<longleftrightarrow> (\<forall>s e t. m s = (Inl e, t) \<longrightarrow> Q t)"

lemma wp_mono: "wp m P s \<Longrightarrow> (\<And>a t. P a t \<Longrightarrow> Q a t) \<Longrightarrow> wp m Q s"
  by (auto simp: wp_def)

lemma wlp_mono: "wlp m P s \<Longrightarrow> (\<And>a t. P a t \<Longrightarrow> Q a t) \<Longrightarrow> wlp m Q s"
  by (auto simp: wlp_def)

lemma wlpD: "m s = (Inr a, t) \<Longrightarrow> wlp m P s \<Longrightarrow> P a t"
  by (simp add: wlp_def)

definition ok_res :: "'a SgxResult \<times> 's \<Rightarrow> ('a \<Rightarrow> 's \<Rightarrow> bool) \<Rightarrow> bool" where
  "ok_res r P \<longleftrightarrow> (\<exists>a t. r = (Inr a, t) \<and> P a t)"

lemma wp_res: "wp m P s \<longleftrightarrow> ok_res (m s) P"
  by (simp add: wp_def ok_res_def)

lemma ok_res_wp: "wp m P s \<Longrightarrow> ok_res (m s) P"
  by (simp add: wp_res)

lemma ok_res_if: "\<not> b \<Longrightarrow> ok_res r' P \<Longrightarrow> ok_res (if b then r else r') P"
  by simp

lemma if_err: "(if b then (Inl e, x) else m) = (Inr a, t) \<longleftrightarrow> \<not> b \<and> m = (Inr a, t)"
  by simp

lemma wp_rtry [wp_rules]: "wp (rtry m f) P = wp m (\<lambda>a. wp (f a) P)"
  by (auto simp: fun_eq_iff wp_def rtry_Inr_iff)

lemma wlp_rtry [wlp_rules]: "wlp (rtry m f) P = wlp m (\<lambda>a. wlp (f a) P)"
  by (auto simp: fun_eq_iff wlp_def rtry_Inr_iff)

lemma wp_basic [wp_rules]:
  "wp (rread g) P = (\<lambda>s. P (g s) s)"
  "wp (rmodify f) Q = (\<lambda>s. Q () (f s))"
  "wp (rreturn r) R = (\<lambda>s. \<exists>a. r = Inr a \<and> R a s)"
  by (auto simp: fun_eq_iff wp_def rread_def rmodify_def)

lemma wlp_basic [wlp_rules]:
  "wlp (rread g) P = (\<lambda>s. P (g s) s)"
  "wlp (rmodify f) Q = (\<lambda>s. Q () (f s))"
  "wlp (rreturn r) R = (\<lambda>s. \<forall>a. r = Inr a \<longrightarrow> R a s)"
  by (auto simp: fun_eq_iff wlp_def rread_def rmodify_def)

lemma wp_Pair [wp_rules]: "wp (Pair r) R = (\<lambda>s. \<exists>a. r = Inr a \<and> R a s)"
  by (auto simp: fun_eq_iff wp_def)

lemma resp_try_Inr_iff: "resp_try m s = (Inr a, t) \<longleftrightarrow> m s = (Inr a, t)"
  by (auto simp: resp_try_def split: prod.split sum.split)

lemma init_try_Inr_iff: "init_try m s = (Inr a, t) \<longleftrightarrow> m s = (Inr a, t)"
  by (auto simp: init_try_def split: prod.split sum.split)

lemma try_transformers [wp_rules, wlp_rules]:
  "wp (resp_try m) P = wp m P" "wlp (resp_try m) P = wlp m P"
  "wp (init_try m) P = wp m P" "wlp (init_try m) P = wlp m P"
  by (simp_all add: fun_eq_iff wp_def wlp_def resp_try_Inr_iff init_try_Inr_iff)

lemma wp_if: "wp (if b then m else m') P s \<longleftrightarrow> (if b then wp m P s else wp m' P s)"
  by simp

lemma wlp_if: "wlp (if b then m else m') P s \<longleftrightarrow> (if b then wlp m P s else wlp m' P s)"
  by simp

text \<open>A scope hides what the destructor of its handle does.\<close>

lemma with_Inr:
  "with_sha env m s = (Inr a, t) \<Longrightarrow>
     \<exists>u h c. m (s \<lparr> v_sha := SgxShaHandle_new \<rparr>) = (Inr a, u) \<and> t = u \<lparr> v_sha := h, lib := c \<rparr>"
  "with_cmac env m s = (Inr a, t) \<Longrightarrow>
     \<exists>u h c. m (s \<lparr> v_cmac := SgxCmacHandle_new \<rparr>) = (Inr a, u) \<and> t = u \<lparr> v_cmac := h, lib := c \<rparr>"
  "with_ecc env m s = (Inr a, t) \<Longrightarrow>
     \<exists>u h c. m (s \<lparr> v_ecc := SgxEccHandle_new \<rparr>) = (Inr a, u) \<and> t = u \<lparr> v_ecc := h, lib := c \<rparr>"
  by (auto simp: with_sha_def with_cmac_def with_ecc_def split: prod.splits)

lemma wp_with [wp_rules]:
  "wp m (\<lambda>a t. \<forall>h c. P a (t \<lparr> v_sha := h, lib := c \<rparr>)) (s \<lparr> v_sha := SgxShaHandle_new \<rparr>) \<Longrightarrow> wp (with_sha env m) P s"
  "wp m (\<lambda>a t. \<forall>h c. P a (t \<lparr> v_cmac := h, lib := c \<rparr>)) (s \<lparr> v_cmac := SgxCmacHandle_new \<rparr>) \<Longrightarrow> wp (with_cmac env m) P s"
  "wp m (\<lambda>a t. \<forall>h c. P a (t \<lparr> v_ecc := h, lib := c \<rparr>)) (s \<lparr> v_ecc := SgxEccHandle_new \<rparr>) \<Longrightarrow> wp (with_ecc env m) P s"
  by (auto simp: wp_def with_sha_def with_cmac_def with_ecc_def split: prod.splits)

lemma wlp_with [wlp_rules]:
  "wlp m (\<lambda>a t. \<forall>h c. P a (t \<lparr> v_sha := h, lib := c \<rparr>)) (s \<lparr> v_sha := SgxShaHandle_new \<rparr>) \<Longrightarrow> wlp (with_sha env m) P s"
  "wlp m (\<lambda>a t. \<forall>h c. P a (t \<lparr> v_cmac := h, lib := c \<rparr>)) (s \<lparr> v_cmac := SgxCmacHandle_new \<rparr>) \<Longrightarrow> wlp (with_cmac env m) P s"
  "wlp m (\<lambda>a t. \<forall>h c. P a (t \<lparr> v_ecc := h, lib := c \<rparr>)) (s \<lparr> v_ecc := SgxEccHandle_new \<rparr>) \<Longrightarrow> wlp (with_ecc env m) P s"
  unfolding wlp_def by (blast dest: with_Inr)+

section \<open>Digests inside a session\<close>

lemma rtry_assoc: "rtry (rtry m f) g = rtry m (\<lambda>a. rtry (f a) g)"
  by (auto simp: fun_eq_iff rtry_def split: prod.split sum.split)

lemma rtry_return [simp]: "rtry (rreturn (Inr a)) f = f a"
  by (simp add: fun_eq_iff rtry_def)

definition sha_of :: "('c, 'z) thandle_ext_scheme \<Rightarrow> bytes list \<Rightarrow> ('c dh_vars, bytes) stateful" where
  "sha_of env ds = on_sha (digest_run (SgxShaHandle_init env) (SgxShaHandle_update_msg env) (SgxShaHandle_get_hash env) ds)"

definition cmac_of :: "('c, 'z) thandle_ext_scheme \<Rightarrow> bytes \<Rightarrow> bytes list \<Rightarrow> ('c dh_vars, bytes) stateful" where
  "cmac_of env k ds =
     on_cmac (digest_run (SgxCmacHandle_init env k) (SgxCmacHandle_update_msg env) (SgxCmacHandle_get_hash env) ds)"

lemma on_sha_rtry: "on_sha (rtry m f) = rtry (on_sha m) (\<lambda>a. on_sha (f a))"
  by (auto simp: fun_eq_iff on_sha_def rtry_def split: prod.split sum.split)

lemma on_cmac_rtry: "on_cmac (rtry m f) = rtry (on_cmac m) (\<lambda>a. on_cmac (f a))"
  by (auto simp: fun_eq_iff on_cmac_def rtry_def split: prod.split sum.split)

lemma on_return [simp]: "on_sha (rreturn r) = rreturn r" "on_cmac (rreturn r) = rreturn r"
  by (simp_all add: fun_eq_iff on_sha_def on_cmac_def)

lemma sha_chain:
  "rtry (on_sha (SgxShaHandle_init env)) (\<lambda>_. rtry (on_sha (SgxShaHandle_update_msg env a)) (\<lambda>_.
     rtry (on_sha (SgxShaHandle_update_msg env b)) (\<lambda>_. rtry (on_sha (SgxShaHandle_get_hash env)) f)))
   = rtry (sha_of env [a, b]) f"
  by (simp add: sha_of_def digest_run_def on_sha_rtry rtry_assoc)

lemma cmac_chain:
  "rtry (on_cmac (SgxCmacHandle_init env k)) (\<lambda>_. rtry (on_cmac (SgxCmacHandle_update_msg env a)) (\<lambda>_.
     rtry (on_cmac (SgxCmacHandle_update_msg env b)) (\<lambda>_.
     rtry (if q then on_cmac (SgxCmacHandle_update_slice env d) else rreturn (Inr ())) (\<lambda>_.
     rtry (on_cmac (SgxCmacHandle_get_hash env)) f))))
   = rtry (cmac_of env k ([a, b] @ (if q then [d] else []))) f"
  by (simp add: cmac_of_def digest_run_def on_cmac_rtry rtry_assoc update_slice_is_msg)

lemma cmac_chain_lav2:
  "rtry (on_cmac (SgxCmacHandle_init env k)) (\<lambda>_.
     rtry (if q then on_cmac (SgxCmacHandle_update_slice env d) else rreturn (Inr ())) (\<lambda>_.
     rtry (on_cmac (SgxCmacHandle_update_msg env a)) (\<lambda>_.
     rtry (on_cmac (SgxCmacHandle_get_hash env)) f)))
   = rtry (cmac_of env k ((if q then [d] else []) @ [a])) f"
  by (simp add: cmac_of_def digest_run_def on_cmac_rtry rtry_assoc update_slice_is_msg)

lemmas chains = sha_chain cmac_chain cmac_chain_lav2

lemma wlp_sha_of:
  assumes "sha_spec env H ctx" "\<not> initflag (v_sha s)" "\<And>h c. P (H () (concat ds)) (s \<lparr> v_sha := h, lib := c \<rparr>)"
  shows "wlp (sha_of env ds) P s"
  using assms(3) sha.run_value [OF assms(1), of "(v_sha s, lib s)" ds] assms(2)
  by (auto simp: wlp_def sha_of_def on_sha_def split: prod.splits)

lemma wp_sha_of:
  assumes "sha_spec env H ctx" "sha_total env ctx" "\<not> initflag (v_sha s)" "\<forall>d\<in>set ds. d \<noteq> [] \<and> length d \<le> MAX32"
    and "\<And>h c. P (H () (concat ds)) (s \<lparr> v_sha := h, lib := c \<rparr>)"
  shows "wp (sha_of env ds) P s"
  using assms(5) sha.run_total [OF assms(1,2) _ assms(4), of "(v_sha s, lib s)"] assms(3)
  by (auto simp: wp_def sha_of_def on_sha_def split: prod.splits)

lemma wlp_cmac_of:
  assumes "cmac_spec env M ctx" "\<not> initflag (v_cmac s)" "\<And>h c. P (M k (concat ds)) (s \<lparr> v_cmac := h, lib := c \<rparr>)"
  shows "wlp (cmac_of env k ds) P s"
  using assms(3) cmac.run_value [OF assms(1), of "(v_cmac s, lib s)" k ds] assms(2)
  by (auto simp: wlp_def cmac_of_def on_cmac_def split: prod.splits)

lemma wp_cmac_of:
  assumes "cmac_spec env M ctx" "cmac_total env ctx" "\<not> initflag (v_cmac s)" "\<forall>d\<in>set ds. d \<noteq> [] \<and> length d \<le> MAX32"
    and "\<And>h c. P (M k (concat ds)) (s \<lparr> v_cmac := h, lib := c \<rparr>)"
  shows "wp (cmac_of env k ds) P s"
  using assms(5) cmac.run_total [OF assms(1,2) _ assms(4), of "(v_cmac s, lib s)" k] assms(3)
  by (auto simp: wp_def cmac_of_def on_cmac_def split: prod.splits)

section \<open>Keys\<close>

text \<open>The key of a label: AES-CMAC in counter mode under a key extracted from the shared secret.\<close>

definition kdf :: "(bytes \<Rightarrow> bytes \<Rightarrow> bytes) \<Rightarrow> bytes \<Rightarrow> bytes \<Rightarrow> bytes" where
  "kdf M k label = M (M (replicate 16 0) k) [1, label ! 0, label ! 1, label ! 2, 0, 0x80, 0]"

lemma cmac_oneshots:
  "rsgx_rijndael128_cmac_msg env = rsgx_rijndael128_cmac_slice env"
  "rsgx_rijndael128_align_cmac_slice env = rsgx_rijndael128_cmac_slice env"
  by (simp_all add: fun_eq_iff rsgx_rijndael128_cmac_msg_def rsgx_rijndael128_cmac_slice_def
      rsgx_rijndael128_align_cmac_slice_def)

lemma cmac_msg_value:
  "cmac_spec env M ctx \<Longrightarrow> rsgx_rijndael128_cmac_msg env k d = Inr v \<Longrightarrow> v = M k d"
  by (simp add: cmac_oneshots cmac.oneshot_value)

lemma cmac_msg_total:
  "cmac_spec env M ctx \<Longrightarrow> cmac_total env ctx \<Longrightarrow> d \<noteq> [] \<Longrightarrow> length d \<le> MAX32 \<Longrightarrow>
     rsgx_rijndael128_cmac_msg env k d = Inr (M k d)"
  using cmac.oneshot_total [of env ctx d k] cmac.oneshot_value [of env M ctx k d]
  by (auto simp: cmac_oneshots)

lemma derive_key_value:
  "cmac_spec env M ctx \<Longrightarrow> derive_key env k l = Inr v \<Longrightarrow> v = kdf M k l"
  unfolding derive_key_def Let_def res_bind_Inr_iff map_err_Inr_iff cmac_oneshots kdf_def
  using cmac.oneshot_value [of env M ctx] by blast

lemma derive_key_total:
  assumes "cmac_spec env M ctx" "cmac_total env ctx" "k \<noteq> []" "length k \<le> MAX32"
  shows "derive_key env k l = Inr (kdf M k l)"
  using assms cmac_msg_total [OF assms(1,2)]
  by (simp add: derive_key_def cmac_oneshots kdf_def)

lemma wlp_ecc:
  "(\<And>h c. initflag h \<Longrightarrow> P () (s \<lparr> v_ecc := h, lib := c \<rparr>)) \<Longrightarrow> wlp (on_ecc (SgxEccHandle_open env)) P s"
  "ecdh_spec env gen dh \<Longrightarrow> (\<And>k h c. Q (k, gen k) (s \<lparr> v_ecc := h, lib := c \<rparr>)) \<Longrightarrow>
     wlp (on_ecc (SgxEccHandle_create_align_key_pair env)) Q s"
  "ecdh_spec env gen dh \<Longrightarrow> (\<And>h c. R (dh k g) (s \<lparr> v_ecc := h, lib := c \<rparr>)) \<Longrightarrow>
     wlp (on_ecc (SgxEccHandle_compute_align_shared_dhkey env k g)) R s"
  by (auto simp: wlp_def on_ecc_def split: prod.splits
      dest: ecc_initflag(1) [of env "(v_ecc s, lib s)"] ecc_create_value ecc_shared_value)

lemma wp_ecc:
  assumes "ecdh_spec env gen dh" "ecdh_total env"
  shows "(\<And>h c. initflag h \<Longrightarrow> P () (s \<lparr> v_ecc := h, lib := c \<rparr>)) \<Longrightarrow> wp (on_ecc (SgxEccHandle_open env)) P s"
    and "initflag (v_ecc s) \<Longrightarrow> (\<And>k h c. initflag h \<Longrightarrow> Q (k, gen k) (s \<lparr> v_ecc := h, lib := c \<rparr>)) \<Longrightarrow>
      wp (on_ecc (SgxEccHandle_create_align_key_pair env)) Q s"
    and "initflag (v_ecc s) \<Longrightarrow> (\<And>h c. R (dh k g) (s \<lparr> v_ecc := h, lib := c \<rparr>)) \<Longrightarrow>
      wp (on_ecc (SgxEccHandle_compute_align_shared_dhkey env k g)) R s"
proof -
  obtain h1 c1 where o: "SgxEccHandle_open env (v_ecc s, lib s) = (Inr (), h1, c1)"
    using ecc_total(1) [OF assms(2), of "(v_ecc s, lib s)"] by auto
  show "wp (on_ecc (SgxEccHandle_open env)) P s" if "\<And>h c. initflag h \<Longrightarrow> P () (s \<lparr> v_ecc := h, lib := c \<rparr>)"
    using o ecc_initflag(1) [OF o] that by (simp add: wp_def on_ecc_def)
  assume i: "initflag (v_ecc s)"
  obtain k' g' h2 c2 where c: "SgxEccHandle_create_align_key_pair env (v_ecc s, lib s) = (Inr (k', g'), h2, c2)"
    using ecc_total(2) [OF assms(2), of "(v_ecc s, lib s)"] i by auto
  show "wp (on_ecc (SgxEccHandle_create_align_key_pair env)) Q s"
    if "\<And>k h c. initflag h \<Longrightarrow> Q (k, gen k) (s \<lparr> v_ecc := h, lib := c \<rparr>)"
    using c ecc_initflag(2) [OF c] ecc_create_value [OF assms(1) c] that i by (simp add: wp_def on_ecc_def)
  obtain v h3 c3 where d: "SgxEccHandle_compute_align_shared_dhkey env k g (v_ecc s, lib s) = (Inr v, h3, c3)"
    using ecc_total(3) [OF assms(2), of "(v_ecc s, lib s)" k g] i by auto
  show "wp (on_ecc (SgxEccHandle_compute_align_shared_dhkey env k g)) R s"
    if "\<And>h c. R (dh k g) (s \<lparr> v_ecc := h, lib := c \<rparr>)"
    using d ecc_shared_value [OF assms(1) d] that by (simp add: wp_def on_ecc_def)
qed

section \<open>An end that accepts has checked\<close>

text \<open>
  \<open>msg2_ok\<close> is what makes a second message acceptable to a responder with message key \<open>smk\<close> and
  public key \<open>pub\<close>; \<open>msg3_ok\<close> is the same for a third message and an initiator with public key \<open>pub\<close>
  whose peer has \<open>peer\<close>.
\<close>

definition mac_input3 :: "bool \<Rightarrow> bytes \<Rightarrow> SgxDhMsg3Body \<Rightarrow> bytes" where
  "mac_input3 lav2 peer body =
     (let prop = sl_data (additional_prop body) in
      if lav2 then prop @ peer
      else bytes_of_report (m3_report body) @ le_bytes 4 (of_nat (length prop) :: u32) @ prop)"

definition msg2_ok ::
  "'z tse_ext_scheme \<Rightarrow> (bytes \<Rightarrow> bytes) \<Rightarrow> (bytes \<Rightarrow> bytes \<Rightarrow> bytes) \<Rightarrow> bool \<Rightarrow> bytes \<Rightarrow> bytes \<Rightarrow> SgxDhMsg2 \<Rightarrow> bool" where
  "msg2_ok env H M lav2 smk pub msg2 \<longleftrightarrow>
     (let r = m2_report msg2; d = rb_report_data (report_body r) in
      if lav2 then
        sgx_verify_report env (r \<lparr> report_body := (report_body r)
          \<lparr> rb_report_data := write_at 0 (H (d @ g_b msg2)) report_data_default \<rparr> \<rparr>) = SGX_SUCCESS
        \<and> m2_cmac msg2 = M smk (g_b msg2)
        \<and> ps_signature (from_report_data d) = ps_signature SGX_LAV2_PROTO_SPEC
        \<and> ps_ver (from_report_data d) = ps_ver SGX_LAV2_PROTO_SPEC
      else
        sgx_verify_report env r = SGX_SUCCESS \<and> m2_cmac msg2 = M smk (bytes_of_report r)
        \<and> take 32 d = H (pub @ g_b msg2) \<and> take 2 (drop 32 d) = AES_CMAC_KDF_ID)"

definition msg3_ok ::
  "'z tse_ext_scheme \<Rightarrow> (bytes \<Rightarrow> bytes) \<Rightarrow> (bytes \<Rightarrow> bytes \<Rightarrow> bytes) \<Rightarrow> bool \<Rightarrow> bytes \<Rightarrow> bytes \<Rightarrow> bytes \<Rightarrow> SgxDhMsg3 \<Rightarrow> bool" where
  "msg3_ok env H M lav2 smk pub peer msg3 \<longleftrightarrow>
     (let r = m3_report (msg3_body msg3); d = rb_report_data (report_body r) in
      sgx_verify_report env r = SGX_SUCCESS \<and> m3_cmac msg3 = M smk (mac_input3 lav2 peer (msg3_body msg3))
      \<and> (if lav2 then d = write_at 0 (H (peer @ to_report_data SGX_LAV2_PROTO_SPEC)) report_data_default
          else take 32 d = H (pub @ peer)))"

text \<open>The digests have fixed sizes, as the types of the sources say.\<close>

definition digest_sizes :: "(bytes \<Rightarrow> bytes) \<Rightarrow> (bytes \<Rightarrow> bytes \<Rightarrow> bytes) \<Rightarrow> bool" where
  "digest_sizes H M \<longleftrightarrow> (\<forall>b. length (H b) = 32) \<and> (\<forall>k b. length (M k b) = 16)"

lemma memeq_mac:
  "digest_sizes H M \<Longrightarrow> length t = 16 \<Longrightarrow> consttime_memeq (M k b) t \<longleftrightarrow> t = M k b"
  using consttime_memequal_eq [of 16 "M k b" t]
  by (auto simp: digest_sizes_def consttime_memeq_def)

lemma rsgx_verify_report_Inr [simp]: "rsgx_verify_report env r = Inr () \<longleftrightarrow> sgx_verify_report env r = SGX_SUCCESS"
  by (simp add: rsgx_verify_report_def)

lemma wlp_verify_message2:
  assumes "sha_spec env (\<lambda>_. H) sctx" "cmac_spec env M mctx" "digest_sizes H M" "length (m2_cmac msg2) = 16"
    and P: "\<And>h c. msg2_ok env H M lav2 (r_smk_aek (v_resp s)) (r_pub_key (v_resp s)) msg2 \<Longrightarrow>
      P () (s \<lparr> v_sha := h, lib := c \<rparr>)"
  shows "wlp (if lav2 then SgxDhResponder_lav2_verify_message2 env msg2
    else SgxDhResponder_dh_verify_message2 env msg2) P s"
proof (cases lav2)
  case True
  have "wlp (SgxDhResponder_lav2_verify_message2 env msg2) P s"
    unfolding SgxDhResponder_lav2_verify_message2_def chains Let_def wlp_rtry wlp_basic
    using True
    by (auto simp: SgxShaHandle_new_def wlp_rules memeq_mac [OF assms(3,4)] split: if_splits
        dest!: cmac_msg_value [OF assms(2)] intro!: wlp_with wlp_sha_of [OF assms(1)] P [unfolded msg2_ok_def Let_def])
  with True show ?thesis by simp
next
  case False
  have "wlp (SgxDhResponder_dh_verify_message2 env msg2) P s"
    unfolding SgxDhResponder_dh_verify_message2_def chains Let_def wlp_rtry wlp_basic
    using False
    by (auto simp: SgxShaHandle_new_def wlp_rules memeq_mac [OF assms(3,4)] split: if_splits
        dest!: cmac_msg_value [OF assms(2)] intro!: wlp_with wlp_sha_of [OF assms(1)] P [unfolded msg2_ok_def Let_def])
  with False show ?thesis by simp
qed

text \<open>The third message a responder makes: the report it obtains and the MAC over the body.\<close>

definition msg3_data :: "(bytes \<Rightarrow> bytes) \<Rightarrow> bool \<Rightarrow> bytes \<Rightarrow> SgxDhMsg2 \<Rightarrow> bytes" where
  "msg3_data H lav2 pub msg2 =
     write_at 0 (H (if lav2 then pub @ to_report_data (from_report_data (rb_report_data (report_body (m2_report msg2))))
                    else g_b msg2 @ pub)) report_data_default"

definition msg3_made :: "(bytes \<Rightarrow> bytes \<Rightarrow> bytes) \<Rightarrow> bool \<Rightarrow> bytes \<Rightarrow> bytes \<Rightarrow> sgx_report_t \<Rightarrow> SgxDhMsg3 \<Rightarrow> SgxDhMsg3" where
  "msg3_made M lav2 smk pub rep msg3 =
     (let body = (msg3_body msg3) \<lparr> m3_report := rep \<rparr> in
      msg3 \<lparr> msg3_body := body, m3_cmac := M smk (mac_input3 lav2 pub body) \<rparr>)"

lemma u32_length_pos: "length xs \<le> MAX32 \<Longrightarrow> (of_nat (length xs) :: u32) > 0 \<longleftrightarrow> xs \<noteq> []"
  using unat_of_nat_u32 [of "length xs"] by (auto simp: word_less_nat_alt)

lemma wlp_generate_message3:
  assumes "sha_spec env (\<lambda>_. H) sctx" "cmac_spec env M mctx" "wf_report (m2_report msg2)"
    and "sl_len (additional_prop (msg3_body (v_msg3 s))) \<le> MAX32"
    and P: "\<And>rep h h' c. rsgx_create_report env (target_info_of (m2_report msg2))
        (msg3_data H lav2 (r_pub_key (v_resp s)) msg2) = Inr rep \<Longrightarrow>
      P () (s \<lparr> v_msg3 := msg3_made M lav2 (r_smk_aek (v_resp s)) (r_pub_key (v_resp s)) rep (v_msg3 s),
        v_cmac := h', v_sha := h, lib := c \<rparr>)"
  shows "wlp (if lav2 then SgxDhResponder_lav2_generate_message3 env msg2
    else SgxDhResponder_dh_generate_message3 env msg2) P s"
proof (cases lav2)
  case True
  have "wlp (SgxDhResponder_lav2_generate_message3 env msg2) P s"
    unfolding SgxDhResponder_lav2_generate_message3_def chains Let_def wlp_rtry wlp_basic lav2_target_info_of [OF assms(3)]
    using True P
    by (auto simp: SgxShaHandle_new_def SgxCmacHandle_new_def wlp_rules msg3_data_def msg3_made_def mac_input3_def Let_def
        intro!: wlp_with wlp_sha_of [OF assms(1)] wlp_cmac_of [OF assms(2)])
  with True show ?thesis by simp
next
  case False
  have "wlp (SgxDhResponder_dh_generate_message3 env msg2) P s"
    unfolding SgxDhResponder_dh_generate_message3_def chains Let_def wlp_rtry wlp_basic lav2_target_info_of [OF assms(3)]
    using False P u32_length_pos [OF assms(4)]
    by (auto simp: SgxShaHandle_new_def SgxCmacHandle_new_def wlp_rules msg3_data_def msg3_made_def mac_input3_def Let_def
        intro!: wlp_with wlp_sha_of [OF assms(1)] wlp_cmac_of [OF assms(2)])
  with False show ?thesis by simp
qed

lemma handle_upd_commute: "s \<lparr> v_cmac := h', v_sha := h, lib := c \<rparr> = s \<lparr> v_sha := h, v_cmac := h', lib := c \<rparr>"
  by simp

lemma wlp_verify_message3:
  assumes "sha_spec env (\<lambda>_. H) sctx" "cmac_spec env M mctx" "digest_sizes H M" "length (m3_cmac msg3) = 16"
    and "sl_len (additional_prop (msg3_body msg3)) \<le> MAX32"
    and P: "\<And>h h' c. msg3_ok env H M lav2 (i_smk_aek (v_init s)) (i_pub_key (v_init s)) (i_peer_pub_key (v_init s)) msg3 \<Longrightarrow>
      P () (s \<lparr> v_cmac := h', v_sha := h, lib := c \<rparr>)"
  shows "wlp (if lav2 then SgxDhInitiator_lav2_verify_message3 env msg3
    else SgxDhInitiator_dh_verify_message3 env msg3) P s"
proof (cases lav2)
  case True
  have "wlp (SgxDhInitiator_lav2_verify_message3 env msg3) P s"
    unfolding SgxDhInitiator_lav2_verify_message3_def chains Let_def wlp_rtry wlp_basic
    using True P
    by (auto simp: SgxShaHandle_new_def SgxCmacHandle_new_def wlp_rules memeq_mac [OF assms(3,4)] msg3_ok_def mac_input3_def Let_def
        split: if_splits intro!: wlp_with wlp_sha_of [OF assms(1)] wlp_cmac_of [OF assms(2)])
  with True show ?thesis by simp
next
  case False
  have "wlp (SgxDhInitiator_dh_verify_message3 env msg3) P s"
    unfolding SgxDhInitiator_dh_verify_message3_def chains Let_def wlp_rtry wlp_basic
    using False P [unfolded handle_upd_commute] u32_length_pos [OF assms(5)]
    by (auto simp: SgxShaHandle_new_def SgxCmacHandle_new_def wlp_rules memeq_mac [OF assms(3,4)] msg3_ok_def mac_input3_def Let_def
        split: if_splits intro!: wlp_with wlp_sha_of [OF assms(1)] wlp_cmac_of [OF assms(2)])
  with False show ?thesis by simp
qed

definition ident2 :: "sgx_report_t \<Rightarrow> sgx_dh_session_enclave_identity_t \<Rightarrow> sgx_dh_session_enclave_identity_t" where
  "ident2 r i = (let b = report_body r in i
     \<lparr> id_isv_svn := rb_isv_svn b, id_isv_prod_id := rb_isv_prod_id b, id_attributes := rb_attributes b,
       id_mr_signer := rb_mr_signer b, id_mr_enclave := rb_mr_enclave b \<rparr>)"

definition ident3 :: "sgx_report_t \<Rightarrow> sgx_dh_session_enclave_identity_t \<Rightarrow> sgx_dh_session_enclave_identity_t" where
  "ident3 r i = (let b = report_body r in i
     \<lparr> id_cpu_svn := rb_cpu_svn b, id_misc_select := rb_misc_select b,
       id_isv_svn := rb_isv_svn b, id_isv_prod_id := rb_isv_prod_id b, id_attributes := rb_attributes b,
       id_mr_signer := rb_mr_signer b, id_mr_enclave := rb_mr_enclave b \<rparr>)"

definition accepted2 ::
  "('c, 'z) thandle_ext_scheme \<Rightarrow> (bytes \<Rightarrow> bytes) \<Rightarrow> (bytes \<Rightarrow> bytes \<Rightarrow> bytes) \<Rightarrow> (bytes \<Rightarrow> bytes \<Rightarrow> bytes) \<Rightarrow> bool
     \<Rightarrow> SgxDhMsg2 \<Rightarrow> 'c dh_vars \<Rightarrow> 'c dh_vars \<Rightarrow> bool" where
  "accepted2 env H M dh lav2 msg2 s t \<longleftrightarrow>
     (let pub = r_pub_key (v_resp s); k = dh (r_prv_key (v_resp s)) (g_b msg2); smk = kdf M k EC_SMK_LABEL in
      msg2_ok env H M lav2 smk pub msg2
      \<and> v_aek t = kdf M k EC_AEK_LABEL
      \<and> v_resp t = SgxDhResponder_default \<lparr> r_state := SGX_DH_SESSION_ACTIVE \<rparr>
      \<and> v_ident t = ident2 (m2_report msg2) (v_ident s)
      \<and> (\<exists>rep. rsgx_create_report env (target_info_of (m2_report msg2)) (msg3_data H lav2 pub msg2) = Inr rep
           \<and> v_msg3 t = msg3_made M lav2 smk pub rep (v_msg3 s)))"

definition accepted3 ::
  "('c, 'z) thandle_ext_scheme \<Rightarrow> (bytes \<Rightarrow> bytes) \<Rightarrow> (bytes \<Rightarrow> bytes \<Rightarrow> bytes) \<Rightarrow> bool
     \<Rightarrow> SgxDhMsg3 \<Rightarrow> 'c dh_vars \<Rightarrow> 'c dh_vars \<Rightarrow> bool" where
  "accepted3 env H M lav2 msg3 s t \<longleftrightarrow>
     (let self = v_init s in
      msg3_ok env H M lav2 (i_smk_aek self) (i_pub_key self) (i_peer_pub_key self) msg3
      \<and> v_aek t = kdf M (i_shared_key self) EC_AEK_LABEL
      \<and> v_init t = SgxDhInitiator_default \<lparr> i_state := SGX_DH_SESSION_ACTIVE \<rparr>
      \<and> v_ident t = ident3 (m3_report (msg3_body msg3)) (v_ident s))"

lemma proc_msg2_accepts:
  assumes sha: "sha_spec env (\<lambda>_. H) sctx" and cmac: "cmac_spec env M mctx" and ec: "ecdh_spec env gen dh"
    and sizes: "digest_sizes H M" "length (m2_cmac msg2) = 16" "wf_report (m2_report msg2)"
    and run: "SgxDhResponder_proc_msg2 env lav2 pl msg2 s = (Inr (), t)"
  shows "r_state (v_resp s) = SGX_DH_SESSION_RESPONDER_WAIT_M2 \<and> accepted2 env H M dh lav2 msg2 s t"
proof -
  have guards: "sl_len (additional_prop (msg3_body (v_msg3 s))) \<le> MAX32"
    "r_state (v_resp s) = SGX_DH_SESSION_RESPONDER_WAIT_M2"
    using run by (auto simp: SgxDhResponder_proc_msg2_def Let_def split: if_splits)
  have "accepted2 env H M dh lav2 msg2 s t"
    using run unfolding SgxDhResponder_proc_msg2_def Let_def if_err
    apply (elim conjE)
    by (erule wlpD [where P = "\<lambda>_ t. accepted2 env H M dh lav2 msg2 s t"], rule wlp_with,
        simp only: wlp_rtry try_transformers wlp_basic, rule wlp_ecc(1), rule wlp_ecc(3) [OF ec], intro allI impI,
        drule derive_key_value [OF cmac], rule wlp_verify_message2 [OF sha cmac sizes(1,2)],
        rule wlp_generate_message3 [OF sha cmac sizes(3)], simp add: guards, intro allI impI,
        drule derive_key_value [OF cmac], simp add: accepted2_def ident2_def Let_def)
  with guards show ?thesis by simp
qed

lemma proc_msg3_accepts:
  assumes sha: "sha_spec env (\<lambda>_. H) sctx" and cmac: "cmac_spec env M mctx"
    and sizes: "digest_sizes H M" "length (m3_cmac msg3) = 16"
    and run: "SgxDhInitiator_proc_msg3 env lav2 pl msg3 s = (Inr (), t)"
  shows "i_state (v_init s) = SGX_DH_SESSION_INITIATOR_WAIT_M3 \<and> accepted3 env H M lav2 msg3 s t"
proof -
  have guards: "sl_len (additional_prop (msg3_body msg3)) \<le> MAX32"
    "i_state (v_init s) = SGX_DH_SESSION_INITIATOR_WAIT_M3"
    using run by (auto simp: SgxDhInitiator_proc_msg3_def Let_def split: if_splits)
  have "accepted3 env H M lav2 msg3 s t"
    using run unfolding SgxDhInitiator_proc_msg3_def Let_def if_err
    apply (elim conjE)
    by (erule wlpD [where P = "\<lambda>_ t. accepted3 env H M lav2 msg3 s t"],
        simp only: wlp_rtry try_transformers wlp_basic, rule wlp_verify_message3 [OF sha cmac sizes guards(1)],
        intro allI impI, drule derive_key_value [OF cmac], simp add: accepted3_def ident3_def Let_def)
  with guards show ?thesis by simp
qed

section \<open>Two ends that follow the protocol\<close>

text \<open>
  \<open>crypto_ok\<close>: the C library of an enclave keeps its contracts and does not fail.  \<open>attests\<close>: the
  reports enclave \<open>a\<close> makes for enclave \<open>b\<close> carry the given data, and verify in \<open>b\<close>.
\<close>

definition crypto_ok ::
  "('c, 'z) thandle_ext_scheme \<Rightarrow> (bytes \<Rightarrow> bytes) \<Rightarrow> (bytes \<Rightarrow> bytes \<Rightarrow> bytes) \<Rightarrow> (bytes \<Rightarrow> bytes) \<Rightarrow> (bytes \<Rightarrow> bytes \<Rightarrow> bytes)
     \<Rightarrow> ('c \<Rightarrow> u64 \<Rightarrow> (unit \<times> bytes) option) \<Rightarrow> ('c \<Rightarrow> u64 \<Rightarrow> (bytes \<times> bytes) option) \<Rightarrow> bool" where
  "crypto_ok env H M gen dh sctx mctx \<longleftrightarrow>
     sha_spec env (\<lambda>_. H) sctx \<and> sha_total env sctx \<and> cmac_spec env M mctx \<and> cmac_total env mctx
     \<and> ecdh_spec env gen dh \<and> ecdh_total env \<and> digest_sizes H M
     \<and> (\<forall>k. length (gen k) = 64) \<and> (\<forall>k g. length (dh k g) = 32)"

definition attests :: "'z tse_ext_scheme \<Rightarrow> 'y tse_ext_scheme \<Rightarrow> bool" where
  "attests a b \<longleftrightarrow>
     (\<forall>t d. length d = 64 \<longrightarrow>
        (\<exists>r. sgx_create_report a t d = (SGX_SUCCESS, r) \<and> wf_report r \<and> rb_report_data (report_body r) = d)) \<and>
     (\<forall>t' d' r' d r. sgx_create_report b t' d' = (SGX_SUCCESS, r') \<longrightarrow>
        sgx_create_report a (target_info_of r') d = (SGX_SUCCESS, r) \<longrightarrow> sgx_verify_report b r = SGX_SUCCESS)"

lemma crypto_okD:
  assumes "crypto_ok env H M gen dh sctx mctx"
  shows "sha_spec env (\<lambda>_. H) sctx" "sha_total env sctx" "cmac_spec env M mctx" "cmac_total env mctx"
    "ecdh_spec env gen dh" "ecdh_total env" "digest_sizes H M" "length (gen k) = 64" "length (dh k g) = 32"
    "length (H x) = 32" "length (M k x) = 16"
  using assms by (simp_all add: crypto_ok_def digest_sizes_def)

text \<open>All objects a method checks lie inside the enclave.\<close>

definition placed :: "'z trts_ext_scheme \<Rightarrow> dh_place \<Rightarrow> bool" where
  "placed env pl \<longleftrightarrow>
     rsgx_data_is_within_enclave env (a_self pl) (sz_self pl) \<and> rsgx_data_is_within_enclave env (a_msg1 pl) 576
     \<and> rsgx_data_is_within_enclave env (a_msg2 pl) 512 \<and> rsgx_data_is_within_enclave env (a_aek pl) 16
     \<and> rsgx_data_is_within_enclave env (a_ident pl) 260 \<and> rsgx_raw_is_within_enclave env (a_msg3 pl) (sz_msg3 pl)"

lemma gen_msg1_succeeds:
  assumes ok: "crypto_ok env H M gen dh sctx mctx" and att: "attests env peer" and pl: "placed env pl"
    and st: "r_state (v_resp s) = SGX_DH_SESSION_STATE_RESET"
  shows "wp (SgxDhResponder_gen_msg1 env pl) (\<lambda>_ t. \<exists>k r. sgx_create_report env target_info_default report_data_default = (SGX_SUCCESS, r)
    \<and> wf_report r \<and> v_msg1 t = \<lparr> g_a = gen k, m1_target = target_info_of r \<rparr>
    \<and> v_resp t = (v_resp s) \<lparr> r_state := SGX_DH_SESSION_RESPONDER_WAIT_M2, r_prv_key := k, r_pub_key := gen k \<rparr>
    \<and> v_msg3 t = v_msg3 s) s"
proof -
  obtain r where r: "sgx_create_report env target_info_default report_data_default = (SGX_SUCCESS, r)" "wf_report r"
    using att unfolding attests_def by (metis length_replicate)
  note ecc = wp_ecc [OF crypto_okD(5,6) [OF ok]]
  have "wp (SgxDhResponder_dh_generate_message1 env) (\<lambda>_ t. \<exists>k. v_msg1 t = \<lparr> g_a = gen k, m1_target = target_info_of r \<rparr>
      \<and> v_resp t = (v_resp s) \<lparr> r_prv_key := k, r_pub_key := gen k \<rparr> \<and> v_msg3 t = v_msg3 s) s"
    unfolding SgxDhResponder_dh_generate_message1_def wp_rtry wp_basic
    by (auto simp: rsgx_create_report_def r lav2_target_info_of wp_rules intro!: wp_with ecc) blast
  then obtain t k where t: "SgxDhResponder_dh_generate_message1 env s = (Inr (), t)"
    "v_msg1 t = \<lparr> g_a = gen k, m1_target = target_info_of r \<rparr>"
    "v_resp t = (v_resp s) \<lparr> r_prv_key := k, r_pub_key := gen k \<rparr>" "v_msg3 t = v_msg3 s"
    by (auto simp: wp_def)
  show ?thesis
    using t r pl st by (auto simp: wp_def SgxDhResponder_gen_msg1_def placed_def)
qed

definition msg2_data :: "(bytes \<Rightarrow> bytes) \<Rightarrow> bool \<Rightarrow> bytes \<Rightarrow> bytes \<Rightarrow> bytes" where
  "msg2_data H lav2 ga pub =
     (if lav2 then write_at 0 (H (to_report_data SGX_LAV2_PROTO_SPEC @ pub)) report_data_default
      else write_at 32 AES_CMAC_KDF_ID (write_at 0 (H (ga @ pub)) report_data_default))"

definition msg2_made :: "(bytes \<Rightarrow> bytes \<Rightarrow> bytes) \<Rightarrow> bool \<Rightarrow> bytes \<Rightarrow> bytes \<Rightarrow> sgx_report_t \<Rightarrow> SgxDhMsg2" where
  "msg2_made M lav2 smk pub rep =
     (if lav2 then \<lparr> g_b = pub, m2_report = rep \<lparr> report_body := (report_body rep)
          \<lparr> rb_report_data := to_report_data SGX_LAV2_PROTO_SPEC \<rparr> \<rparr>, m2_cmac = M smk pub \<rparr>
      else \<lparr> g_b = pub, m2_report = rep, m2_cmac = M smk (bytes_of_report rep) \<rparr>)"

lemma length_lav2_spec [simp]: "length (to_report_data SGX_LAV2_PROTO_SPEC) = 64"
  by (simp add: to_report_data_def SGX_LAV2_PROTO_SPEC_def)

lemma lav2_spec_nonempty [simp]:
  "to_report_data SGX_LAV2_PROTO_SPEC \<noteq> []" "[] \<noteq> to_report_data SGX_LAV2_PROTO_SPEC"
  by (simp_all add: to_report_data_def)

lemma memeq_refl [simp]: "consttime_memeq a a"
  using consttime_memequal_eq [of "length a" a a] by (simp add: consttime_memeq_def)

lemma nonempty_of_length: "length xs = n \<Longrightarrow> 0 < n \<Longrightarrow> xs \<noteq> []"
  by auto

lemma wp_generate_message2:
  assumes ok: "crypto_ok env H M gen dh sctx mctx" and rep: "wf_report rep"
    "sgx_create_report env (m1_target msg1) (msg2_data H lav2 (g_a msg1) (i_pub_key (v_init s))) = (SGX_SUCCESS, rep)"
    and len: "length (g_a msg1) = 64" "length (i_pub_key (v_init s)) = 64"
    and P: "\<And>h c. P () (s \<lparr> v_msg2 := msg2_made M lav2 (i_smk_aek (v_init s)) (i_pub_key (v_init s)) rep, v_sha := h, lib := c \<rparr>)"
  shows "wp (if lav2 then SgxDhInitiator_lav2_generate_message2 env msg1
    else SgxDhInitiator_dh_generate_message2 env msg1) P s"
proof (cases lav2)
  case True
  have "wp (SgxDhInitiator_lav2_generate_message2 env msg1) P s"
    unfolding SgxDhInitiator_lav2_generate_message2_def chains Let_def wp_rtry wp_basic
    using True P rep len
    by (auto simp: SgxShaHandle_new_def wp_rules rsgx_create_report_def msg2_data_def msg2_made_def
        cmac_msg_total [OF crypto_okD(3,4) [OF ok]] nonempty_of_length
        intro!: wp_with wp_sha_of [OF crypto_okD(1,2) [OF ok]])
  with True show ?thesis by simp
next
  case False
  have "wp (SgxDhInitiator_dh_generate_message2 env msg1) P s"
    unfolding SgxDhInitiator_dh_generate_message2_def chains Let_def wp_rtry wp_basic
    using False P rep len
    by (auto simp: SgxShaHandle_new_def wp_rules rsgx_create_report_def msg2_data_def msg2_made_def
        cmac_msg_total [OF crypto_okD(3,4) [OF ok]] nonempty_of_length
        intro!: wp_with wp_sha_of [OF crypto_okD(1,2) [OF ok]])
  with False show ?thesis by simp
qed

lemma wp_verify_message2:
  assumes ok: "crypto_ok env H M gen dh sctx mctx"
    and msg: "msg2_ok env H M lav2 (r_smk_aek (v_resp s)) (r_pub_key (v_resp s)) msg2" "wf_report (m2_report msg2)"
    and len: "length (r_pub_key (v_resp s)) = 64" "length (g_b msg2) = 64"
    and P: "\<And>h c. P () (s \<lparr> v_sha := h, lib := c \<rparr>)"
  shows "wp (if lav2 then SgxDhResponder_lav2_verify_message2 env msg2
    else SgxDhResponder_dh_verify_message2 env msg2) P s"
proof -
  have data: "length (rb_report_data (report_body (m2_report msg2))) = 64"
    using msg(2) by (simp add: wf_report_def Let_def)
  show ?thesis
  proof (cases lav2)
    case True
    have "wp (SgxDhResponder_lav2_verify_message2 env msg2) P s"
      unfolding SgxDhResponder_lav2_verify_message2_def chains Let_def wp_rtry wp_basic
      using True P msg len data
      by (auto simp: SgxShaHandle_new_def wp_rules msg2_ok_def Let_def
          cmac_msg_total [OF crypto_okD(3,4) [OF ok]] nonempty_of_length
          intro!: wp_with wp_sha_of [OF crypto_okD(1,2) [OF ok]])
    with True show ?thesis by simp
  next
    case False
    have "wp (SgxDhResponder_dh_verify_message2 env msg2) P s"
      unfolding SgxDhResponder_dh_verify_message2_def chains Let_def wp_rtry wp_basic
      using False P msg len data
      by (auto simp: SgxShaHandle_new_def wp_rules msg2_ok_def Let_def
          cmac_msg_total [OF crypto_okD(3,4) [OF ok]] nonempty_of_length
          intro!: wp_with wp_sha_of [OF crypto_okD(1,2) [OF ok]])
    with False show ?thesis by simp
  qed
qed

lemma length_bytes_le_max: "wf_report r \<Longrightarrow> bytes_of_report r \<noteq> [] \<and> length (bytes_of_report r) \<le> MAX32"
  using length_bytes_of_report [of r] by (cases "bytes_of_report r") auto

lemma nonempty_images [simp]:
  "wf_report r \<Longrightarrow> [] \<noteq> bytes_of_report r" "[] \<noteq> le_bytes 4 w"
  using length_bytes_le_max [of r] length_le_bytes [of 4 w] by (auto simp del: length_le_bytes)

lemma report_data_same:
  "d = rb_report_data (report_body r) \<Longrightarrow> r \<lparr> report_body := (report_body r) \<lparr> rb_report_data := d \<rparr> \<rparr> = (r :: sgx_report_t)"
  by simp

lemma wp_generate_message3:
  assumes ok: "crypto_ok env H M gen dh sctx mctx" and msg: "wf_report (m2_report msg2)"
    and rep: "sgx_create_report env (target_info_of (m2_report msg2)) (msg3_data H lav2 (r_pub_key (v_resp s)) msg2) = (SGX_SUCCESS, rep)"
      "wf_report rep"
    and len: "length (r_pub_key (v_resp s)) = 64" "length (g_b msg2) = 64"
      "sl_len (additional_prop (msg3_body (v_msg3 s))) \<le> MAX32"
    and P: "\<And>t. v_resp t = v_resp s \<Longrightarrow> P () t"
  shows "wp (if lav2 then SgxDhResponder_lav2_generate_message3 env msg2
    else SgxDhResponder_dh_generate_message3 env msg2) P s"
proof -
  let ?d = "rb_report_data (report_body (m2_report msg2))"
  have "length (to_report_data (from_report_data ?d)) = 64"
    using msg by (simp add: to_report_data_def from_report_data_def wf_report_def Let_def read_at_def length_concat comp_def sum_list_triv)
  note ne = this [THEN nonempty_of_length, simplified] and len64 = this
  show ?thesis
  proof (cases lav2)
    case True
    have "wp (SgxDhResponder_lav2_generate_message3 env msg2) P s"
      unfolding SgxDhResponder_lav2_generate_message3_def chains Let_def wp_rtry wp_basic lav2_target_info_of [OF msg]
      using True P len rep ne len64
      by (cases "sl_data (additional_prop (msg3_body (v_msg3 s))) = []")
        (auto simp: SgxShaHandle_new_def SgxCmacHandle_new_def wp_rules msg3_data_def rsgx_create_report_def nonempty_of_length
          intro!: wp_with wp_sha_of [OF crypto_okD(1,2) [OF ok]] wp_cmac_of [OF crypto_okD(3,4) [OF ok]])
    with True show ?thesis by simp
  next
    case False
    have "wp (SgxDhResponder_dh_generate_message3 env msg2) P s"
      unfolding SgxDhResponder_dh_generate_message3_def chains Let_def wp_rtry wp_basic lav2_target_info_of [OF msg]
      using False P len rep u32_length_pos [OF len(3)] length_bytes_le_max [OF rep(2)]
      by (cases "sl_data (additional_prop (msg3_body (v_msg3 s))) = []")
        (auto simp: SgxShaHandle_new_def SgxCmacHandle_new_def wp_rules msg3_data_def rsgx_create_report_def nonempty_of_length
          intro!: wp_with wp_sha_of [OF crypto_okD(1,2) [OF ok]] wp_cmac_of [OF crypto_okD(3,4) [OF ok]])
    with False show ?thesis by simp
  qed
qed

lemma wp_verify_message3:
  assumes ok: "crypto_ok env H M gen dh sctx mctx"
    and msg: "msg3_ok env H M lav2 (i_smk_aek (v_init s)) (i_pub_key (v_init s)) (i_peer_pub_key (v_init s)) msg3"
      "wf_report (m3_report (msg3_body msg3))"
    and len: "length (i_pub_key (v_init s)) = 64" "length (i_peer_pub_key (v_init s)) = 64"
      "sl_len (additional_prop (msg3_body msg3)) \<le> MAX32"
    and P: "\<And>t. v_init t = v_init s \<Longrightarrow> P () t"
  shows "wp (if lav2 then SgxDhInitiator_lav2_verify_message3 env msg3
    else SgxDhInitiator_dh_verify_message3 env msg3) P s"
proof (cases lav2)
  case True
  note same = report_data_same [of "write_at 0 (H (i_peer_pub_key (v_init s) @ to_report_data SGX_LAV2_PROTO_SPEC)) report_data_default"
      "m3_report (msg3_body msg3)"]
  have verified: "sgx_verify_report env ((m3_report (msg3_body msg3)) \<lparr> report_body := (report_body (m3_report (msg3_body msg3)))
      \<lparr> rb_report_data := write_at 0 (H (i_peer_pub_key (v_init s) @ to_report_data SGX_LAV2_PROTO_SPEC)) report_data_default \<rparr> \<rparr>)
      = SGX_SUCCESS"
    using msg(1) True by (subst same) (simp_all add: msg3_ok_def Let_def)
  have "wp (SgxDhInitiator_lav2_verify_message3 env msg3) P s"
    unfolding SgxDhInitiator_lav2_verify_message3_def chains Let_def wp_rtry wp_basic
    using True P len msg verified
    by (auto simp: SgxShaHandle_new_def SgxCmacHandle_new_def wp_rules msg3_ok_def mac_input3_def Let_def nonempty_of_length
        intro!: wp_with wp_sha_of [OF crypto_okD(1,2) [OF ok]] wp_cmac_of [OF crypto_okD(3,4) [OF ok]])
  with True show ?thesis by simp
next
  case False
  have "wp (SgxDhInitiator_dh_verify_message3 env msg3) P s"
    unfolding SgxDhInitiator_dh_verify_message3_def chains Let_def wp_rtry wp_basic
    using False P len msg u32_length_pos [OF len(3)] length_bytes_le_max [OF msg(2)]
    by (auto simp: SgxShaHandle_new_def SgxCmacHandle_new_def wp_rules msg3_ok_def mac_input3_def Let_def nonempty_of_length
        intro!: wp_with wp_sha_of [OF crypto_okD(1,2) [OF ok]] wp_cmac_of [OF crypto_okD(3,4) [OF ok]])
  with False show ?thesis by simp
qed

lemma attestsD:
  assumes "attests a b"
  shows "length d = 64 \<Longrightarrow> \<exists>r. sgx_create_report a t d = (SGX_SUCCESS, r) \<and> wf_report r \<and> rb_report_data (report_body r) = d"
    and "sgx_create_report b t' d' = (SGX_SUCCESS, r') \<Longrightarrow> sgx_create_report a (target_info_of r') d = (SGX_SUCCESS, r) \<Longrightarrow>
      sgx_verify_report b r = SGX_SUCCESS"
  using assms unfolding attests_def by blast+

lemma length_msg_data:
  assumes "crypto_ok env H M gen dh sctx mctx"
  shows "length (msg2_data H lav2 ga pub) = 64" "length (msg3_data H lav2 pub msg2) = 64"
  using crypto_okD(10) [OF assms]
  by (simp_all add: msg2_data_def msg3_data_def write_at_def AES_CMAC_KDF_ID_def)

lemma proc_msg1_succeeds:
  assumes ok: "crypto_ok env H M gen dh sctx mctx" and att: "attests env peer" and pl: "placed env pl"
    and st: "v_init s = SgxDhInitiator_default" and len: "length (g_a msg1) = 64"
  shows "wp (SgxDhInitiator_proc_msg1 env lav2 pl msg1) (\<lambda>_ t. \<exists>k rep.
      let shared = dh k (g_a msg1); smk = kdf M shared EC_SMK_LABEL in
      sgx_create_report env (m1_target msg1) (msg2_data H lav2 (g_a msg1) (gen k)) = (SGX_SUCCESS, rep)
      \<and> wf_report rep \<and> rb_report_data (report_body rep) = msg2_data H lav2 (g_a msg1) (gen k)
      \<and> v_msg2 t = msg2_made M lav2 smk (gen k) rep
      \<and> v_init t = \<lparr> i_state = SGX_DH_SESSION_INITIATOR_WAIT_M3, i_smk_aek = smk, i_pub_key = gen k,
            i_peer_pub_key = g_a msg1, i_shared_key = shared \<rparr>) s"
proof -
  note ecc = wp_ecc [OF crypto_okD(5,6) [OF ok]]
  have key: "derive_key env (dh k g) l = Inr (kdf M (dh k g) l)" for k g l
    using crypto_okD(9) [OF ok, of k g] by (intro derive_key_total [OF crypto_okD(3,4) [OF ok]]) auto
  have rep: "\<exists>r. sgx_create_report env (m1_target msg1) (msg2_data H lav2 (g_a msg1) (gen k)) = (SGX_SUCCESS, r) \<and> wf_report r
      \<and> rb_report_data (report_body r) = msg2_data H lav2 (g_a msg1) (gen k)" for k
    by (rule attestsD(1) [OF att]) (rule length_msg_data [OF ok])
  show ?thesis
    unfolding wp_res SgxDhInitiator_proc_msg1_def Let_def
    apply (intro ok_res_if)
       apply (insert pl st, simp_all add: placed_def SgxDhInitiator_default_def) [3]
    apply (rule ok_res_wp [where s = s])
    apply (rule wp_with)
    apply (simp only: wp_rtry try_transformers wp_basic prod.case)
    apply (rule ecc(1))
    apply (rule ecc(2), simp)
    apply (simp only: prod.case wp_rtry try_transformers wp_basic)
    apply (rule ecc(3), simp)
    apply (simp add: key split del: if_split)
    subgoal for h k
    proof -
      obtain r where r: "wf_report r" "rb_report_data (report_body r) = msg2_data H lav2 (g_a msg1) (gen k)"
        "sgx_create_report env (m1_target msg1) (msg2_data H lav2 (g_a msg1) (gen k)) = (SGX_SUCCESS, r)"
        using rep [of k] by blast
      show ?thesis
        by (rule wp_generate_message2 [OF ok, where rep = r])
          (use r len crypto_okD(8) [OF ok, of k] st in
            \<open>simp_all add: SgxDhInitiator_default_def exI [of _ k] exI [of _ r]\<close>)
    qed
    done
qed

definition prop_ok :: "'z trts_ext_scheme \<Rightarrow> SgxDhMsg3 \<Rightarrow> bool" where
  "prop_ok env m \<longleftrightarrow> (let prop = additional_prop (msg3_body m) in
     sl_data prop = [] \<or> rsgx_slice_is_within_enclave env prop \<and> sl_len prop \<le> MAX32 - dh_msg3_size)"

lemma prop_ok_len: "prop_ok env m \<Longrightarrow> sl_len (additional_prop (msg3_body m)) \<le> MAX32"
  by (auto simp: prop_ok_def Let_def)

lemma proc_msg2_succeeds:
  assumes ok: "crypto_ok env H M gen dh sctx mctx" and att: "attests env peer" and pl: "placed env pl"
    and st: "r_state (v_resp s) = SGX_DH_SESSION_RESPONDER_WAIT_M2" "length (r_pub_key (v_resp s)) = 64"
    and msg: "msg2_ok env H M lav2 (kdf M (dh (r_prv_key (v_resp s)) (g_b msg2)) EC_SMK_LABEL) (r_pub_key (v_resp s)) msg2"
      "wf_report (m2_report msg2)" "length (g_b msg2) = 64"
    and propok: "prop_ok env (v_msg3 s)"
  shows "wp (SgxDhResponder_proc_msg2 env lav2 pl msg2) (\<lambda>_ _. True) s"
proof -
  note ecc = wp_ecc [OF crypto_okD(5,6) [OF ok]]
  have key: "derive_key env (dh k g) l = Inr (kdf M (dh k g) l)" for k g l
    using crypto_okD(9) [OF ok, of k g] by (intro derive_key_total [OF crypto_okD(3,4) [OF ok]]) auto
  obtain r where r: "sgx_create_report env (target_info_of (m2_report msg2))
      (msg3_data H lav2 (r_pub_key (v_resp s)) msg2) = (SGX_SUCCESS, r)" "wf_report r"
    using attestsD(1) [OF att length_msg_data(2) [OF ok]] by blast
  show ?thesis
    unfolding wp_res SgxDhResponder_proc_msg2_def Let_def
    apply (intro ok_res_if)
        apply (insert pl st propok, simp_all add: placed_def prop_ok_def Let_def) [4]
     apply auto [1]
    apply (rule ok_res_wp [where s = s], rule wp_with)
    apply (simp only: wp_rtry try_transformers wp_basic)
    apply (rule ecc(1), rule ecc(3), simp)
    apply (simp add: key split del: if_split)
    apply (rule wp_verify_message2 [OF ok])
        apply (simp_all add: msg st split del: if_split)
    apply (rule wp_generate_message3 [OF ok msg(2) _ r(2)])
        apply (simp_all add: r msg st prop_ok_len [OF propok] key split del: if_split)
    done
qed

lemma proc_msg3_succeeds:
  assumes ok: "crypto_ok env H M gen dh sctx mctx" and pl: "placed env pl"
    and st: "i_state (v_init s) = SGX_DH_SESSION_INITIATOR_WAIT_M3"
      "length (i_pub_key (v_init s)) = 64" "length (i_peer_pub_key (v_init s)) = 64" "i_shared_key (v_init s) = dh k g"
    and msg: "msg3_ok env H M lav2 (i_smk_aek (v_init s)) (i_pub_key (v_init s)) (i_peer_pub_key (v_init s)) msg3"
      "wf_report (m3_report (msg3_body msg3))"
    and propok: "prop_ok env msg3"
  shows "wp (SgxDhInitiator_proc_msg3 env lav2 pl msg3) (\<lambda>_ _. True) s"
proof -
  have key: "derive_key env (dh k g) l = Inr (kdf M (dh k g) l)" for l
    using crypto_okD(9) [OF ok, of k g] by (intro derive_key_total [OF crypto_okD(3,4) [OF ok]]) auto
  show ?thesis
    unfolding wp_res SgxDhInitiator_proc_msg3_def Let_def
    apply (intro ok_res_if)
        apply (insert pl st propok, simp_all add: placed_def prop_ok_def Let_def) [4]
     apply auto [1]
    apply (rule ok_res_wp [where s = s])
    apply (simp only: wp_rtry try_transformers wp_basic)
    apply (rule wp_verify_message3 [OF ok msg st(2,3) prop_ok_len [OF propok]])
    apply (simp add: st key)
    done
qed

text \<open>A message made by one end is acceptable to the other.\<close>

lemma lav2_spec_reads: "from_report_data (to_report_data SGX_LAV2_PROTO_SPEC) = SGX_LAV2_PROTO_SPEC"
  by (rule from_to_report_data) (simp_all add: SGX_LAV2_PROTO_SPEC_def)

lemma msg2_made_ok:
  assumes "digest_sizes H M" "sgx_verify_report env rep = SGX_SUCCESS"
    "rb_report_data (report_body rep) = msg2_data H lav2 ga pub"
  shows "msg2_ok env H M lav2 smk ga (msg2_made M lav2 smk pub rep)"
proof (cases lav2)
  case True
  have "sgx_verify_report env (rep \<lparr> report_body := (report_body rep) \<lparr> rb_report_data := msg2_data H True ga pub \<rparr> \<rparr>) = SGX_SUCCESS"
    using assms(2,3) True by (subst report_data_same) simp_all
  then show ?thesis
    using assms True by (simp add: msg2_ok_def msg2_made_def lav2_spec_reads msg2_data_def Let_def)
next
  case False
  have "length (H x) = 32" for x using assms(1) by (simp add: digest_sizes_def)
  then show ?thesis
    using assms False by (simp add: msg2_ok_def msg2_made_def msg2_data_def Let_def write_at_def AES_CMAC_KDF_ID_def)
qed

definition copied :: "SgxDhMsg3 \<Rightarrow> SgxDhMsg3 \<Rightarrow> bool" where
  "copied m m' \<longleftrightarrow> m3_cmac m' = m3_cmac m \<and> m3_report (msg3_body m') = m3_report (msg3_body m)
     \<and> sl_data (additional_prop (msg3_body m')) = sl_data (additional_prop (msg3_body m))"

lemma msg3_made_ok:
  assumes "digest_sizes H M" "sgx_verify_report env rep = SGX_SUCCESS"
    "rb_report_data (report_body rep) = msg3_data H lav2 ga (msg2_made M lav2 smk' gb rep')"
    "copied (msg3_made M lav2 smk ga rep m) m'"
  shows "msg3_ok env H M lav2 smk gb ga m'"
proof -
  have "length (H x) = 32" for x using assms(1) by (simp add: digest_sizes_def)
  then show ?thesis
    using assms
    by (cases lav2) (simp_all add: msg3_ok_def msg3_made_def copied_def mac_input3_def msg3_data_def msg2_made_def
        lav2_spec_reads Let_def write_at_def)
qed

lemma msg2_made_fields [simp]:
  "g_b (msg2_made M lav2 smk pub rep) = pub"
  "target_info_of (m2_report (msg2_made M lav2 smk pub rep)) = target_info_of rep"
  "wf_report rep \<Longrightarrow> wf_report (m2_report (msg2_made M lav2 smk pub rep))"
  by (simp_all add: msg2_made_def target_info_of_def wf_report_def Let_def)

lemma length_msg2_made_cmac: "digest_sizes H M \<Longrightarrow> length (m2_cmac (msg2_made M lav2 smk pub rep)) = 16"
  by (simp add: msg2_made_def digest_sizes_def)

lemma session_run:
  assumes rok: "crypto_ok renv H M gen dh rsctx rmctx" and iok: "crypto_ok ienv H M gen dh isctx imctx"
    and law: "dh_law gen dh" and att: "attests renv ienv" "attests ienv renv"
    and pl: "placed renv rpl" "placed ienv ipl" and propok: "prop_ok renv (v_msg3 r0)"
    and start: "v_resp r0 = SgxDhResponder_init_session" "v_init i0 = SgxDhInitiator_init_session"
  shows "\<exists>r1 i1 r2. SgxDhResponder_gen_msg1 renv rpl r0 = (Inr (), r1)
    \<and> SgxDhInitiator_proc_msg1 ienv lav2 ipl (v_msg1 r1) i0 = (Inr (), i1)
    \<and> SgxDhResponder_proc_msg2 renv lav2 rpl (v_msg2 i1) r1 = (Inr (), r2)
    \<and> additional_prop (msg3_body (v_msg3 r2)) = additional_prop (msg3_body (v_msg3 r0))
    \<and> (\<forall>msg3. copied (v_msg3 r2) msg3 \<and> prop_ok ienv msg3 \<longrightarrow>
        (\<exists>i2. SgxDhInitiator_proc_msg3 ienv lav2 ipl msg3 i1 = (Inr (), i2)
          \<and> v_aek i2 = v_aek r2 \<and> r_state (v_resp r2) = SGX_DH_SESSION_ACTIVE \<and> i_state (v_init i2) = SGX_DH_SESSION_ACTIVE
          \<and> v_ident r2 = ident2 (m2_report (v_msg2 i1)) (v_ident r1)
          \<and> v_ident i2 = ident3 (m3_report (msg3_body (v_msg3 r2))) (v_ident i1)))"
proof -
  obtain r1 a rep1 where r1: "SgxDhResponder_gen_msg1 renv rpl r0 = (Inr (), r1)"
    "sgx_create_report renv target_info_default report_data_default = (SGX_SUCCESS, rep1)"
    "v_msg1 r1 = \<lparr> g_a = gen a, m1_target = target_info_of rep1 \<rparr>" "v_msg3 r1 = v_msg3 r0"
    "v_resp r1 = (v_resp r0) \<lparr> r_state := SGX_DH_SESSION_RESPONDER_WAIT_M2, r_prv_key := a, r_pub_key := gen a \<rparr>"
    using gen_msg1_succeeds [OF rok att(1) pl(1), of r0] start
    by (auto simp: wp_def SgxDhResponder_init_session_def SgxDhResponder_default_def)
  have ga: "length (g_a (v_msg1 r1)) = 64" using crypto_okD(8) [OF rok] by (simp add: r1)
  obtain i1 b rep2 where i1: "SgxDhInitiator_proc_msg1 ienv lav2 ipl (v_msg1 r1) i0 = (Inr (), i1)"
    "sgx_create_report ienv (target_info_of rep1) (msg2_data H lav2 (gen a) (gen b)) = (SGX_SUCCESS, rep2)"
    "wf_report rep2" "rb_report_data (report_body rep2) = msg2_data H lav2 (gen a) (gen b)"
    "v_msg2 i1 = msg2_made M lav2 (kdf M (dh b (gen a)) EC_SMK_LABEL) (gen b) rep2"
    "v_init i1 = \<lparr> i_state = SGX_DH_SESSION_INITIATOR_WAIT_M3, i_smk_aek = kdf M (dh b (gen a)) EC_SMK_LABEL,
       i_pub_key = gen b, i_peer_pub_key = gen a, i_shared_key = dh b (gen a) \<rparr>"
    using proc_msg1_succeeds [OF iok att(2) pl(2) start(2) [unfolded SgxDhInitiator_init_session_def] ga, of lav2]
    by (auto simp: wp_def Let_def r1)
  have k: "dh a (gen b) = dh b (gen a)" using law by (simp add: dh_law_def)
  have ok2: "msg2_ok renv H M lav2 (kdf M (dh a (gen b)) EC_SMK_LABEL) (gen a) (v_msg2 i1)"
    unfolding i1(5) k using attestsD(2) [OF att(2) r1(2) i1(2)] i1(4) by (intro msg2_made_ok crypto_okD(7) [OF rok])
  obtain r2 where r2: "SgxDhResponder_proc_msg2 renv lav2 rpl (v_msg2 i1) r1 = (Inr (), r2)"
    using proc_msg2_succeeds [OF rok att(1) pl(1), where s = r1, of lav2 "v_msg2 i1"] ok2 propok crypto_okD(8) [OF rok] i1(3)
    by (auto simp: wp_def r1 i1(5))
  then have acc: "accepted2 renv H M dh lav2 (v_msg2 i1) r1 r2"
    using proc_msg2_accepts [OF crypto_okD(1,3,5,7) [OF rok] _ _ r2] i1(3)
    by (simp add: i1(5) length_msg2_made_cmac [OF crypto_okD(7) [OF rok]])
  then obtain rep3 where rep3: "sgx_create_report renv (target_info_of rep2) (msg3_data H lav2 (gen a) (v_msg2 i1)) = (SGX_SUCCESS, rep3)"
    "v_msg3 r2 = msg3_made M lav2 (kdf M (dh b (gen a)) EC_SMK_LABEL) (gen a) rep3 (v_msg3 r0)"
    by (auto simp: accepted2_def Let_def r1 i1(5) k rsgx_create_report_def split: prod.splits)
  have wf3: "wf_report rep3" "rb_report_data (report_body rep3) = msg3_data H lav2 (gen a) (v_msg2 i1)"
    using attestsD(1) [OF att(1) length_msg_data(2) [OF rok], of "target_info_of rep2" lav2 "gen a" "v_msg2 i1"] rep3(1) by auto
  have "\<exists>i2. SgxDhInitiator_proc_msg3 ienv lav2 ipl msg3 i1 = (Inr (), i2) \<and> accepted3 ienv H M lav2 msg3 i1 i2"
    if msg3: "copied (v_msg3 r2) msg3" "prop_ok ienv msg3" for msg3
  proof -
    have "msg3_ok ienv H M lav2 (kdf M (dh b (gen a)) EC_SMK_LABEL) (gen b) (gen a) msg3"
      by (rule msg3_made_ok [OF crypto_okD(7) [OF iok] attestsD(2) [OF att(1) i1(2) rep3(1)]
            wf3(2) [unfolded i1(5)] msg3(1) [unfolded rep3(2)]])
    moreover have "m3_report (msg3_body msg3) = rep3" "length (m3_cmac msg3) = 16"
      using msg3(1) rep3(2) crypto_okD(11) [OF iok] by (simp_all add: copied_def msg3_made_def Let_def)
    ultimately show ?thesis
      using proc_msg3_succeeds [OF iok pl(2), of i1 b "gen a" lav2 msg3] msg3(2) wf3(1) crypto_okD(8) [OF iok]
        proc_msg3_accepts [OF crypto_okD(1,3,7) [OF iok], of msg3 lav2 ipl i1]
      by (auto simp: wp_def i1(6))
  qed
  then show ?thesis
    using r1(1) i1(1) r2 acc
    by (intro exI [of _ r1] exI [of _ i1] exI [of _ r2])
      (fastforce simp: accepted2_def accepted3_def Let_def r1(5) i1(5,6) k copied_def rep3(2) msg3_made_def)
qed

section \<open>What is left in memory\<close>

lemma fails_rtry [fail_rules]: "fails m Q \<Longrightarrow> (\<And>a. fails (f a) Q) \<Longrightarrow> fails (rtry m f) Q"
  unfolding fails_def rtry_def by (auto split: prod.splits sum.splits)

lemma fails_case_prod [fail_rules]: "(\<And>x y. fails (f x y) Q) \<Longrightarrow> fails (case p of (x, y) \<Rightarrow> f x y) Q"
  by (cases p) simp

lemma fails_basic [fail_rules]: "fails (rread g) Q" "fails (rmodify f) Q'"
  by (simp_all add: fails_def rread_def rmodify_def)

abbreviation resp_failed :: SgxDhResponder where
  "resp_failed \<equiv> SgxDhResponder_default \<lparr> r_state := SGX_DH_SESSION_STATE_ERROR \<rparr>"

abbreviation init_failed :: SgxDhInitiator where
  "init_failed \<equiv> SgxDhInitiator_default \<lparr> i_state := SGX_DH_SESSION_STATE_ERROR \<rparr>"

lemma fails_try [fail_rules]:
  "fails (resp_try m) (\<lambda>t. v_resp t = resp_failed)" "fails (init_try m') (\<lambda>t. v_init t = init_failed)"
  by (auto simp: fails_def resp_try_def init_try_def SgxDhResponder_set_error_def SgxDhInitiator_set_error_def
      split: prod.splits sum.splits)

lemma fails_with_ecc [fail_rules]:
  "fails m (\<lambda>t. v_resp t = r) \<Longrightarrow> fails (with_ecc env m) (\<lambda>t. v_resp t = r)"
  "fails m' (\<lambda>t. v_init t = i) \<Longrightarrow> fails (with_ecc env m') (\<lambda>t. v_init t = i)"
  by (auto simp: fails_def with_ecc_def split: prod.splits)

lemma wlp_case_prod: "wlp (case p of (x, y) \<Rightarrow> f x y) P = wlp (f (fst p) (snd p)) P"
  by (cases p) simp

lemma wlp_any: "(\<And>a t. P a t) \<Longrightarrow> wlp m P s"
  by (simp add: wlp_def)

lemma outcome_cases:
  assumes "fails m Q" "wlp m (\<lambda>_ t. R t) s"
  shows "Q (snd (m s)) \<or> R (snd (m s))"
  using assms by (cases "m s"; cases "fst (m s)") (auto simp: fails_def wlp_def)

text \<open>
  A responder keeps a private key only while it waits for the second message, and no other secret; an
  initiator keeps its keys only while it waits for the third.
\<close>

definition resp_clean :: "SgxDhResponder \<Rightarrow> bool" where
  "resp_clean r \<longleftrightarrow>
     (if r_state r = SGX_DH_SESSION_RESPONDER_WAIT_M2
      then r_smk_aek r = replicate 16 0 \<and> r_shared_key r = replicate 32 0
      else r = SgxDhResponder_default \<lparr> r_state := r_state r \<rparr>)"

definition init_clean :: "SgxDhInitiator \<Rightarrow> bool" where
  "init_clean i \<longleftrightarrow> i_state i \<noteq> SGX_DH_SESSION_INITIATOR_WAIT_M3 \<longrightarrow> i = SgxDhInitiator_default \<lparr> i_state := i_state i \<rparr>"

lemma clean_values:
  "resp_clean SgxDhResponder_default" "resp_clean resp_failed"
  "resp_clean (SgxDhResponder_default \<lparr> r_state := SGX_DH_SESSION_ACTIVE \<rparr>)"
  "init_clean SgxDhInitiator_default" "init_clean init_failed"
  "init_clean (SgxDhInitiator_default \<lparr> i_state := SGX_DH_SESSION_ACTIVE \<rparr>)"
  by (simp_all add: resp_clean_def init_clean_def SgxDhResponder_default_def SgxDhInitiator_default_def)

lemma if_intro: "(b \<Longrightarrow> P x) \<Longrightarrow> (\<not> b \<Longrightarrow> P y) \<Longrightarrow> P (if b then x else y)"
  by simp

lemma resp_with_ecc:
  assumes "fails m (\<lambda>t. v_resp t = r)" "\<And>s. wlp m (\<lambda>_ t. v_resp t = r') s"
  shows "v_resp (snd (with_ecc env m s)) \<in> {r0, r, r'}"
proof -
  have "v_resp (snd (with_ecc env m s)) = r \<or> v_resp (snd (with_ecc env m s)) = r'"
    using assms by (intro outcome_cases fails_with_ecc wlp_with) simp_all
  then show ?thesis by auto
qed

lemma init_with_ecc:
  assumes "fails m (\<lambda>t. v_init t = i)" "\<And>s. wlp m (\<lambda>_ t. init_clean (v_init t)) s" "init_clean i"
  shows "init_clean (v_init (snd (with_ecc env m s)))"
proof -
  have "v_init (snd (with_ecc env m s)) = i \<or> init_clean (v_init (snd (with_ecc env m s)))"
    using assms by (intro outcome_cases fails_with_ecc wlp_with) simp_all
  then show ?thesis using assms(3) by auto
qed

lemma proc_msg2_outcome:
  "v_resp (snd (SgxDhResponder_proc_msg2 env lav2 pl msg2 s))
     \<in> {v_resp s, resp_failed, SgxDhResponder_default \<lparr> r_state := SGX_DH_SESSION_ACTIVE \<rparr>}"
  unfolding SgxDhResponder_proc_msg2_def Let_def
  apply (rule if_intro [where P = "\<lambda>x. v_resp (snd x) \<in> {v_resp s, resp_failed, SgxDhResponder_default \<lparr> r_state := SGX_DH_SESSION_ACTIVE \<rparr>}"], simp)+
  apply (rule resp_with_ecc)
   apply (intro fails_rtry fails_basic fails_try)
  apply (simp only: wlp_rtry try_transformers wlp_basic)
  apply (intro wlp_any allI impI)
  apply simp
  done

lemma proc_msg1_clean:
  "init_clean (v_init s) \<Longrightarrow> init_clean (v_init (snd (SgxDhInitiator_proc_msg1 env lav2 pl msg1 s)))"
  unfolding SgxDhInitiator_proc_msg1_def Let_def
  apply (rule if_intro [where P = "\<lambda>x. init_clean (v_init (snd x))"], simp add: clean_values)+
  apply (rule init_with_ecc [where i = init_failed])
    apply (intro fails_rtry fails_case_prod fails_basic fails_try)
   apply (simp only: wlp_rtry wlp_case_prod try_transformers wlp_basic)
   apply (intro wlp_any allI impI)
   apply (simp add: init_clean_def)
  apply (simp add: clean_values)
  done

lemma proc_msg3_clean:
  "init_clean (v_init s) \<Longrightarrow> init_clean (v_init (snd (SgxDhInitiator_proc_msg3 env lav2 pl msg3 s)))"
proof -
  assume s: "init_clean (v_init s)"
  have body: "init_clean (v_init (snd (m s)))"
    if "fails m (\<lambda>t. v_init t = init_failed)" "\<And>s. wlp m (\<lambda>_ t. init_clean (v_init t)) s" for m
    using outcome_cases [OF that(1) that(2) [of s]] clean_values(5) by auto
  show ?thesis
    unfolding SgxDhInitiator_proc_msg3_def Let_def
    apply (rule if_intro [where P = "\<lambda>x. init_clean (v_init (snd x))"], use s in \<open>simp add: clean_values\<close>)+
    apply (rule body)
     apply (intro fails_rtry fails_basic fails_try)
    apply (simp only: wlp_rtry try_transformers wlp_basic)
    apply (intro wlp_any allI impI)
    apply (simp add: clean_values)
    done
qed

lemma wlp_on_ecc: "(\<And>a h c. P a (s \<lparr> v_ecc := h, lib := c \<rparr>)) \<Longrightarrow> wlp (on_ecc m) P s"
  by (auto simp: wlp_def on_ecc_def split: prod.splits)

lemma gen_msg1_clean:
  assumes "resp_clean (v_resp s)"
  shows "resp_clean (v_resp (snd (SgxDhResponder_gen_msg1 env pl s)))"
proof (cases "r_state (v_resp s) = SGX_DH_SESSION_STATE_RESET")
  case True
  then have s: "v_resp s = SgxDhResponder_default"
    using assms by (simp add: resp_clean_def SgxDhResponder_default_def)
  have "wlp (SgxDhResponder_dh_generate_message1 env)
      (\<lambda>_ t. r_smk_aek (v_resp t) = replicate 16 0 \<and> r_shared_key (v_resp t) = replicate 32 0) s"
    unfolding SgxDhResponder_dh_generate_message1_def wlp_rtry wlp_basic
    by (auto simp: wlp_rtry wlp_basic wlp_case_prod s SgxDhResponder_default_def split: prod.split
        intro!: wlp_with wlp_on_ecc)
  then show ?thesis
    by (auto simp: SgxDhResponder_gen_msg1_def wlp_def assms clean_values split: sum.split prod.split)
      (auto simp: resp_clean_def)
qed (auto simp: SgxDhResponder_gen_msg1_def assms clean_values)

text \<open>
  The life of a responder and of an initiator: any methods in any order with any arguments, new
  sessions, and anything the program does to the rest of the memory.
\<close>

inductive resp_step :: "('c, 'z) thandle_ext_scheme \<Rightarrow> 'c dh_vars \<Rightarrow> 'c dh_vars \<Rightarrow> bool" for env where
  resp_gen: "resp_step env s (snd (SgxDhResponder_gen_msg1 env pl s))"
| resp_proc: "resp_step env s (snd (SgxDhResponder_proc_msg2 env lav2 pl msg2 s))"
| resp_new: "resp_step env s (s \<lparr> v_resp := SgxDhResponder_init_session \<rparr>)"
| resp_other: "v_resp t = v_resp s \<Longrightarrow> resp_step env s t"

inductive init_step :: "('c, 'z) thandle_ext_scheme \<Rightarrow> 'c dh_vars \<Rightarrow> 'c dh_vars \<Rightarrow> bool" for env where
  init_proc1: "init_step env s (snd (SgxDhInitiator_proc_msg1 env lav2 pl msg1 s))"
| init_proc3: "init_step env s (snd (SgxDhInitiator_proc_msg3 env lav2 pl msg3 s))"
| init_new: "init_step env s (s \<lparr> v_init := SgxDhInitiator_init_session \<rparr>)"
| init_other: "v_init t = v_init s \<Longrightarrow> init_step env s t"

interpretation resp_machine: invariant_machine "\<lambda>s. v_resp s = SgxDhResponder_init_session" "resp_step env"
  "\<lambda>s. resp_clean (v_resp s)" for env
proof
  fix s t
  show "resp_clean (v_resp t)" if "resp_step env s t" "resp_clean (v_resp s)"
    using that
  proof cases
    case (resp_proc lav2 pl msg2)
    then show ?thesis
      using proc_msg2_outcome [of env lav2 pl msg2 s] that(2) clean_values by auto
  qed (simp_all add: gen_msg1_clean SgxDhResponder_init_session_def clean_values)
qed (simp add: SgxDhResponder_init_session_def clean_values)

interpretation init_machine: invariant_machine "\<lambda>s. v_init s = SgxDhInitiator_init_session" "init_step env"
  "\<lambda>s. init_clean (v_init s)" for env
proof
  fix s t
  show "init_clean (v_init t)" if "init_step env s t" "init_clean (v_init s)"
    using that by cases (simp_all add: proc_msg1_clean proc_msg3_clean SgxDhInitiator_init_session_def clean_values)
qed (simp add: SgxDhInitiator_init_session_def clean_values)

section \<open>Two enclaves\<close>

text \<open>
  Enclave \<open>n\<close> of a machine in which a report for a target carries, in the place of its MAC, the first
  half of the measurement in the target information.
\<close>

definition enclave_report :: "u8 \<Rightarrow> bytes \<Rightarrow> bytes \<Rightarrow> sgx_report_t" where
  "enclave_report n t d = model_report \<lparr> report_body := (report_body model_report)
     \<lparr> rb_mr_enclave := replicate 32 n, rb_report_data := d \<rparr>, report_mac := take 16 (t @ replicate 16 0) \<rparr>"

definition enclave_env :: "u8 \<Rightarrow> lib_state thandle_ext" where
  "enclave_env n = model_env (\<lambda>t d. (SGX_SUCCESS, enclave_report n t d))
     (\<lambda>r. if report_mac r = replicate 16 n then SGX_SUCCESS else SGX_ERROR_MAC_MISMATCH)
     (enclave_report n (replicate 512 0) (replicate 64 0))"

definition enclave_place :: dh_place where
  "enclave_place = \<lparr> a_self = 0x1000, sz_self = 208, a_msg1 = 0x2000, a_msg2 = 0x3000, a_msg3 = 0x4000,
     sz_msg3 = 464, a_aek = 0x5000, a_ident = 0x6000 \<rparr>"

definition enclave_mem :: "u8 \<Rightarrow> lib_state dh_vars" where
  "enclave_mem seed =
     \<lparr> v_resp = SgxDhResponder_init_session, v_init = SgxDhInitiator_init_session,
       v_msg1 = \<lparr> g_a = replicate 64 0, m1_target = target_info_default \<rparr>,
       v_msg2 = \<lparr> g_b = replicate 64 0, m2_report = report_default, m2_cmac = replicate 16 0 \<rparr>,
       v_msg3 = sample_msg3, v_aek = replicate 16 0,
       v_ident = \<lparr> id_cpu_svn = replicate 16 0, id_misc_select = 0, id_reserved_1 = replicate 28 0,
         id_attributes = \<lparr> attr_flags = 0, attr_xfrm = 0 \<rparr>, id_mr_enclave = replicate 32 0,
         id_reserved_2 = replicate 32 0, id_mr_signer = replicate 32 0, id_reserved_3 = replicate 96 0,
         id_isv_prod_id = 0, id_isv_svn = 0 \<rparr>,
       lib = ([], ([], []), seed), v_sha = SgxShaHandle_new, v_cmac = SgxCmacHandle_new, v_ecc = SgxEccHandle_new \<rparr>"

lemma enclave_crypto_ok:
  "crypto_ok (enclave_env n) (model_sum 32) (\<lambda>k b. model_sum 16 (k @ b)) model_gen model_dh model_sha_ctx model_cmac_ctx"
  unfolding crypto_ok_def enclave_env_def
  by (simp add: model_sha_spec model_sha_total model_cmac_spec model_cmac_total model_ecdh_spec model_ecdh_total)
    (auto simp: digest_sizes_def model_sum_def model_gen_def model_dh_def)

lemma enclave_attests: "attests (enclave_env m) (enclave_env n)"
  by (auto simp: attests_def enclave_env_def model_env_def enclave_report_def model_report_def wf_report_def
      target_info_of_def Let_def)

lemma enclave_placed: "placed (enclave_env n) enclave_place"
  by (simp add: placed_def enclave_place_def enclave_env_def model_env_def rsgx_data_is_within_enclave_def
      rsgx_raw_is_within_enclave_def)

lemma enclave_prop_ok: "additional_prop (msg3_body m) = additional_prop (msg3_body sample_msg3) \<Longrightarrow> prop_ok (enclave_env n) m"
  by (simp add: prop_ok_def sample_msg3_def enclave_env_def model_env_def rsgx_slice_is_within_enclave_def
      rsgx_raw_is_within_enclave_def)

lemma enclave_mem_fields:
  "prop_ok (enclave_env 1) (v_msg3 (enclave_mem 3))" "v_resp (enclave_mem 3) = SgxDhResponder_init_session"
  "v_init (enclave_mem 5) = SgxDhInitiator_init_session" "v_msg3 (enclave_mem 3) = sample_msg3"
  by (simp_all add: enclave_prop_ok enclave_mem_def)

section \<open>Correctness\<close>





text \<open>
  C8.  Keys do not outlive the phase that needs them.  In every state a program can reach, with any
  sequence of calls, any messages and any failures, a responder holds a private key only while it
  waits for the second message and never a derived key or the shared secret, and an initiator holds
  keys only while it waits for the third message; in every other state, in particular after an
  error and once the session is active, all key fields are zero.
\<close>

theorem sessions_keep_no_keys:
  assumes "reach (\<lambda>s. v_resp s = SgxDhResponder_init_session) (resp_step env) s"
    and "reach (\<lambda>s. v_init s = SgxDhInitiator_init_session) (init_step env) t"
  shows "resp_clean (v_resp s) \<and> init_clean (v_init t)"
  using resp_machine.reach_inv [OF assms(1)] init_machine.reach_inv [OF assms(2)] by simp

theorem sessions_keep_no_keys_witness:
  "resp_clean (v_resp (snd (SgxDhResponder_gen_msg1 (enclave_env 1) enclave_place (enclave_mem 3))))
   \<and> r_state (v_resp (snd (SgxDhResponder_gen_msg1 (enclave_env 1) enclave_place (enclave_mem 3))))
       = SGX_DH_SESSION_RESPONDER_WAIT_M2"
proof -
  have "reach (\<lambda>s. v_resp s = SgxDhResponder_init_session) (resp_step (enclave_env 1))
      (snd (SgxDhResponder_gen_msg1 (enclave_env 1) enclave_place (enclave_mem 3)))"
    by (rule reach_step [OF reach_init [of _ "enclave_mem 3"]]) (simp_all add: enclave_mem_fields resp_gen)
  moreover have "reach (\<lambda>s. v_init s = SgxDhInitiator_init_session) (init_step (enclave_env 1)) (enclave_mem 5)"
    by (rule reach_init) (simp add: enclave_mem_fields)
  moreover have "r_state (v_resp (snd (SgxDhResponder_gen_msg1 (enclave_env 1) enclave_place (enclave_mem 3))))
      = SGX_DH_SESSION_RESPONDER_WAIT_M2"
    using gen_msg1_succeeds [OF enclave_crypto_ok enclave_attests [of 1 2] enclave_placed, of "enclave_mem 3"]
    by (auto simp: wp_def enclave_mem_def SgxDhResponder_init_session_def SgxDhResponder_default_def)
  ultimately show ?thesis using sessions_keep_no_keys by blast
qed

end
