(* ===== verification/Align_Layout.thy ===== *)
theory Align_Layout
  imports Sgx_Prelude
begin

text \<open>
  \<open>sgx_alloc\<close> (alignalloc.rs), the part that computes: how far an object has to be shifted inside a
  64-byte cache line, and how the result has to be aligned, so that no byte of the requested ranges
  falls on a position of the line that processors affected by INTEL-SA-00219 may disclose.  The
  code does this with one 64-bit map of the requested bytes and rotations; the lemmas show that it
  is a search for the first admissible shift.  \<open>i64\<close> values are kept as their 64-bit pattern; sums
  and shifts wrap and mask as in a release build.
\<close>

section \<open>Model\<close>

record AlignReq =
  ar_offset :: usize
  ar_len :: usize

text \<open>
  \<open>core::alloc::Layout\<close> with the check of \<open>Layout::from_size_align\<close> of the toolchain the repository
  pins: the alignment is a power of two and rounding the size up to it does not overflow.
\<close>

record Layout =
  lay_size :: usize
  lay_align :: usize

definition is_power_of_two :: "usize \<Rightarrow> bool" where
  "is_power_of_two n \<longleftrightarrow> n \<in> set (map (\<lambda>k. push_bit k 1) [0..<64])"

definition Layout_from_size_align :: "usize \<Rightarrow> usize \<Rightarrow> Layout option" where
  "Layout_from_size_align sz al =
     (if \<not> is_power_of_two al then None
      else if sz > - 1 - (al - 1) then None
      else Some \<lparr> lay_size = sz, lay_align = al \<rparr>)"

definition check_overflow :: "usize \<Rightarrow> usize \<Rightarrow> bool" where
  "check_overflow buf len \<longleftrightarrow> \<not> unat buf + unat len < 2 ^ 64"

definition check_layout :: "Layout \<Rightarrow> bool" where
  "check_layout layout \<longleftrightarrow>
     \<not> (lay_size layout = 0 \<or> \<not> is_power_of_two (lay_align layout)
        \<or> lay_size layout > - 1 - (lay_align layout - 1))"

text \<open>A shift of a 64-bit value uses the low six bits of the shift count.\<close>

definition shl :: "u64 \<Rightarrow> usize \<Rightarrow> u64" where
  "shl v c = push_bit (unat (c AND 63)) v"

definition shr :: "u64 \<Rightarrow> usize \<Rightarrow> u64" where
  "shr v c = drop_bit (unat (c AND 63)) v"

function gen_alignmask :: "usize \<Rightarrow> usize \<Rightarrow> u64 \<Rightarrow> u64" where
  "gen_alignmask al a m =
     (if a > al then gen_alignmask al (a div 2) (m OR shr m (a div 2)) else m)"
  by pat_completeness auto

lemma half_less: "b < a \<Longrightarrow> unat ((a :: usize) div 2) < unat a"
proof -
  assume "b < a"
  then have "0 < unat a" by (metis gr_zeroI not_less_zero unat_0 word_less_nat_alt)
  then show ?thesis by (simp add: unat_div)
qed

termination gen_alignmask
  by (relation "measure (\<lambda>(al, a, m). unat a)") (auto intro: half_less)

definition rol_u64 :: "u64 \<Rightarrow> usize \<Rightarrow> usize \<Rightarrow> u64" where
  "rol_u64 v c m = shl v (c AND m) OR shr v ((0 - c) AND m)"

definition rol :: "u64 \<Rightarrow> usize \<Rightarrow> u64" where
  "rol v c = rol_u64 v c (8 * 8 - 1)"

definition ror :: "u64 \<Rightarrow> usize \<Rightarrow> u64" where
  "ror v c = rol v (0 - c)"

function count_lzb :: "u64 \<Rightarrow> int" where
  "count_lzb bmp =
     (if bmp = 0 then - 1
      else if sint bmp < 0 then 0
      else count_lzb (push_bit 1 bmp) + 1)"
  by pat_completeness auto

lemma top_bit: "sint (w :: u64) < 0 \<longleftrightarrow> bit w 63"
  using bit_last_iff [of w] by simp

lemma unat_double: "\<not> bit (w :: u64) 63 \<Longrightarrow> unat (push_bit 1 w) = 2 * unat w"
proof -
  assume "\<not> bit w 63"
  then have "i < 63" if "bit w i" for i
    using that bit_imp_le_length [OF that] by (cases "i = 63") auto
  then have "take_bit 63 w = w" by (intro bit_word_eqI) (auto simp: bit_take_bit_iff)
  then have "unat w < 2 ^ 63" by (metis take_bit_nat_less_exp unsigned_take_bit_eq)
  then show ?thesis by (simp add: push_bit_eq_mult unat_word_ariths)
qed

termination count_lzb
proof (relation "measure (\<lambda>w. 2 ^ 64 - unat w)")
  fix w :: u64
  assume "w \<noteq> 0" "\<not> sint w < 0"
  then have "unat (push_bit 1 w) = 2 * unat w" "0 < unat w" by (simp_all only: top_bit unat_double unat_gt_0 not_False_eq_True)
  then have "unat w < unat (push_bit 1 w)" by linarith
  moreover have "unat w < 2 ^ 64" using unsigned_less [of w] by simp
  ultimately show "(push_bit 1 w, w) \<in> measure (\<lambda>w. 2 ^ 64 - unat w)" by (simp add: diff_less_mono2)
qed simp

declare gen_alignmask.simps [simp del] count_lzb.simps [simp del]

definition calc_lspc :: "usize \<Rightarrow> u64 \<Rightarrow> int" where
  "calc_lspc al bmp =
     (if \<not> is_power_of_two al then - 2
      else count_lzb
        (NOT (ror (bmp OR ror bmp 1 OR ror bmp 2 OR ror bmp 3) 5 OR ror bmp 1)
         AND gen_alignmask al (8 * 8) (shl 1 (8 * 8 - 1))))"

function calc_algn_loop :: "usize \<Rightarrow> usize \<Rightarrow> usize" where
  "calc_algn_loop sz a = (if a > 8 \<and> sz \<le> a div 2 then calc_algn_loop sz (a div 2) else a)"
  by pat_completeness auto

termination calc_algn_loop
  by (relation "measure (\<lambda>(sz, a). unat a)") (auto intro: half_less)

declare calc_algn_loop.simps [simp del]

definition calc_algn :: "usize \<Rightarrow> usize \<Rightarrow> usize" where
  "calc_algn al sz = (if al > 64 then al else calc_algn_loop sz (8 * 8))"

fun make_bitmap_loop :: "u64 \<Rightarrow> AlignReq list \<Rightarrow> u64" where
  "make_bitmap_loop bmp [] = bmp"
| "make_bitmap_loop bmp (req # reqs) =
     (if ar_len req > 63 then - 1
      else make_bitmap_loop (bmp OR rol (shl 1 (ar_len req) - 1) (ar_offset req)) reqs)"

definition make_bitmap :: "AlignReq list \<Rightarrow> u64" where
  "make_bitmap align_req = make_bitmap_loop 0 align_req"

definition align_needed_for :: "Layout \<Rightarrow> usize \<Rightarrow> usize" where
  "align_needed_for layout offset = calc_algn (lay_align layout) (lay_size layout + offset)"

section \<open>Rotations\<close>

lemma unat_and_63: "unat (c AND 63 :: usize) = unat c mod 64"
proof -
  have "c AND 63 = take_bit 6 c" by (simp add: take_bit_eq_mask mask_eq_exp_minus_1)
  then show ?thesis by (simp add: take_bit_eq_mod unat_mod)
qed

lemma mod64_once: "n < 128 \<Longrightarrow> n mod 64 = (if n < 64 then n else n - (64 :: nat))"
  by (simp add: le_mod_geq)

lemma complement_mod64: "(a + b) mod 64 = 0 \<Longrightarrow> b mod 64 = (64 - a mod 64) mod (64 :: nat)"
proof -
  assume "(a + b) mod 64 = 0"
  then have "(a mod 64 + b mod 64) mod 64 = 0" by (simp add: mod_simps)
  moreover have "a mod 64 < 64" "b mod 64 < 64" by simp_all
  ultimately show ?thesis by (auto simp: mod64_once [of "a mod 64 + b mod 64"] mod64_once [of "64 - a mod 64"] split: if_splits)
qed

lemma unat_uminus_mod64: "unat (- c :: usize) mod 64 = (64 - unat c mod 64) mod 64"
proof (rule complement_mod64)
  have "(unat c + unat (- c)) mod 2 ^ 64 = 0"
    using unat_word_ariths(1) [of c "- c"] by simp
  then have "(2 :: nat) ^ 64 dvd unat c + unat (- c)" by (simp only: dvd_eq_mod_eq_0)
  then have "(64 :: nat) dvd unat c + unat (- c)" by (rule dvd_trans [rotated]) simp
  then show "(unat c + unat (- c)) mod 64 = 0" by simp
qed

lemma bit_rol: "i < 64 \<Longrightarrow> bit (rol v c) i \<longleftrightarrow> bit v ((i + (64 - unat c mod 64)) mod 64)"
proof -
  assume i: "i < 64"
  define k where "k = unat c mod 64"
  have k: "k < 64" by (simp add: k_def)
  have "rol v c = push_bit k v OR drop_bit ((64 - k) mod 64) v"
    by (simp add: rol_def rol_u64_def shl_def shr_def unat_and_63 unat_uminus_mod64 k_def)
  moreover have "(i + (64 - k)) mod 64 = (if k \<le> i then i - k else i + 64 - k)"
    using i k by (simp add: mod64_once)
  moreover have "\<not> bit v (i + 64 - k)" if "k \<le> i"
    using that not_bit_length [of v] bit_imp_le_length [of v "i + 64 - k"] by auto
  ultimately show ?thesis
    using i k by (cases "k = 0") (auto simp: bit_simps add.commute simp flip: k_def)
qed

lemma bit_ror: "i < 64 \<Longrightarrow> bit (ror v c) i \<longleftrightarrow> bit v ((i + unat c) mod 64)"
proof -
  assume i: "i < 64"
  have "(i + (64 - (64 - unat c mod 64) mod 64)) mod 64 = (i + unat c) mod 64"
  proof (cases "unat c mod 64 = 0")
    case True
    then have "(i + unat c) mod 64 = i mod 64" by (simp add: mod_add_eq flip: mod_add_right_eq)
    with True show ?thesis by simp
  next
    case False
    then have "(64 - unat c mod 64) mod 64 = 64 - unat c mod 64" by simp
    then show ?thesis by (simp add: mod_simps less_imp_le)
  qed
  then show ?thesis by (simp add: ror_def bit_rol [OF i] unat_uminus_mod64)
qed

section \<open>The bitmap of the requested bytes\<close>

text \<open>\<open>req_bytes r\<close> are the offsets of the bytes of one request, \<open>covered\<close> those of all requests.\<close>

definition req_bytes :: "AlignReq \<Rightarrow> nat list" where
  "req_bytes r = [unat (ar_offset r)..<unat (ar_offset r) + unat (ar_len r)]"

definition covered :: "AlignReq list \<Rightarrow> nat list" where
  "covered reqs = concat (map req_bytes reqs)"

lemma covered_simps [simp]: "covered [] = []" "covered (r # rs) = req_bytes r @ covered rs"
  by (simp_all add: covered_def)

lemma in_req_bytes: "(\<exists>b\<in>set (req_bytes r). P b) \<longleftrightarrow> (\<exists>j<unat (ar_len r). P (unat (ar_offset r) + j))"
proof -
  have "set (req_bytes r) = (+) (unat (ar_offset r)) ` {0..<unat (ar_len r)}"
    by (simp add: req_bytes_def image_add_atLeastLessThan add.commute)
  then show ?thesis by (simp only: bex_simps(7)) auto
qed

lemma residue_shift:
  assumes "i < 64" "n \<le> 64"
  shows "(i + (64 - k mod 64)) mod 64 < n \<longleftrightarrow> (\<exists>j<n. (k + j) mod 64 = (i :: nat))"
proof -
  define q where "q = k mod 64"
  have q: "q < 64" "\<And>j. (k + j) mod 64 = (q + j) mod 64" by (simp_all add: q_def mod_simps)
  have "(i + (64 - q)) mod 64 < n \<longleftrightarrow> (\<exists>j<n. (q + j) mod 64 = i)"
  proof (cases "q \<le> i")
    case True
    then have "(i + (64 - q)) mod 64 = i - q" using assms q by (simp add: mod64_once)
    moreover have "(q + j) mod 64 = i \<longleftrightarrow> j = i - q" if "j < 64" for j using that True q assms by (auto simp: mod64_once)
    ultimately show ?thesis using assms(2) by (metis less_le_trans)
  next
    case False
    then have "(i + (64 - q)) mod 64 = i + 64 - q" using assms q by (simp add: mod64_once)
    moreover have "(q + j) mod 64 = i \<longleftrightarrow> j = i + 64 - q" if "j < 64" for j using that False q assms by (auto simp: mod64_once)
    ultimately show ?thesis using assms(2) by (metis less_le_trans)
  qed
  then show ?thesis by (simp add: q flip: q_def)
qed

lemma bit_request:
  assumes "i < 64" "unat (ar_len r) \<le> 63"
  shows "bit (rol (shl 1 (ar_len r) - 1) (ar_offset r)) i \<longleftrightarrow> (\<exists>b\<in>set (req_bytes r). b mod 64 = i)"
proof -
  have "shl 1 (ar_len r) - 1 = mask (unat (ar_len r))"
    using assms(2) by (simp add: shl_def unat_and_63 mask_eq_exp_minus_1 push_bit_eq_mult)
  then have "bit (rol (shl 1 (ar_len r) - 1) (ar_offset r)) i
      \<longleftrightarrow> (i + (64 - unat (ar_offset r) mod 64)) mod 64 < unat (ar_len r)"
    using assms by (simp add: bit_rol bit_mask_iff)
  also have "\<dots> \<longleftrightarrow> (\<exists>j<unat (ar_len r). (unat (ar_offset r) + j) mod 64 = i)"
    using residue_shift [OF assms(1), of "unat (ar_len r)"] assms(2) by simp
  finally show ?thesis by (auto simp: in_req_bytes)
qed

lemma long_request:
  assumes "i < 64" "\<not> unat (ar_len r) \<le> 63"
  shows "\<exists>b\<in>set (req_bytes r). b mod 64 = i"
proof -
  obtain j where "j < 64" "(unat (ar_offset r) + j) mod 64 = i"
    using residue_shift [OF assms(1), of 64 "unat (ar_offset r)"] by auto
  moreover have "j < unat (ar_len r)" using \<open>j < 64\<close> assms(2) by linarith
  ultimately show ?thesis unfolding in_req_bytes by blast
qed

lemma bit_make_bitmap_loop:
  "i < 64 \<Longrightarrow> bit (make_bitmap_loop bmp reqs) i \<longleftrightarrow> bit bmp i \<or> (\<exists>b\<in>set (covered reqs). b mod 64 = i)"
proof (induction reqs arbitrary: bmp)
  case (Cons r reqs)
  show ?case
  proof (cases "unat (ar_len r) \<le> 63")
    case True
    then have "\<not> ar_len r > 63" by (simp add: word_less_nat_alt)
    then show ?thesis using Cons bit_request [OF Cons.prems True] by (auto simp: bit_or_iff)
  next
    case False
    then have "ar_len r > 63" by (simp add: word_less_nat_alt)
    then show ?thesis using Cons.prems long_request [OF Cons.prems False] by (auto simp: bit_minus_1_iff)
  qed
qed simp

lemma bit_make_bitmap: "i < 64 \<Longrightarrow> bit (make_bitmap reqs) i \<longleftrightarrow> (\<exists>b\<in>set (covered reqs). b mod 64 = i)"
  by (simp add: make_bitmap_def bit_make_bitmap_loop)

section \<open>Masks and leading zeros\<close>

lemma unat_exp64: "k < 64 \<Longrightarrow> unat (2 ^ k :: usize) = 2 ^ k"
proof -
  assume "k < 64"
  then have "(2 :: nat) ^ k < 2 ^ 64" by (intro power_strict_increasing) auto
  then have "unat (of_nat (2 ^ k) :: usize) = 2 ^ k" by (simp only: unat_of_nat) simp
  then show ?thesis by simp
qed

lemma is_power_of_two_iff: "is_power_of_two n \<longleftrightarrow> (\<exists>k<64. unat n = 2 ^ k)"
proof -
  have "unat (push_bit k 1 :: usize) = 2 ^ k" if "k < 64" for k
    using that by (simp add: push_bit_eq_mult unat_exp64)
  moreover have "is_power_of_two n \<longleftrightarrow> (\<exists>k<64. n = push_bit k 1)" by (auto simp: is_power_of_two_def)
  ultimately show ?thesis by (simp only: word_unat_eq_iff) metis
qed

text \<open>One halving step of \<open>gen_alignmask\<close>: the marked positions double.\<close>

lemma dvd_half_step: "2 ^ k dvd (j :: nat) \<longleftrightarrow> 2 ^ Suc k dvd j \<or> 2 ^ k \<le> j \<and> 2 ^ Suc k dvd j - 2 ^ k"
proof
  assume "2 ^ k dvd j"
  then obtain q where q: "j = 2 ^ k * q" by (elim dvdE)
  show "2 ^ Suc k dvd j \<or> 2 ^ k \<le> j \<and> 2 ^ Suc k dvd j - 2 ^ k"
  proof (cases "even q")
    case True
    then show ?thesis by (auto simp: q elim!: evenE)
  next
    case False
    then obtain p where "q = 2 * p + 1" by (elim oddE)
    then show ?thesis by (simp add: q algebra_simps)
  qed
next
  assume "2 ^ Suc k dvd j \<or> 2 ^ k \<le> j \<and> 2 ^ Suc k dvd j - 2 ^ k"
  moreover have "(2 :: nat) ^ k dvd 2 ^ Suc k" by simp
  ultimately show "2 ^ k dvd j" by (metis dvd_diffD dvd_refl dvd_trans)
qed

definition marks :: "nat \<Rightarrow> u64 \<Rightarrow> bool" where
  "marks a m \<longleftrightarrow> (\<forall>j<64. bit m (63 - j) \<longleftrightarrow> a dvd j)"

lemma marks_half:
  assumes "marks (2 ^ Suc k) m" "k < 6"
  shows "marks (2 ^ k) (m OR shr m (2 ^ k))"
  unfolding marks_def
proof (intro allI impI)
  fix j :: nat
  assume j: "j < 64"
  have k: "(2 :: nat) ^ k \<le> 2 ^ 5" using assms(2) by (intro power_increasing) auto
  then have shift: "unat (2 ^ k AND 63 :: usize) = 2 ^ k"
    using assms(2) by (simp add: unat_and_63 unat_exp64)
  have "bit m (2 ^ k + (63 - j)) \<longleftrightarrow> 2 ^ k \<le> j \<and> 2 ^ Suc k dvd j - 2 ^ k"
  proof (cases "2 ^ k \<le> j")
    case True
    then have "2 ^ k + (63 - j) = 63 - (j - 2 ^ k)" using j by simp
    moreover have "bit m (63 - (j - 2 ^ k)) \<longleftrightarrow> 2 ^ Suc k dvd j - 2 ^ k"
      using assms(1) j unfolding marks_def by (meson less_imp_diff_less)
    ultimately show ?thesis using True by simp
  next
    case False
    then show ?thesis using bit_imp_le_length [of m "2 ^ k + (63 - j)"] by auto
  qed
  then show "bit (m OR shr m (2 ^ k)) (63 - j) \<longleftrightarrow> 2 ^ k dvd j"
    using assms(1) j by (simp add: shr_def shift bit_simps marks_def dvd_half_step [of k j])
qed

lemma gen_alignmask_marks:
  assumes "unat al = 2 ^ l" "unat a = 2 ^ k" "k \<le> 6" "marks (2 ^ k) m"
  shows "marks (2 ^ min l k) (gen_alignmask al a m)"
  using assms(2-4)
proof (induction k arbitrary: a m)
  case 0
  then have "\<not> a > al" using assms(1) by (simp add: word_less_nat_alt)
  then have "gen_alignmask al a m = m" by (subst gen_alignmask.simps) simp
  then show ?case using 0 by simp
next
  case (Suc k)
  show ?case
  proof (cases "a > al")
    case True
    then have "(2 :: nat) ^ l < 2 ^ Suc k" using assms(1) Suc.prems(1) by (simp add: word_less_nat_alt)
    then have "l < Suc k" by (rule power_less_imp_less_exp [rotated]) simp
    have half: "a div 2 = 2 ^ k"
      using Suc.prems(1,2) by (simp add: word_unat_eq_iff unat_exp64 unat_div)
    have "marks (2 ^ min l k) (gen_alignmask al (2 ^ k) (m OR shr m (2 ^ k)))"
      using Suc.prems(2,3) by (intro Suc.IH marks_half) (simp_all add: unat_exp64)
    moreover have "gen_alignmask al a m = gen_alignmask al (2 ^ k) (m OR shr m (2 ^ k))"
      using True half by (subst gen_alignmask.simps) simp
    moreover have "min l (Suc k) = min l k" using \<open>l < Suc k\<close> by simp
    ultimately show ?thesis by simp
  next
    case False
    then have "(2 :: nat) ^ Suc k \<le> 2 ^ l" using assms(1) Suc.prems(1) by (simp add: word_less_nat_alt)
    then have "Suc k \<le> l" by (rule power_le_imp_le_exp [rotated]) simp
    moreover have "gen_alignmask al a m = m" using False by (subst gen_alignmask.simps) simp
    ultimately show ?thesis using Suc.prems(3) by (simp add: min_def)
  qed
qed

lemma alignmask_bit:
  assumes "is_power_of_two al" "j < 64"
  shows "bit (gen_alignmask al (8 * 8) (shl 1 (8 * 8 - 1))) (63 - j) \<longleftrightarrow> unat al dvd j"
proof -
  obtain l where l: "unat al = 2 ^ l" using assms(1) by (auto simp: is_power_of_two_iff)
  have "marks (2 ^ 6) (shl 1 (8 * 8 - 1))"
  proof -
    have "shl 1 (8 * 8 - 1) = push_bit 63 1" by (simp add: shl_def unat_and_63)
    moreover have "bit (push_bit 63 1 :: u64) (63 - j) \<longleftrightarrow> j = 0" if "j < 64" for j
      using that by (simp only: bit_push_bit_iff bit_1_iff) auto
    ultimately show ?thesis by (auto simp: marks_def dest: dvd_imp_le)
  qed
  then have "marks (2 ^ min l 6) (gen_alignmask al (8 * 8) (shl 1 (8 * 8 - 1)))"
    using gen_alignmask_marks [OF l, of "8 * 8" 6] by simp
  moreover have "2 ^ min l 6 dvd j \<longleftrightarrow> 2 ^ l dvd j"
  proof (cases "l \<le> 6")
    case False
    then have "(64 :: nat) < 2 ^ l" using power_strict_increasing [of 6 l "2 :: nat"] by simp
    moreover have "(64 :: nat) dvd j \<longleftrightarrow> j = 0" "2 ^ l dvd j \<longleftrightarrow> j = 0"
      using assms(2) \<open>64 < 2 ^ l\<close> by (auto dest: dvd_imp_le)
    ultimately show ?thesis using False by (simp add: min_def)
  qed (simp add: min_def)
  ultimately show ?thesis using assms(2) by (simp add: marks_def l)
qed

lemma count_lzb_first:
  "w \<noteq> 0 \<Longrightarrow> \<exists>c<64. count_lzb w = int c \<and> bit w (63 - c) \<and> (\<forall>d<c. \<not> bit w (63 - d))"
proof (induction w rule: count_lzb.induct)
  case (1 w)
  show ?case
  proof (cases "bit w 63")
    case True
    then show ?thesis using "1.prems" by (intro exI [of _ 0]) (simp add: count_lzb.simps [of w] top_bit)
  next
    case False
    then have "unat (push_bit 1 w) \<noteq> 0" using "1.prems" unat_double [OF False] by (simp add: unat_eq_zero)
    then have "push_bit 1 w \<noteq> 0" by (metis unat_0)
    then obtain c where c: "c < 64" "count_lzb (push_bit 1 w) = int c" "bit (push_bit 1 w) (63 - c)"
        "\<forall>d<c. \<not> bit (push_bit 1 w) (63 - d)"
      using "1.IH" "1.prems" False by (auto simp: top_bit)
    have shifted: "bit (push_bit 1 w) (63 - d) \<longleftrightarrow> bit w (63 - Suc d)" if "d < 63" for d
      using that by (simp only: bit_push_bit_iff) auto
    have "\<not> bit (push_bit 1 w) 0" by (simp only: bit_push_bit_iff) simp
    then have "c \<noteq> 63" using c(3) by auto
    then have "c < 63" using c(1) by simp
    moreover have "\<not> bit w (63 - d)" if "d < Suc c" for d
      using that c(4) shifted False \<open>c < 63\<close> by (cases d) auto
    ultimately show ?thesis
      using c shifted False "1.prems" by (intro exI [of _ "Suc c"]) (simp add: count_lzb.simps [of w] top_bit)
  qed
qed

lemma count_lzb_find:
  "count_lzb w = (case find (\<lambda>c. bit w (63 - c)) [0..<64] of None \<Rightarrow> - 1 | Some c \<Rightarrow> int c)"
proof (cases "w = 0")
  case True
  then have "find (\<lambda>c. bit w (63 - c)) [0..<64] = None" by (simp add: find_None_iff)
  with True show ?thesis by (simp add: count_lzb.simps [of 0])
next
  case False
  then obtain c where c: "c < 64" "count_lzb w = int c" "bit w (63 - c)" "\<forall>d<c. \<not> bit w (63 - d)"
    using count_lzb_first by blast
  then have "find (\<lambda>c. bit w (63 - c)) [0..<64] = Some c"
    unfolding find_Some_iff by (intro exI [of _ c]) auto
  then show ?thesis by (simp add: c(2))
qed

section \<open>The search for the shift\<close>

text \<open>
  \<open>avoided\<close> are the positions of a cache line that the code keeps requested bytes away from.
  \<open>pad_ok al reqs c\<close>: shifting the object by \<open>c\<close> from the start of a line keeps the alignment and
  puts no requested byte on such a position.  \<open>first_pad\<close> is the least such shift below 64.
\<close>

definition avoided :: "nat \<Rightarrow> bool" where
  "avoided p \<longleftrightarrow> p = 0 \<or> 4 \<le> p \<and> p < 8"

definition pad_ok :: "usize \<Rightarrow> AlignReq list \<Rightarrow> nat \<Rightarrow> bool" where
  "pad_ok al reqs c \<longleftrightarrow> unat al dvd c \<and> list_all (\<lambda>b. \<not> avoided ((c + b) mod 64)) (covered reqs)"

definition first_pad :: "usize \<Rightarrow> AlignReq list \<Rightarrow> nat option" where
  "first_pad al reqs = find (pad_ok al reqs) [0..<64]"

lemma line_position:
  fixes b c p :: nat
  assumes "c < 64" "p < 8"
  shows "b mod 64 = (64 - c + p) mod 64 \<longleftrightarrow> (c + b) mod 64 = p"
proof -
  define q where "q = b mod 64"
  have q: "q < 64" "(c + b) mod 64 = (c + q) mod 64" by (simp_all add: q_def mod_simps)
  have "(64 - c + p) mod 64 = (if c \<le> p then p - c else 64 - c + p)"
    using assms mod64_once [of "64 - c + p"] by auto
  moreover have "(c + q) mod 64 = (if c + q < 64 then c + q else c + q - 64)"
    using assms q(1) by (intro mod64_once) simp
  ultimately show ?thesis
    using assms q(1) unfolding q(2) q_def [symmetric] by (cases "c \<le> p"; cases "c + q < 64") (simp_all, linarith+)
qed

lemma unat_small: "unat (1 :: usize) = 1" "unat (2 :: usize) = 2" "unat (3 :: usize) = 3" "unat (5 :: usize) = 5"
  by simp_all

lemma rotated_bitmap:
  assumes "c < 64"
  shows "bit (ror (bmp OR ror bmp 1 OR ror bmp 2 OR ror bmp 3) 5 OR ror bmp 1) (63 - c) \<longleftrightarrow>
    (\<exists>p. avoided p \<and> bit bmp ((64 - c + p) mod 64))"
proof -
  define i where "i = 63 - c"
  then have i: "64 - c = Suc i" "i < 64" using assms by simp_all
  have "bit (ror (bmp OR ror bmp 1 OR ror bmp 2 OR ror bmp 3) 5 OR ror bmp 1) (63 - c) \<longleftrightarrow>
      bit bmp ((i + 5) mod 64) \<or> bit bmp ((i + 5 + 1) mod 64) \<or> bit bmp ((i + 5 + 2) mod 64)
      \<or> bit bmp ((i + 5 + 3) mod 64) \<or> bit bmp ((i + 1) mod 64)"
    using i(2) by (simp only: bit_or_iff bit_ror mod_less_divisor zero_less_numeral mod_add_left_eq unat_small flip: i_def) simp
  also have "\<dots> \<longleftrightarrow> bit bmp ((Suc i + 4) mod 64) \<or> bit bmp ((Suc i + 5) mod 64) \<or> bit bmp ((Suc i + 6) mod 64)
      \<or> bit bmp ((Suc i + 7) mod 64) \<or> bit bmp ((Suc i + 0) mod 64)"
    by (simp add: add.commute)
  also have "\<dots> \<longleftrightarrow> (\<exists>p\<in>{0, 4, 5, 6, 7}. bit bmp ((Suc i + p) mod 64))" by auto
  also have "\<dots> \<longleftrightarrow> (\<exists>p. avoided p \<and> bit bmp ((Suc i + p) mod 64))"
  proof -
    have "{0, 4, 5, 6, 7} = Collect avoided" by (auto simp: avoided_def)
    then show ?thesis by simp
  qed
  finally show ?thesis by (simp only: i(1))
qed

lemma lspc_bit:
  assumes "is_power_of_two al" "c < 64"
  shows "bit (NOT (ror (make_bitmap reqs OR ror (make_bitmap reqs) 1 OR ror (make_bitmap reqs) 2 OR ror (make_bitmap reqs) 3) 5
        OR ror (make_bitmap reqs) 1) AND gen_alignmask al (8 * 8) (shl 1 (8 * 8 - 1))) (63 - c) \<longleftrightarrow> pad_ok al reqs c"
proof -
  have "(\<exists>p. avoided p \<and> bit (make_bitmap reqs) ((64 - c + p) mod 64))
      \<longleftrightarrow> (\<exists>b\<in>set (covered reqs). avoided ((c + b) mod 64))"
  proof -
    have "p < 8" if "avoided p" for p using that by (auto simp: avoided_def)
    then show ?thesis using line_position [OF assms(2)] by (simp only: bit_make_bitmap mod_less_divisor zero_less_numeral) metis
  qed
  then show ?thesis
    unfolding bit_and_iff bit_not_iff rotated_bitmap [OF assms(2)] alignmask_bit [OF assms] pad_ok_def list_all_iff
    by auto
qed

lemma find_cong: "(\<And>x. x \<in> set xs \<Longrightarrow> P x = Q x) \<Longrightarrow> find P xs = find Q xs"
  by (induction xs) auto

lemma calc_lspc_first_pad:
  assumes "is_power_of_two al"
  shows "calc_lspc al (make_bitmap reqs) = (case first_pad al reqs of None \<Rightarrow> - 1 | Some c \<Rightarrow> int c)"
proof -
  let ?w = "NOT (ror (make_bitmap reqs OR ror (make_bitmap reqs) 1 OR ror (make_bitmap reqs) 2 OR ror (make_bitmap reqs) 3) 5
        OR ror (make_bitmap reqs) 1) AND gen_alignmask al (8 * 8) (shl 1 (8 * 8 - 1))"
  have "find (\<lambda>c. bit ?w (63 - c)) [0..<64] = first_pad al reqs"
    unfolding first_pad_def by (rule find_cong) (rule lspc_bit [OF assms], simp)
  then show ?thesis unfolding calc_lspc_def count_lzb_find using assms by (simp only: not_True_eq_False if_False)
qed

lemma first_pad_Some:
  "first_pad al reqs = Some c \<longleftrightarrow> c < 64 \<and> pad_ok al reqs c \<and> (\<forall>d<c. \<not> pad_ok al reqs d)"
  by (auto simp: first_pad_def find_Some_iff)

lemma first_pad_None: "first_pad al reqs = None \<longleftrightarrow> (\<forall>c<64. \<not> pad_ok al reqs c)"
  by (auto simp: first_pad_def find_None_iff)

section \<open>The alignment of the padded object\<close>

lemma calc_algn_loop_64:
  "calc_algn_loop sz 64 = (if sz \<le> 8 then 8 else if sz \<le> 16 then 16 else if sz \<le> 32 then 32 else 64)"
  by (simp add: calc_algn_loop.simps [of sz 64] calc_algn_loop.simps [of sz 32] calc_algn_loop.simps [of sz 16]
      calc_algn_loop.simps [of sz 8] word_le_nat_alt)

lemma calc_algn_cases:
  "unat (calc_algn al sz) =
     (if unat al > 64 then unat al
      else if unat sz \<le> 8 then 8 else if unat sz \<le> 16 then 16 else if unat sz \<le> 32 then 32 else 64)"
  by (simp add: calc_algn_def calc_algn_loop_64 word_le_nat_alt word_less_nat_alt)

text \<open>
  Aligning the padded object only as far as its size needs is enough: a position that is not avoided
  relative to such an address is not avoided in the cache line either.
\<close>

lemma position_in_line:
  assumes "A \<in> {8, 16, 32, 64} \<or> 64 dvd A" "A dvd base" "\<not> avoided (x mod 64)" "x < A \<or> 64 dvd A"
  shows "\<not> avoided ((base + x) mod (64 :: nat))"
proof (cases "64 dvd A")
  case True
  then have "64 dvd base" using assms(2) by (rule dvd_trans)
  then have "(base + x) mod 64 = x mod 64" by (auto elim!: dvdE simp: mod_simps)
  then show ?thesis using assms(3) by simp
next
  case False
  then have A: "A \<in> {8, 16, 32}" "x < A" using assms(1,4) by auto
  then have "A dvd 64" by auto
  then have "(base + x) mod 64 mod A = x"
    using assms(2) A(2) mod_add_left_eq [of base A x] by (simp add: mod_mod_cancel)
  moreover have "y mod A = y" if "avoided y" for y
    using that A(1) by (intro mod_less) (auto simp: avoided_def)
  moreover have "x mod 64 = x" using A by (intro mod_less) auto
  ultimately show ?thesis using assms(3) by metis
qed

section \<open>Correctness\<close>

text \<open>
  C18.  The bit tricks compute a search.  For every power of two and every list of requests, overlapping
  or longer than the bitmap included, \<open>calc_lspc\<close> over the bitmap of the requests is the least shift
  below 64 that is a multiple of the alignment and keeps every requested byte off the avoided
  positions of a cache line, and -1 when there is none.
\<close>

theorem shift_is_first_admissible:
  assumes "is_power_of_two al"
  shows "calc_lspc al (make_bitmap reqs) = (case first_pad al reqs of None \<Rightarrow> - 1 | Some c \<Rightarrow> int c)"
  using assms by (rule calc_lspc_first_pad)

theorem shift_is_first_admissible_witness:
  "calc_lspc 8 (make_bitmap [\<lparr> ar_offset = 0, ar_len = 16 \<rparr>]) = 8
   \<and> calc_lspc 1 (make_bitmap [\<lparr> ar_offset = 65, ar_len = 2 \<rparr>]) = 0"
proof -
  have "is_power_of_two 8" "is_power_of_two 1"
    by (auto simp: is_power_of_two_iff intro: exI [of _ 3] exI [of _ 0])
  moreover have "first_pad 8 [\<lparr> ar_offset = 0, ar_len = 16 \<rparr>] = Some 8"
    "first_pad 1 [\<lparr> ar_offset = 65, ar_len = 2 \<rparr>] = Some 0"
    by code_simp+
  ultimately show ?thesis by (simp add: shift_is_first_admissible)
qed

end
