(* ===== verification/Align_Alloc.thy ===== *)
theory Align_Alloc
  imports Align_Layout
begin

text \<open>
  \<open>sgx_alloc\<close> (alignalloc.rs), the part that touches the heap: checking the requested ranges with a
  bitmap on the heap, allocating the padded object with the address of its block in the eight bytes
  before it, and freeing it again.  The C functions \<open>malloc\<close> and \<open>free\<close> are fields of the
  environment; they act on the bytes of memory and on the library's own state.
\<close>

section \<open>Model\<close>

record 'h heap =
  hp_lib :: 'h
  hp_mem :: "u64 \<Rightarrow> u8"

record 'h alloc_ext =
  c_malloc :: "usize \<Rightarrow> 'h heap \<Rightarrow> u64 \<times> 'h heap"
  c_free :: "u64 \<Rightarrow> 'h heap \<Rightarrow> 'h heap"

text \<open>Stores and loads of some bytes at an address.\<close>

definition put :: "u64 \<Rightarrow> bytes \<Rightarrow> 'h heap \<Rightarrow> 'h heap" where
  "put p bs s = s \<lparr> hp_mem := \<lambda>a. if unat (a - p) < length bs then bs ! unat (a - p) else hp_mem s a \<rparr>"

definition get :: "u64 \<Rightarrow> nat \<Rightarrow> 'h heap \<Rightarrow> bytes" where
  "get p n s = map (\<lambda>i. hp_mem s (p + of_nat i)) [0..<n]"

definition and_then :: "'a outcome \<Rightarrow> ('a \<Rightarrow> 'b outcome) \<Rightarrow> 'b outcome" where
  "and_then r f = (case r of Done a \<Rightarrow> f a | Panic \<Rightarrow> Panic | Ub \<Rightarrow> Ub)"

lemma and_then_simps [simp]:
  "and_then (Done a) f = f a" "and_then Panic f = Panic" "and_then Ub f = Ub"
  by (simp_all add: and_then_def)

lemma and_then_Done_iff: "and_then r f = Done b \<longleftrightarrow> (\<exists>a. r = Done a \<and> f a = Done b)"
  by (cases r) auto

datatype AlignLayoutErr = AlignLayoutErr
datatype AlighAllocErr = AlighAllocErr

text \<open>
  The two loops of \<open>check_align_req\<close>: over the bytes of a request and over the requests.  The bitmap
  is a slice on the heap; nothing else refers to its block, so the loops work on its contents and
  \<open>check_align_req\<close> stores them.
\<close>

fun mark_bits :: "usize \<Rightarrow> nat list \<Rightarrow> bytes \<Rightarrow> (bool \<times> bytes) outcome" where
  "mark_bits off [] bmp = Done (True, bmp)"
| "mark_bits off (i # is) bmp =
     (let offset = off + of_nat i; k = unat (offset div 8); tmp = push_bit (unat (offset mod 8)) 1 in
      if length bmp \<le> k then Panic
      else if bmp ! k AND tmp \<noteq> 0 then Done (False, bmp)
      else mark_bits off is (bmp[k := bmp ! k OR tmp]))"

fun check_reqs :: "usize \<Rightarrow> AlignReq list \<Rightarrow> bytes \<Rightarrow> (bool \<times> bytes) outcome" where
  "check_reqs sz [] bmp = Done (True, bmp)"
| "check_reqs sz (req # reqs) bmp =
     (if check_overflow (ar_offset req) (ar_len req) \<or> ar_offset req + ar_len req > sz then Done (False, bmp)
      else and_then (mark_bits (ar_offset req) [0..<unat (ar_len req)] bmp) (\<lambda>(ok, bmp').
        if ok then check_reqs sz reqs bmp' else Done (False, bmp')))"

definition check_align_req ::
  "'h alloc_ext \<Rightarrow> usize \<Rightarrow> AlignReq list \<Rightarrow> 'h heap \<Rightarrow> (bool \<times> 'h heap) outcome" where
  "check_align_req env sz align_req s =
     (if align_req = [] then Done (False, s)
      else
        let len = (sz + 7) div 8; (ptr, s1) = c_malloc env len s in
        if ptr = 0 then Done (False, s1)
        else and_then (check_reqs sz align_req (replicate (unat len) 0)) (\<lambda>(ok, bmp).
          if ok then Done (True, put ptr bmp s1) else Done (False, c_free env ptr (put ptr bmp s1))))"

definition padding_needed_for ::
  "'h alloc_ext \<Rightarrow> Layout \<Rightarrow> AlignReq list \<Rightarrow> 'h heap \<Rightarrow> ((AlignLayoutErr + usize) \<times> 'h heap) outcome" where
  "padding_needed_for env layout align_req s =
     (if \<not> check_layout layout then Done (Inl AlignLayoutErr, s)
      else and_then (check_align_req env (lay_size layout) align_req s) (\<lambda>(ok, s1).
        if \<not> ok then Done (Inl AlignLayoutErr, s1)
        else
          let bmp = make_bitmap align_req; offset = calc_lspc (lay_align layout) bmp in
          if offset < 0 then Done (Inl AlignLayoutErr, s1) else Done (Inr (of_int offset), s1)))"

definition pad_align_to ::
  "'h alloc_ext \<Rightarrow> Layout \<Rightarrow> AlignReq list \<Rightarrow> 'h heap \<Rightarrow> ((AlignLayoutErr + Layout) \<times> 'h heap) outcome" where
  "pad_align_to env layout align_req s =
     and_then (padding_needed_for env layout align_req s) (\<lambda>(r, s1).
       case r of
         Inl e \<Rightarrow> Done (Inl e, s1)
       | Inr pad \<Rightarrow>
           let align = align_needed_for layout pad in
           case Layout_from_size_align (pad + align + lay_size layout) align of
             None \<Rightarrow> Done (Inl AlignLayoutErr, s1)
           | Some l \<Rightarrow> Done (Inr l, s1))"

definition make_aligned_ptr :: "u64 \<Rightarrow> usize \<Rightarrow> usize \<Rightarrow> u64" where
  "make_aligned_ptr raw align offset = ((raw + align - 1) AND NOT (align - 1)) + offset"

text \<open>
  The address of the block is stored in the eight bytes before the object; \<open>Ub\<close> when these bytes
  are not inside the block that \<open>malloc\<close> returned.
\<close>

definition alloc_with_pad_align_in ::
  "'h alloc_ext \<Rightarrow> bool \<Rightarrow> Layout \<Rightarrow> Layout \<Rightarrow> 'h heap \<Rightarrow> (u64 \<times> 'h heap) outcome" where
  "alloc_with_pad_align_in env zeroed layout align_layout s =
     (if \<not> check_layout layout then Done (0, s)
      else if \<not> check_layout align_layout then Done (0, s)
      else if lay_size align_layout < lay_size layout + lay_align align_layout then Done (0, s)
      else
        let pad = lay_size align_layout - lay_align align_layout - lay_size layout;
            (raw, s1) = c_malloc env (lay_size align_layout + 8) s in
        if raw = 0 then Done (raw, s1)
        else
          let s2 = (if zeroed then put raw (replicate (unat (lay_size align_layout)) 0) s1 else s1);
              ptr = make_aligned_ptr raw (lay_align align_layout) pad in
          if \<not> unat (ptr - 8 - raw) + 8 \<le> unat (lay_size align_layout + 8) then Ub
          else Done (ptr, put (ptr - 8) (le_bytes 8 raw) s2))"

definition alloc_with_pad_align ::
  "'h alloc_ext \<Rightarrow> Layout \<Rightarrow> Layout \<Rightarrow> 'h heap \<Rightarrow> (u64 \<times> 'h heap) outcome" where
  "alloc_with_pad_align env layout align_layout = alloc_with_pad_align_in env False layout align_layout"

definition alloc_with_pad_align_zeroed ::
  "'h alloc_ext \<Rightarrow> Layout \<Rightarrow> Layout \<Rightarrow> 'h heap \<Rightarrow> (u64 \<times> 'h heap) outcome" where
  "alloc_with_pad_align_zeroed env layout align_layout = alloc_with_pad_align_in env True layout align_layout"

definition platform_alloc_with_req ::
  "'h alloc_ext \<Rightarrow> Layout \<Rightarrow> AlignReq list \<Rightarrow> 'h heap \<Rightarrow> (u64 \<times> 'h heap) outcome" where
  "platform_alloc_with_req env layout align_req s =
     (if \<not> check_layout layout then Done (0, s)
      else and_then
        (if align_req = [] then pad_align_to env layout [\<lparr> ar_offset = 0, ar_len = lay_size layout \<rparr>] s
         else pad_align_to env layout align_req s)
        (\<lambda>(r, s1). case r of Inl _ \<Rightarrow> Done (0, s1) | Inr l \<Rightarrow> alloc_with_pad_align env layout l s1))"

definition platform_alloc_with_req_zeroed ::
  "'h alloc_ext \<Rightarrow> Layout \<Rightarrow> AlignReq list \<Rightarrow> 'h heap \<Rightarrow> (u64 \<times> 'h heap) outcome" where
  "platform_alloc_with_req_zeroed env layout align_req s =
     (if \<not> check_layout layout then Done (0, s)
      else and_then
        (if align_req = [] then pad_align_to env layout [\<lparr> ar_offset = 0, ar_len = lay_size layout \<rparr>] s
         else pad_align_to env layout align_req s)
        (\<lambda>(r, s1). case r of Inl _ \<Rightarrow> Done (0, s1) | Inr l \<Rightarrow> alloc_with_pad_align_zeroed env layout l s1))"

definition platform_alloc :: "'h alloc_ext \<Rightarrow> Layout \<Rightarrow> 'h heap \<Rightarrow> (u64 \<times> 'h heap) outcome" where
  "platform_alloc env layout = platform_alloc_with_req env layout [\<lparr> ar_offset = 0, ar_len = lay_size layout \<rparr>]"

definition platform_alloc_zeroed :: "'h alloc_ext \<Rightarrow> Layout \<Rightarrow> 'h heap \<Rightarrow> (u64 \<times> 'h heap) outcome" where
  "platform_alloc_zeroed env layout =
     platform_alloc_with_req_zeroed env layout [\<lparr> ar_offset = 0, ar_len = lay_size layout \<rparr>]"

definition platform_dealloc :: "'h alloc_ext \<Rightarrow> u64 \<Rightarrow> Layout \<Rightarrow> 'h heap \<Rightarrow> 'h heap" where
  "platform_dealloc env ptr layout s = (let raw = le_word (get (ptr - 8) 8 s) in c_free env raw s)"

text \<open>The methods of \<open>AlignAlloc\<close>: \<open>NonNull::new(p).ok_or(AlighAllocErr)\<close>.\<close>

definition nonnull :: "(u64 \<times> 'h heap) outcome \<Rightarrow> ((AlighAllocErr + u64) \<times> 'h heap) outcome" where
  "nonnull r = and_then r (\<lambda>(p, s). Done (if p = 0 then Inl AlighAllocErr else Inr p, s))"

definition AlignAlloc_alloc :: "'h alloc_ext \<Rightarrow> Layout \<Rightarrow> 'h heap \<Rightarrow> ((AlighAllocErr + u64) \<times> 'h heap) outcome" where
  "AlignAlloc_alloc env layout s = nonnull (platform_alloc env layout s)"

definition AlignAlloc_alloc_zeroed ::
  "'h alloc_ext \<Rightarrow> Layout \<Rightarrow> 'h heap \<Rightarrow> ((AlighAllocErr + u64) \<times> 'h heap) outcome" where
  "AlignAlloc_alloc_zeroed env layout s = nonnull (platform_alloc_zeroed env layout s)"

definition AlignAlloc_alloc_with_req ::
  "'h alloc_ext \<Rightarrow> Layout \<Rightarrow> AlignReq list \<Rightarrow> 'h heap \<Rightarrow> ((AlighAllocErr + u64) \<times> 'h heap) outcome" where
  "AlignAlloc_alloc_with_req env layout align_req s = nonnull (platform_alloc_with_req env layout align_req s)"

definition AlignAlloc_alloc_with_req_zeroed ::
  "'h alloc_ext \<Rightarrow> Layout \<Rightarrow> AlignReq list \<Rightarrow> 'h heap \<Rightarrow> ((AlighAllocErr + u64) \<times> 'h heap) outcome" where
  "AlignAlloc_alloc_with_req_zeroed env layout align_req s =
     nonnull (platform_alloc_with_req_zeroed env layout align_req s)"

definition AlignAlloc_alloc_with_pad_align ::
  "'h alloc_ext \<Rightarrow> Layout \<Rightarrow> Layout \<Rightarrow> 'h heap \<Rightarrow> ((AlighAllocErr + u64) \<times> 'h heap) outcome" where
  "AlignAlloc_alloc_with_pad_align env layout align_layout s = nonnull (alloc_with_pad_align env layout align_layout s)"

definition AlignAlloc_alloc_with_pad_align_zeroed ::
  "'h alloc_ext \<Rightarrow> Layout \<Rightarrow> Layout \<Rightarrow> 'h heap \<Rightarrow> ((AlighAllocErr + u64) \<times> 'h heap) outcome" where
  "AlignAlloc_alloc_with_pad_align_zeroed env layout align_layout s =
     nonnull (alloc_with_pad_align_zeroed env layout align_layout s)"

definition AlignAlloc_dealloc :: "'h alloc_ext \<Rightarrow> u64 \<Rightarrow> Layout \<Rightarrow> 'h heap \<Rightarrow> 'h heap" where
  "AlignAlloc_dealloc env ptr layout s = platform_dealloc env ptr layout s"

definition AlignAlloc_pad_align_to ::
  "'h alloc_ext \<Rightarrow> Layout \<Rightarrow> AlignReq list \<Rightarrow> 'h heap \<Rightarrow> ((AlignLayoutErr + Layout) \<times> 'h heap) outcome" where
  "AlignAlloc_pad_align_to env layout align_req s = pad_align_to env layout align_req s"

section \<open>Checking the requests\<close>

definition bit_at :: "bytes \<Rightarrow> nat \<Rightarrow> bool" where
  "bit_at bmp b = bit (bmp ! (b div 8)) (b mod 8)"

definition marked :: "bytes \<Rightarrow> nat \<Rightarrow> nat set" where
  "marked bmp n = {b. b < n \<and> bit_at bmp b}"

lemma div_mod_8_eq: "b div 8 = c div 8 \<and> b mod 8 = c mod 8 \<longleftrightarrow> b = (c :: nat)"
  by (metis mult_div_mod_eq)

lemma bit_at_set:
  assumes "c div 8 < length bmp"
  shows "bit_at (bmp[c div 8 := bmp ! (c div 8) OR push_bit (c mod 8) 1]) b \<longleftrightarrow> bit_at bmp b \<or> b = c"
proof -
  have "bit (push_bit (c mod 8) (1 :: u8)) (b mod 8) \<longleftrightarrow> b mod 8 = c mod 8"
    by (simp only: bit_push_bit_iff bit_1_iff) auto
  then show ?thesis
    using assms div_mod_8_eq [of b c] by (cases "b div 8 = c div 8") (auto simp: bit_at_def bit_or_iff)
qed

lemma mark_bits_outcome:
  assumes "n \<le> 8 * length bmp" "n < 2 ^ 64" "\<forall>i\<in>set is. unat off + i < n"
  shows "\<exists>ok bmp'. mark_bits off is bmp = Done (ok, bmp') \<and> length bmp' = length bmp
    \<and> (ok \<longleftrightarrow> distinct is \<and> (+) (unat off) ` set is \<inter> marked bmp n = {})
    \<and> (ok \<longrightarrow> marked bmp' n = marked bmp n \<union> (+) (unat off) ` set is)"
  using assms(1,3)
proof (induction "is" arbitrary: bmp)
  case (Cons i "is")
  define c where "c = unat off + i"
  have c: "c < n" using Cons.prems(2) by (simp add: c_def)
  have off: "unat (off + of_nat i) = c"
    using c assms(2) by (simp add: unat_word_ariths unat_of_nat c_def)
  have k: "unat ((off + of_nat i) div 8) = c div 8" "unat ((off + of_nat i) mod 8) = c mod 8"
    by (simp_all add: unat_div unat_mod off)
  have len: "c div 8 < length bmp" using c Cons.prems(1) by linarith
  have hit: "bmp ! (c div 8) AND push_bit (c mod 8) 1 \<noteq> 0 \<longleftrightarrow> c \<in> marked bmp n"
    using c by (simp add: marked_def bit_at_def and_exp_eq_0_iff_not_bit push_bit_eq_mult)
  show ?case
  proof (cases "c \<in> marked bmp n")
    case True
    then have "mark_bits off (i # is) bmp = Done (False, bmp)"
      using len hit by (simp add: Let_def k)
    then show ?thesis using True by (auto simp: c_def)
  next
    case False
    define bmp2 where "bmp2 = bmp[c div 8 := bmp ! (c div 8) OR push_bit (c mod 8) 1]"
    have step: "mark_bits off (i # is) bmp = mark_bits off is bmp2" and len2: "length bmp2 = length bmp"
      using False len hit by (simp_all add: Let_def k bmp2_def)
    have marked2: "marked bmp2 n = insert c (marked bmp n)"
      unfolding marked_def bmp2_def bit_at_set [OF len] using c by auto
    have "n \<le> 8 * length bmp2" "\<forall>i\<in>set is. unat off + i < n" using Cons.prems by (simp_all add: len2)
    from Cons.IH [OF this] obtain ok bmp' where r: "mark_bits off is bmp2 = Done (ok, bmp')" "length bmp' = length bmp"
        "ok \<longleftrightarrow> distinct is \<and> (+) (unat off) ` set is \<inter> insert c (marked bmp n) = {}"
        "ok \<longrightarrow> marked bmp' n = insert c (marked bmp n) \<union> (+) (unat off) ` set is"
      unfolding marked2 len2 by (elim exE conjE)
    have "(+) (unat off) ` set (i # is) = insert c ((+) (unat off) ` set is)" by (simp add: c_def)
    moreover have "c \<in> (+) (unat off) ` set is \<longleftrightarrow> i \<in> set is" by (auto simp: c_def)
    ultimately show ?thesis
      using r False unfolding step by (intro exI [of _ ok] exI [of _ bmp']) (simp, blast)
  qed
qed auto

lemma check_reqs_outcome:
  assumes "unat sz \<le> 8 * length bmp"
  shows "\<exists>ok bmp'. check_reqs sz reqs bmp = Done (ok, bmp') \<and> length bmp' = length bmp
    \<and> (ok \<longleftrightarrow> (\<forall>r\<in>set reqs. unat (ar_offset r) + unat (ar_len r) \<le> unat sz)
        \<and> distinct (covered reqs) \<and> set (covered reqs) \<inter> marked bmp (unat sz) = {})"
  using assms
proof (induction reqs arbitrary: bmp)
  case (Cons r reqs)
  have sz: "unat sz < 2 ^ 64" using unsigned_less [of sz] by simp
  show ?case
  proof (cases "unat (ar_offset r) + unat (ar_len r) \<le> unat sz")
    case False
    then have "check_reqs sz (r # reqs) bmp = Done (False, bmp)"
      by (auto simp: check_overflow_def word_less_nat_alt unat_word_ariths not_less)
    then show ?thesis using False by auto
  next
    case True
    have fits: "\<not> (check_overflow (ar_offset r) (ar_len r) \<or> ar_offset r + ar_len r > sz)"
      using True sz by (simp add: check_overflow_def word_less_nat_alt unat_word_ariths)
    have bytes: "(+) (unat (ar_offset r)) ` set [0..<unat (ar_len r)] = set (req_bytes r)"
      by (simp add: req_bytes_def image_add_atLeastLessThan add.commute)
    obtain ok bmp' where m: "mark_bits (ar_offset r) [0..<unat (ar_len r)] bmp = Done (ok, bmp')"
        "length bmp' = length bmp" "ok \<longleftrightarrow> set (req_bytes r) \<inter> marked bmp (unat sz) = {}"
        "ok \<longrightarrow> marked bmp' (unat sz) = marked bmp (unat sz) \<union> set (req_bytes r)"
      using mark_bits_outcome [OF Cons.prems sz, of "[0..<unat (ar_len r)]" "ar_offset r"] True unfolding bytes
      by auto
    have "distinct (req_bytes r)" by (simp add: req_bytes_def)
    then show ?thesis
      using m fits Cons.IH [of bmp'] Cons.prems True by (cases ok) (auto simp: Int_Un_distrib)
  qed
qed auto

section \<open>The C allocator\<close>

text \<open>
  What is relied on of \<open>malloc\<close> and \<open>free\<close>: \<open>live h\<close> are the live blocks with their sizes.
  \<open>malloc\<close> returns null and changes no block, or a new block that is aligned to 16 bytes and
  disjoint from the live ones; \<open>free\<close> releases a block.  Neither touches the contents of the other
  live blocks.
\<close>

definition region :: "u64 \<Rightarrow> nat \<Rightarrow> u64 set" where
  "region p n = {a. unat (a - p) < n}"

definition kept :: "(u64 \<rightharpoonup> nat) \<Rightarrow> 'h heap \<Rightarrow> 'h heap \<Rightarrow> bool" where
  "kept blocks s t \<longleftrightarrow> (\<forall>q m. blocks q = Some m \<longrightarrow> (\<forall>a\<in>region q m. hp_mem t a = hp_mem s a))"

definition malloc_spec :: "'h alloc_ext \<Rightarrow> ('h \<Rightarrow> u64 \<rightharpoonup> nat) \<Rightarrow> bool" where
  "malloc_spec env live \<longleftrightarrow>
     (\<forall>n s p t. c_malloc env n s = (p, t) \<longrightarrow>
        kept (live (hp_lib s)) s t
        \<and> (if p = 0 then live (hp_lib t) = live (hp_lib s)
           else live (hp_lib s) p = None \<and> live (hp_lib t) = (live (hp_lib s))(p \<mapsto> unat n)
             \<and> 16 dvd unat p \<and> unat p + unat n < 2 ^ 64
             \<and> (\<forall>q m. live (hp_lib s) q = Some m \<longrightarrow> region p (unat n) \<inter> region q m = {})))
   \<and> (\<forall>p s. live (hp_lib s) p \<noteq> None \<longrightarrow>
        live (hp_lib (c_free env p s)) = (live (hp_lib s))(p := None)
        \<and> kept ((live (hp_lib s))(p := None)) s (c_free env p s))"

lemma malloc_law:
  assumes "malloc_spec env live" "c_malloc env n s = (p, t)"
  shows "kept (live (hp_lib s)) s t
    \<and> (if p = 0 then live (hp_lib t) = live (hp_lib s)
       else live (hp_lib s) p = None \<and> live (hp_lib t) = (live (hp_lib s))(p \<mapsto> unat n)
         \<and> 16 dvd unat p \<and> unat p + unat n < 2 ^ 64
         \<and> (\<forall>q m. live (hp_lib s) q = Some m \<longrightarrow> region p (unat n) \<inter> region q m = {}))"
  using assms(2) by (rule assms(1) [unfolded malloc_spec_def, THEN conjunct1, rule_format])

lemma malloc_null:
  "malloc_spec env live \<Longrightarrow> c_malloc env n s = (0, t) \<Longrightarrow> live (hp_lib t) = live (hp_lib s)"
  by (drule (1) malloc_law) simp

lemma malloc_block:
  assumes "malloc_spec env live" "c_malloc env n s = (p, t)" "p \<noteq> 0"
  shows "live (hp_lib s) p = None" "live (hp_lib t) = (live (hp_lib s))(p \<mapsto> unat n)"
    and "16 dvd unat p" "unat p + unat n < 2 ^ 64"
    and "live (hp_lib s) q = Some m \<Longrightarrow> region p (unat n) \<inter> region q m = {}"
  using malloc_law [OF assms(1,2)] assms(3) by simp_all

lemma free_block:
  assumes "malloc_spec env live" "live (hp_lib s) p \<noteq> None"
  shows "live (hp_lib (c_free env p s)) = (live (hp_lib s))(p := None)"
  using assms by (simp add: malloc_spec_def)

lemma hp_lib_put [simp]: "hp_lib (put p bs s) = hp_lib s"
  by (simp add: put_def)

lemma get_put: "length bs = n \<Longrightarrow> n < 2 ^ 64 \<Longrightarrow> get p n (put p bs s) = bs"
  by (rule nth_equalityI) (simp_all add: get_def put_def unat_of_nat)

section \<open>Padded layouts\<close>

text \<open>No sum of sizes in this module wraps for such a layout.\<close>

definition fits :: "Layout \<Rightarrow> bool" where
  "fits l \<longleftrightarrow> unat (lay_size l) + 2 * unat (lay_align l) + 256 \<le> 2 ^ 64"

text \<open>\<open>asked\<close> are the requests in force: an empty list stands for the whole object.\<close>

definition whole :: "Layout \<Rightarrow> AlignReq list" where
  "whole l = [\<lparr> ar_offset = 0, ar_len = lay_size l \<rparr>]"

definition asked :: "Layout \<Rightarrow> AlignReq list \<Rightarrow> AlignReq list" where
  "asked l reqs = (if reqs = [] then whole l else reqs)"

definition reqs_ok :: "usize \<Rightarrow> AlignReq list \<Rightarrow> bool" where
  "reqs_ok sz reqs \<longleftrightarrow> reqs \<noteq> [] \<and> list_all (\<lambda>r. unat (ar_offset r) + unat (ar_len r) \<le> unat sz) reqs
     \<and> distinct (covered reqs)"

text \<open>The alignment and the size of the padded object when the shift is \<open>c\<close>.\<close>

definition padded_align :: "Layout \<Rightarrow> nat \<Rightarrow> nat" where
  "padded_align l c = (if unat (lay_align l) > 64 then unat (lay_align l)
     else let n = unat (lay_size l) + c in if n \<le> 8 then 8 else if n \<le> 16 then 16 else if n \<le> 32 then 32 else 64)"

definition padded :: "Layout \<Rightarrow> nat \<Rightarrow> Layout" where
  "padded l c = \<lparr> lay_size = of_nat (c + padded_align l c + unat (lay_size l)), lay_align = of_nat (padded_align l c) \<rparr>"

lemma bitmap_len:
  assumes "fits l"
  shows "unat ((lay_size l + 7) div 8) = (unat (lay_size l) + 7) div 8"
  using assms by (simp add: fits_def unat_div unat_word_ariths)

lemma marked_zeros: "n \<le> 8 * k \<Longrightarrow> marked (replicate k 0) n = {}"
  by (auto simp: marked_def bit_at_def)

lemma check_align_req_outcome:
  assumes "malloc_spec env live" "fits l" "reqs \<noteq> []"
    and "c_malloc env ((lay_size l + 7) div 8) s = (q, s1)" "q \<noteq> 0"
  shows "\<exists>t. check_align_req env (lay_size l) reqs s = Done (reqs_ok (lay_size l) reqs, t)
    \<and> live (hp_lib t) = (if reqs_ok (lay_size l) reqs
        then (live (hp_lib s))(q \<mapsto> (unat (lay_size l) + 7) div 8) else live (hp_lib s))
    \<and> (reqs_ok (lay_size l) reqs \<longrightarrow> hp_lib t = hp_lib s1)"
proof -
  let ?k = "unat ((lay_size l + 7) div 8)"
  have k: "unat (lay_size l) \<le> 8 * ?k" unfolding bitmap_len [OF assms(2)] by linarith
  obtain ok bmp where m: "check_reqs (lay_size l) reqs (replicate ?k 0) = Done (ok, bmp)"
      "ok \<longleftrightarrow> reqs_ok (lay_size l) reqs"
    using check_reqs_outcome [of "lay_size l" "replicate ?k 0" reqs] k assms(3)
    by (auto simp: marked_zeros reqs_ok_def list_all_iff)
  note b = malloc_block [OF assms(1,4,5)]
  have "live (hp_lib (c_free env q (put q bmp s1))) = live (hp_lib s)"
    using free_block [OF assms(1), of "put q bmp s1" q] b(1,2) by (auto simp: fun_upd_idem)
  then show ?thesis
    using assms(3-5) m b(2) bitmap_len [OF assms(2)] by (auto simp: check_align_req_def Let_def)
qed

lemma unat_max_minus: "unat (- 1 - x :: usize) = 2 ^ 64 - 1 - unat x"
proof -
  have "x \<le> - 1" by simp
  then have "unat (- 1 - x) = unat (- 1 :: usize) - unat x" by (rule unat_sub)
  then show ?thesis by (simp add: unsigned_minus_1_eq_mask mask_eq_exp_minus_1)
qed

lemma unat_of_nat64: "n < 2 ^ 64 \<Longrightarrow> unat (of_nat n :: usize) = n"
  by (simp add: unat_of_nat)

lemma check_layoutD:
  assumes "check_layout l"
  shows "0 < unat (lay_size l)" "is_power_of_two (lay_align l)" "0 < unat (lay_align l)"
  using assms by (auto simp: check_layout_def unat_gt_0 is_power_of_two_iff)

lemma padded_align_cases:
  "padded_align l c = unat (lay_align l) \<and> 64 < unat (lay_align l)
   \<or> padded_align l c \<in> {8, 16, 32, 64} \<and> unat (lay_align l) \<le> 64
     \<and> (unat (lay_size l) + c \<le> padded_align l c \<or> padded_align l c = 64)"
  by (auto simp: padded_align_def Let_def)

lemma padded_align_power:
  assumes "check_layout l"
  obtains k where "k < 64" "padded_align l c = 2 ^ k"
proof -
  consider "padded_align l c = unat (lay_align l)" | "padded_align l c = 8" | "padded_align l c = 16"
    | "padded_align l c = 32" | "padded_align l c = 64"
    using padded_align_cases [of l c] by blast
  then show thesis
  proof cases
    case 1
    then show thesis using check_layoutD(2) [OF assms] that by (auto simp: is_power_of_two_iff)
  qed (use that [of 3] that [of 4] that [of 5] that [of 6] in simp_all)
qed

lemma unat_padded:
  assumes "fits l" "c < 64"
  shows "unat (lay_align (padded l c)) = padded_align l c"
    and "unat (lay_size (padded l c)) = c + padded_align l c + unat (lay_size l)"
    and "c + 2 * padded_align l c + unat (lay_size l) + 64 \<le> 2 ^ 64"
proof -
  have "padded_align l c \<le> 64 \<or> padded_align l c = unat (lay_align l)" using padded_align_cases [of l c] by auto
  then show *: "c + 2 * padded_align l c + unat (lay_size l) + 64 \<le> 2 ^ 64"
    using assms by (auto simp: fits_def)
  show "unat (lay_align (padded l c)) = padded_align l c"
    "unat (lay_size (padded l c)) = c + padded_align l c + unat (lay_size l)"
    using * unfolding padded_def by (simp_all only: Layout.simps) (intro unat_of_nat64, linarith)+
qed

lemma check_layout_padded:
  assumes "fits l" "check_layout l" "c < 64"
  shows "check_layout (padded l c)"
    and "Layout_from_size_align (lay_size (padded l c)) (lay_align (padded l c)) = Some (padded l c)"
proof -
  note u = unat_padded [OF assms(1,3)]
  obtain k where k: "k < 64" "padded_align l c = 2 ^ k" by (rule padded_align_power [OF assms(2)])
  then have pow: "is_power_of_two (lay_align (padded l c))" using u(1) by (auto simp: is_power_of_two_iff)
  have "lay_align (padded l c) \<noteq> 0" using u(1) k by (auto simp: unat_eq_zero)
  then have "unat (lay_align (padded l c) - 1) = padded_align l c - 1" using u(1) by (simp add: unat_minus_one)
  then have "unat (- 1 - (lay_align (padded l c) - 1)) = 2 ^ 64 - padded_align l c"
    unfolding unat_max_minus using k(2) by simp
  then have le: "\<not> lay_size (padded l c) > - 1 - (lay_align (padded l c) - 1)"
    using u(2,3) by (simp add: word_less_nat_alt)
  show "check_layout (padded l c)"
    using pow le u(2) check_layoutD(1) [OF assms(2)] by (auto simp: check_layout_def unat_eq_zero)
  show "Layout_from_size_align (lay_size (padded l c)) (lay_align (padded l c)) = Some (padded l c)"
    using pow le by (simp add: Layout_from_size_align_def)
qed

lemma align_needed_padded:
  assumes "fits l" "c < 64"
  shows "align_needed_for l (of_nat c) = lay_align (padded l c)"
proof -
  have "unat (lay_size l + of_nat c) = unat (lay_size l) + c"
    using assms by (simp add: fits_def unat_word_ariths unat_of_nat)
  then have "unat (align_needed_for l (of_nat c)) = padded_align l c"
    by (simp add: align_needed_for_def calc_algn_cases padded_align_def Let_def)
  then show ?thesis using unat_padded(1) [OF assms] by (simp add: word_unat_eq_iff)
qed

definition chosen_pad :: "Layout \<Rightarrow> AlignReq list \<Rightarrow> nat option" where
  "chosen_pad l reqs = (if reqs_ok (lay_size l) reqs then first_pad (lay_align l) reqs else None)"

lemma chosen_pad_less: "chosen_pad l reqs = Some c \<Longrightarrow> c < 64"
  by (auto simp: chosen_pad_def first_pad_Some split: if_splits)

lemma pad_align_to_outcome:
  assumes "malloc_spec env live" "fits l" "check_layout l" "reqs \<noteq> []"
    and "c_malloc env ((lay_size l + 7) div 8) s = (q, s1)" "q \<noteq> 0"
  shows "\<exists>t. pad_align_to env l reqs s =
      Done (case chosen_pad l reqs of None \<Rightarrow> Inl AlignLayoutErr | Some c \<Rightarrow> Inr (padded l c), t)
    \<and> live (hp_lib t) = (if reqs_ok (lay_size l) reqs
        then (live (hp_lib s))(q \<mapsto> (unat (lay_size l) + 7) div 8) else live (hp_lib s))
    \<and> (reqs_ok (lay_size l) reqs \<longrightarrow> hp_lib t = hp_lib s1)"
proof -
  obtain t where t: "check_align_req env (lay_size l) reqs s = Done (reqs_ok (lay_size l) reqs, t)"
      "live (hp_lib t) = (if reqs_ok (lay_size l) reqs
        then (live (hp_lib s))(q \<mapsto> (unat (lay_size l) + 7) div 8) else live (hp_lib s))"
      "reqs_ok (lay_size l) reqs \<longrightarrow> hp_lib t = hp_lib s1"
    using check_align_req_outcome [OF assms(1,2,4-6)] by blast
  have lspc: "calc_lspc (lay_align l) (make_bitmap reqs) = (case first_pad (lay_align l) reqs of None \<Rightarrow> - 1 | Some c \<Rightarrow> int c)"
    by (rule calc_lspc_first_pad [OF check_layoutD(2) [OF assms(3)]])
  show ?thesis
  proof (cases "chosen_pad l reqs")
    case None
    then show ?thesis using t assms(3) lspc
      by (auto simp: pad_align_to_def padding_needed_for_def chosen_pad_def Let_def split: if_splits)
  next
    case (Some c)
    note c = chosen_pad_less [OF Some]
    have "of_nat c + lay_align (padded l c) + lay_size l = lay_size (padded l c)"
      by (simp add: padded_def)
    then show ?thesis using t assms(3) lspc Some check_layout_padded(2) [OF assms(2,3) c] align_needed_padded [OF assms(2) c]
      by (auto simp: pad_align_to_def padding_needed_for_def chosen_pad_def Let_def split: if_splits)
  qed
qed

section \<open>The address of the object\<close>

definition aligned_up :: "nat \<Rightarrow> nat \<Rightarrow> nat" where
  "aligned_up raw A = (raw + A - 1) div A * A"

lemma aligned_up_bounds:
  assumes "0 < A"
  shows "A dvd aligned_up raw A" "raw \<le> aligned_up raw A" "aligned_up raw A < raw + A"
proof -
  have "(raw + A - 1) div A * A + (raw + A - 1) mod A = raw + A - 1" by (rule div_mult_mod_eq)
  moreover have "(raw + A - 1) mod A < A" using assms by (rule mod_less_divisor)
  ultimately show "raw \<le> aligned_up raw A" "aligned_up raw A < raw + A"
    using assms unfolding aligned_up_def by linarith+
qed (simp add: aligned_up_def)

lemma aligned_up_id: "A dvd raw \<Longrightarrow> 0 < A \<Longrightarrow> aligned_up raw A = raw"
proof -
  assume A: "A dvd raw" "0 < A"
  note b = aligned_up_bounds [OF A(2), of raw]
  have "A dvd aligned_up raw A - raw" using A(1) b(1) by (rule dvd_diff_nat [rotated])
  moreover have "aligned_up raw A - raw < A" using b by linarith
  ultimately have "aligned_up raw A - raw = 0" by (metis nat_dvd_not_less not_gr_zero)
  then show ?thesis using b(2) by simp
qed

lemma unat_clear_low: "unat (x AND NOT (mask k) :: u64) = unat x div 2 ^ k * 2 ^ k"
proof -
  have eq: "x AND NOT (mask k) = push_bit k (drop_bit k x)"
    by (rule bit_eqI) (auto simp: bit_simps)
  have x: "unat x < 2 ^ 64"
  proof -
    have "unat x < 2 ^ LENGTH(64)" by (rule unsigned_less)
    then show ?thesis by simp
  qed
  then have "unat x div 2 ^ k * 2 ^ k < 2 ^ 64" by (rule order.strict_trans1 [OF div_times_less_eq_dividend])
  then show ?thesis unfolding eq unsigned_push_bit_eq unsigned_drop_bit_eq
    by (simp add: push_bit_eq_mult drop_bit_eq_div take_bit_nat_eq_self take_bit_nat_eq_self [OF x])
qed

lemma unat_make_aligned_ptr:
  assumes "unat a = A" "A = 2 ^ k" "unat o' = c" "unat raw + A + c < 2 ^ 64" "k < 64"
  shows "unat (make_aligned_ptr raw a o') = aligned_up (unat raw) A + c"
proof -
  have "a = 2 ^ k" using assms(1,2,5) by (simp add: word_unat_eq_iff unat_exp64)
  then have "a - 1 = mask k" by (simp add: mask_eq_exp_minus_1)
  moreover have "unat (raw + a - 1) = unat raw + A - 1"
  proof -
    have "unat (raw + a) = unat raw + A" using assms by (simp add: unat_word_ariths)
    moreover have "raw + a \<noteq> 0" using calculation assms(2) by (auto simp: unat_eq_zero)
    ultimately show ?thesis by (simp add: unat_minus_one)
  qed
  ultimately have "unat ((raw + a - 1) AND NOT (a - 1)) = aligned_up (unat raw) A"
    by (simp add: unat_clear_low aligned_up_def assms(2))
  moreover have "aligned_up (unat raw) A < unat raw + A"
    using aligned_up_bounds(3) [of A] assms(2) by simp
  ultimately show ?thesis
    using assms(3,4) by (simp add: make_aligned_ptr_def unat_word_ariths)
qed

text \<open>
  Allocating a padded object: either \<open>malloc\<close> fails, or the object is \<open>c\<close> bytes above the first
  aligned address of the block, and the store of the block address hits the bytes before the block
  when that leaves less than eight bytes of room.
\<close>

lemma alloc_in_outcome:
  assumes "malloc_spec env live" "fits l" "check_layout l" "c < 64"
    and "c_malloc env (lay_size (padded l c) + 8) s = (raw, s1)"
  defines "p \<equiv> make_aligned_ptr raw (lay_align (padded l c)) (of_nat c)"
  shows "alloc_with_pad_align_in env z l (padded l c) s =
      (if raw = 0 then Done (0, s1)
       else if aligned_up (unat raw) (padded_align l c) + c < unat raw + 8 then Ub
       else Done (p, put (p - 8) (le_bytes 8 raw)
         (if z then put raw (replicate (unat (lay_size (padded l c))) 0) s1 else s1)))"
    and "raw \<noteq> 0 \<Longrightarrow> unat p = aligned_up (unat raw) (padded_align l c) + c"
    and "raw \<noteq> 0 \<Longrightarrow> unat p + unat (lay_size l) + 8 \<le> unat raw + unat (lay_size (padded l c) + 8)"
    and "raw \<noteq> 0 \<Longrightarrow> unat raw + unat (lay_size (padded l c) + 8) < 2 ^ 64"
proof -
  note u = unat_padded [OF assms(2,4)]
  obtain k where k: "k < 64" "padded_align l c = 2 ^ k" by (rule padded_align_power [OF assms(3)])
  have n: "unat (lay_size (padded l c) + 8) = c + padded_align l c + unat (lay_size l) + 8"
    using u(2,3) by (simp add: unat_word_ariths)
  have c: "unat (of_nat c :: usize) = c" using assms(4) by (simp add: unat_of_nat64)
  have pad: "lay_size (padded l c) - lay_align (padded l c) - lay_size l = of_nat c" by (simp add: padded_def)
  have "unat (lay_size l + lay_align (padded l c)) = unat (lay_size l) + padded_align l c"
    using u by (simp add: unat_word_ariths)
  then have room: "\<not> lay_size (padded l c) < lay_size l + lay_align (padded l c)"
    using u(2) by (simp add: word_less_nat_alt)
  have top: "unat raw + unat (lay_size (padded l c) + 8) < 2 ^ 64" if "raw \<noteq> 0"
    using malloc_block(4) [OF assms(1,5) that] .
  have p: "unat p = aligned_up (unat raw) (padded_align l c) + c" if "raw \<noteq> 0"
    using unat_make_aligned_ptr [OF u(1) k(2) c _ k(1), of raw] top [OF that] n by (simp add: p_def)
  have b: "unat raw \<le> aligned_up (unat raw) (padded_align l c)"
      "aligned_up (unat raw) (padded_align l c) < unat raw + padded_align l c"
    using aligned_up_bounds [of "padded_align l c" "unat raw"] k(2) by simp_all
  have slot: "unat (p - 8 - raw) + 8 \<le> unat (lay_size (padded l c) + 8) \<longleftrightarrow> unat raw + 8 \<le> unat p"
    if "raw \<noteq> 0"
  proof (cases "unat raw + 8 \<le> unat p")
    case True
    then have "unat (p - 8 - raw) = unat p - 8 - unat raw"
      by (simp add: unat_sub word_le_nat_alt)
    then show ?thesis using True p [OF that] b n by simp
  next
    case False
    have "unat (p - raw) < 8" using False p [OF that] b by (simp add: unat_sub word_le_nat_alt)
    then have "unat (p - raw - 8) + 8 = unat (p - raw) + 2 ^ 64" by (simp add: unat_sub_if')
    moreover have "p - 8 - raw = p - raw - 8" by simp
    ultimately have "unat (p - 8 - raw) + 8 \<ge> 2 ^ 64" by (simp only:)
    then show ?thesis using False top [OF that] by linarith
  qed
  show "alloc_with_pad_align_in env z l (padded l c) s =
      (if raw = 0 then Done (0, s1)
       else if aligned_up (unat raw) (padded_align l c) + c < unat raw + 8 then Ub
       else Done (p, put (p - 8) (le_bytes 8 raw)
         (if z then put raw (replicate (unat (lay_size (padded l c))) 0) s1 else s1)))"
    using assms(3,5) check_layout_padded(1) [OF assms(2-4)] room pad p slot
    by (simp add: alloc_with_pad_align_in_def Let_def p_def)
  show "unat p = aligned_up (unat raw) (padded_align l c) + c" if "raw \<noteq> 0" by (rule p [OF that])
  show "unat p + unat (lay_size l) + 8 \<le> unat raw + unat (lay_size (padded l c) + 8)" if "raw \<noteq> 0"
    using p [OF that] b n by simp
  show "unat raw + unat (lay_size (padded l c) + 8) < 2 ^ 64" if "raw \<noteq> 0" by (rule top [OF that])
qed

text \<open>The six allocation functions differ in the requests and in the flag for zeroing.\<close>

definition req_alloc ::
  "'h alloc_ext \<Rightarrow> bool \<Rightarrow> Layout \<Rightarrow> AlignReq list \<Rightarrow> 'h heap \<Rightarrow> (u64 \<times> 'h heap) outcome" where
  "req_alloc env z l reqs s =
     (if \<not> check_layout l then Done (0, s)
      else and_then (pad_align_to env l (asked l reqs) s)
        (\<lambda>(r, s1). case r of Inl _ \<Rightarrow> Done (0, s1) | Inr a \<Rightarrow> alloc_with_pad_align_in env z l a s1))"

lemma alloc_shapes:
  "platform_alloc_with_req env l reqs = req_alloc env False l reqs"
  "platform_alloc_with_req_zeroed env l reqs = req_alloc env True l reqs"
  "platform_alloc env l = req_alloc env False l []"
  "platform_alloc_zeroed env l = req_alloc env True l []"
  unfolding platform_alloc_with_req_def platform_alloc_with_req_zeroed_def platform_alloc_def
    platform_alloc_zeroed_def req_alloc_def asked_def whole_def alloc_with_pad_align_def alloc_with_pad_align_zeroed_def
  by (intro ext; simp)+

lemma asked_nonempty: "asked l reqs \<noteq> []"
  by (simp add: asked_def whole_def)

lemma req_alloc_outcome:
  assumes "malloc_spec env live" "fits l" "check_layout l"
    and "c_malloc env ((lay_size l + 7) div 8) s = (q, s1)" "q \<noteq> 0"
  shows "\<exists>t. req_alloc env z l reqs s = (case chosen_pad l (asked l reqs) of
        None \<Rightarrow> Done (0, t) | Some c \<Rightarrow> alloc_with_pad_align_in env z l (padded l c) t)
    \<and> (chosen_pad l (asked l reqs) \<noteq> None \<longrightarrow>
        live (hp_lib t) = (live (hp_lib s))(q \<mapsto> (unat (lay_size l) + 7) div 8) \<and> hp_lib t = hp_lib s1)"
proof -
  obtain t where t: "pad_align_to env l (asked l reqs) s =
      Done (case chosen_pad l (asked l reqs) of None \<Rightarrow> Inl AlignLayoutErr | Some c \<Rightarrow> Inr (padded l c), t)"
    "live (hp_lib t) = (if reqs_ok (lay_size l) (asked l reqs)
        then (live (hp_lib s))(q \<mapsto> (unat (lay_size l) + 7) div 8) else live (hp_lib s))"
    "reqs_ok (lay_size l) (asked l reqs) \<longrightarrow> hp_lib t = hp_lib s1"
    using pad_align_to_outcome [OF assms(1-3) asked_nonempty assms(4,5)] by blast
  then show ?thesis
    using assms(3) by (intro exI [of _ t]) (auto simp: req_alloc_def chosen_pad_def split: option.split if_splits)
qed

lemma req_alloc_no_bitmap:
  assumes "check_layout l" "c_malloc env ((lay_size l + 7) div 8) s = (0, s1)"
  shows "req_alloc env z l reqs s = Done (0, s1)"
  using assms asked_nonempty [of l reqs]
  by (simp add: req_alloc_def pad_align_to_def padding_needed_for_def check_align_req_def Let_def)

text \<open>What a successful allocation has done.\<close>

lemma req_alloc_success:
  assumes "malloc_spec env live" "fits l" "req_alloc env z l reqs s = Done (p, t)" "p \<noteq> 0"
  obtains q raw c n where "check_layout l" "chosen_pad l (asked l reqs) = Some c"
    and "unat p = aligned_up (unat raw) (padded_align l c) + c"
    and "live (hp_lib s) raw = None" "live (hp_lib s) q = None" "raw \<noteq> q"
    and "live (hp_lib t) = (live (hp_lib s))(q \<mapsto> (unat (lay_size l) + 7) div 8, raw \<mapsto> n)"
    and "unat raw + 8 \<le> unat p" "unat p + unat (lay_size l) \<le> unat raw + n" "unat raw + n < 2 ^ 64"
    and "get (p - 8) 8 t = le_bytes 8 raw"
proof -
  have l: "check_layout l" using assms(3,4) by (auto simp: req_alloc_def split: if_splits)
  obtain q s1 where q: "c_malloc env ((lay_size l + 7) div 8) s = (q, s1)" by fastforce
  have "q \<noteq> 0" using req_alloc_no_bitmap [OF l] q assms(3,4) by fastforce
  note b = malloc_block [OF assms(1) q this]
  obtain s2 where s2: "req_alloc env z l reqs s = (case chosen_pad l (asked l reqs) of
        None \<Rightarrow> Done (0, s2) | Some c \<Rightarrow> alloc_with_pad_align_in env z l (padded l c) s2)"
      "chosen_pad l (asked l reqs) \<noteq> None \<longrightarrow> live (hp_lib s2) = (live (hp_lib s))(q \<mapsto> (unat (lay_size l) + 7) div 8)"
    using req_alloc_outcome [OF assms(1,2) l q \<open>q \<noteq> 0\<close>, of z reqs] by blast
  obtain c where c: "chosen_pad l (asked l reqs) = Some c"
    using s2(1) assms(3,4) by (cases "chosen_pad l (asked l reqs)") auto
  obtain raw s3 where raw: "c_malloc env (lay_size (padded l c) + 8) s2 = (raw, s3)" by fastforce
  note a = alloc_in_outcome [OF assms(1,2) l chosen_pad_less [OF c] raw]
  have ok: "raw \<noteq> 0" "\<not> aligned_up (unat raw) (padded_align l c) + c < unat raw + 8"
    using a(1) [of z] s2(1) c assms(3,4) by (auto split: if_splits)
  have p: "p = make_aligned_ptr raw (lay_align (padded l c)) (of_nat c)"
      "t = put (p - 8) (le_bytes 8 raw) (if z then put raw (replicate (unat (lay_size (padded l c))) 0) s3 else s3)"
    using a(1) [of z] s2(1) c assms(3) ok by auto
  note d = malloc_block [OF assms(1) raw ok(1)]
  have live2: "live (hp_lib s2) = (live (hp_lib s))(q \<mapsto> (unat (lay_size l) + 7) div 8)" using s2(2) c by simp
  have "hp_lib t = hp_lib s3" unfolding p(2) by simp
  then have "live (hp_lib t) = (live (hp_lib s2))(raw \<mapsto> unat (lay_size (padded l c) + 8))" using d(2) by simp
  moreover have "raw \<noteq> q" "live (hp_lib s) raw = None" using d(1) live2 by (auto split: if_splits)
  moreover have "get (p - 8) 8 t = le_bytes 8 raw" unfolding p(2) by (rule get_put) simp_all
  ultimately show thesis
    using that [of c raw q] l c a(2-4) [OF ok(1)] ok(2) b(1) live2 by (simp add: p(1))
qed

section \<open>Whole objects\<close>

lemma whole_pad_ok:
  assumes "0 < unat (lay_size l)" "c < 64"
  shows "pad_ok al (whole l) c \<longleftrightarrow> unat al dvd c
    \<and> (1 \<le> c \<and> c + unat (lay_size l) \<le> 4 \<or> 8 \<le> c \<and> c + unat (lay_size l) \<le> 64)"
proof -
  define n where "n = unat (lay_size l)"
  have cov: "set (covered (whole l)) = {..<n}" by (auto simp: whole_def req_bytes_def n_def)
  have "(\<forall>b<n. \<not> avoided ((c + b) mod 64)) \<longleftrightarrow> 1 \<le> c \<and> c + n \<le> 4 \<or> 8 \<le> c \<and> c + n \<le> 64"
  proof
    assume *: "\<forall>b<n. \<not> avoided ((c + b) mod 64)"
    have "\<not> avoided c" using *[rule_format, of 0] assms by (simp add: n_def)
    moreover have "\<not> (c < 4 \<and> 4 < c + n)"
      using *[rule_format, of "4 - c"] assms(2) by (simp add: avoided_def) linarith
    moreover have "\<not> 64 - c < n"
      using *[rule_format, of "64 - c"] assms(2) by (auto simp: avoided_def)
    ultimately show "1 \<le> c \<and> c + n \<le> 4 \<or> 8 \<le> c \<and> c + n \<le> 64"
      using assms(2) unfolding avoided_def by linarith
  next
    assume *: "1 \<le> c \<and> c + n \<le> 4 \<or> 8 \<le> c \<and> c + n \<le> 64"
    show "\<forall>b<n. \<not> avoided ((c + b) mod 64)"
    proof (intro allI impI)
      fix b assume "b < n"
      then have "(c + b) mod 64 = c + b" using * by (intro mod_less) auto
      then show "\<not> avoided ((c + b) mod 64)" using * \<open>b < n\<close> by (auto simp: avoided_def)
    qed
  qed
  then show ?thesis by (simp add: pad_ok_def list_all_iff cov n_def Ball_def)
qed

lemma power_dvd_8: "is_power_of_two al \<Longrightarrow> unat al dvd max 8 (unat al)"
proof -
  assume "is_power_of_two al"
  then obtain k where k: "unat al = 2 ^ k" by (auto simp: is_power_of_two_iff)
  show ?thesis
  proof (cases "k \<le> 3")
    case True
    then have "(2 :: nat) ^ k dvd 2 ^ 3" by (rule le_imp_power_dvd)
    then show ?thesis using dvd_imp_le [of "2 ^ k" 8] by (simp add: k max_def)
  next
    case False
    then have "(2 :: nat) ^ 3 \<le> 2 ^ k" by (intro power_increasing) auto
    then show ?thesis by (simp add: k max_def)
  qed
qed

lemma chosen_pad_whole:
  assumes "check_layout l"
  shows "chosen_pad l (whole l) =
    (if unat (lay_align l) + unat (lay_size l) \<le> 4 then Some (unat (lay_align l))
     else if max 8 (unat (lay_align l)) + unat (lay_size l) \<le> 64 then Some (max 8 (unat (lay_align l)))
     else None)"
proof -
  define A n where "A = unat (lay_align l)" and "n = unat (lay_size l)"
  have pos: "0 < A" "0 < n" using check_layoutD [OF assms] by (simp_all add: A_def n_def)
  have ok: "pad_ok (lay_align l) (whole l) c \<longleftrightarrow> A dvd c \<and> (1 \<le> c \<and> c + n \<le> 4 \<or> 8 \<le> c \<and> c + n \<le> 64)"
    if "c < 64" for c using whole_pad_ok [of l c] that pos by (simp add: A_def n_def)
  have dvd: "A dvd max 8 A" using power_dvd_8 [OF check_layoutD(2) [OF assms]] by (simp add: A_def)
  have mult: "A \<le> c" if "A dvd c" "0 < c" for c using that by (rule dvd_imp_le)
  have "reqs_ok (lay_size l) (whole l)" by (simp add: reqs_ok_def whole_def req_bytes_def)
  then have "chosen_pad l (whole l) = first_pad (lay_align l) (whole l)" by (simp add: chosen_pad_def)
  also have "\<dots> = (if A + n \<le> 4 then Some A else if max 8 A + n \<le> 64 then Some (max 8 A) else None)"
  proof -
    consider "A + n \<le> 4" | "\<not> A + n \<le> 4" "max 8 A + n \<le> 64" | "\<not> A + n \<le> 4" "\<not> max 8 A + n \<le> 64" by blast
    then show ?thesis
    proof cases
      case 1
      then have "pad_ok (lay_align l) (whole l) A" using ok [of A] pos by auto
      moreover have "\<not> pad_ok (lay_align l) (whole l) d" if "d < A" for d
        using ok [of d] that 1 mult [of d] by auto
      ultimately show ?thesis using 1 pos by (simp add: first_pad_Some)
    next
      case 2
      have less: "max 8 A < 64" using 2(2) pos(2) by linarith
      then have "pad_ok (lay_align l) (whole l) (max 8 A)" using ok [OF less] dvd 2(2) by simp
      moreover have "\<not> pad_ok (lay_align l) (whole l) d" if "d < max 8 A" for d
        using ok [of d] that 2 less mult [of d] by (auto simp: max_def split: if_splits)
      ultimately show ?thesis using 2 less by (simp add: first_pad_Some)
    next
      case 3
      have "\<not> pad_ok (lay_align l) (whole l) d" if "d < 64" for d
        using ok [OF that] 3 mult [of d] by (auto simp: max_def split: if_splits)
      then show ?thesis using 3 by (simp add: first_pad_None)
    qed
  qed
  finally show ?thesis by (simp only: A_def n_def)
qed

text \<open>
  Enough memory: \<open>malloc\<close> gives two blocks of at most 256 bytes in a row, whatever the program
  stores in the first one.
\<close>

definition enough_memory :: "'h alloc_ext \<Rightarrow> 'h heap \<Rightarrow> bool" where
  "enough_memory env s \<longleftrightarrow> (\<forall>n\<le>256. fst (c_malloc env n s) \<noteq> 0
     \<and> (\<forall>m\<le>256. \<forall>t. hp_lib t = hp_lib (snd (c_malloc env n s)) \<longrightarrow> fst (c_malloc env m t) \<noteq> 0))"

lemma enough_memory_two:
  assumes "enough_memory env s" "c_malloc env n s = (q, s1)" "unat n \<le> 256"
  shows "q \<noteq> 0" and "hp_lib t = hp_lib s1 \<Longrightarrow> unat m \<le> 256 \<Longrightarrow> fst (c_malloc env m t) \<noteq> 0"
  using assms by (auto simp: enough_memory_def word_le_nat_alt)

lemma whole_alloc_block:
  assumes "malloc_spec env live" "fits l" "check_layout l" "enough_memory env s"
    and "chosen_pad l (whole l) = Some c" "unat (lay_size l) \<le> 64"
  obtains raw p :: u64 and t where "16 dvd unat raw" "unat p = aligned_up (unat raw) (padded_align l c) + c"
    and "req_alloc env z l [] s =
      (if aligned_up (unat raw) (padded_align l c) + c < unat raw + 8 then Ub else Done (p, t))"
proof -
  obtain q s1 where q: "c_malloc env ((lay_size l + 7) div 8) s = (q, s1)" by fastforce
  have "unat ((lay_size l + 7) div 8) \<le> 256" using bitmap_len [OF assms(2)] assms(6) by simp
  note two = enough_memory_two [OF assms(4) q this]
  note c64 = chosen_pad_less [OF assms(5)]
  have asked: "asked l [] = whole l" by (simp add: asked_def)
  obtain t where t: "req_alloc env z l [] s = alloc_with_pad_align_in env z l (padded l c) t" "hp_lib t = hp_lib s1"
    using req_alloc_outcome [OF assms(1-3) q two(1), of z "[]"] assms(5) by (auto simp: asked)
  have "unat (lay_align l) \<le> 64"
    using assms(5) check_layoutD [OF assms(3)] by (auto simp: chosen_pad_whole [OF assms(3)] split: if_splits)
  then have "padded_align l c \<le> 64" using padded_align_cases [of l c] by auto
  then have "unat (lay_size (padded l c) + 8) \<le> 256"
    using unat_padded [OF assms(2) c64] c64 assms(6) by (simp add: unat_word_ariths)
  from two(2) [OF t(2) this] obtain raw s3
    where raw: "c_malloc env (lay_size (padded l c) + 8) t = (raw, s3)" "raw \<noteq> 0" by (metis eq_fst_iff)
  show thesis
    by (rule that [OF malloc_block(3) [OF assms(1) raw] alloc_in_outcome(2) [OF assms(1-3) c64 raw]])
      (simp add: t(1) alloc_in_outcome(1) [OF assms(1-3) c64 raw(1)] raw(2))
qed

lemma whole_alloc_decision:
  assumes "malloc_spec env live" "fits l" "check_layout l" "enough_memory env s"
  defines "A \<equiv> unat (lay_align l)" and "n \<equiv> unat (lay_size l)"
  shows "A + n \<le> 4 \<Longrightarrow> req_alloc env z l [] s = Ub"
    and "\<not> A + n \<le> 4 \<Longrightarrow> max 8 A + n \<le> 64 \<Longrightarrow> \<exists>p t. req_alloc env z l [] s = Done (p, t) \<and> p \<noteq> 0"
    and "\<not> A + n \<le> 4 \<Longrightarrow> \<not> max 8 A + n \<le> 64 \<Longrightarrow> \<exists>t. req_alloc env z l [] s = Done (0, t)"
proof -
  have pos: "0 < A" "0 < n" using check_layoutD [OF assms(3)] by (simp_all add: A_def n_def)
  note pad = chosen_pad_whole [OF assms(3), folded A_def n_def]
  show "req_alloc env z l [] s = Ub" if small: "A + n \<le> 4"
  proof -
    have "chosen_pad l (whole l) = Some A" "unat (lay_size l) \<le> 64" using pad small by (simp_all add: n_def)
    then obtain raw p :: u64 and t where r: "16 dvd unat raw" "req_alloc env z l [] s =
        (if aligned_up (unat raw) (padded_align l A) + A < unat raw + 8 then Ub else Done (p, t))"
      by (rule whole_alloc_block [OF assms(1-4)])
    have "padded_align l A = 8" using small by (simp add: padded_align_def A_def n_def)
    moreover have "aligned_up (unat raw) 8 = unat raw"
      using r(1) by (intro aligned_up_id) (auto intro: dvd_trans [of 8 16])
    ultimately show ?thesis using r(2) small pos by simp
  qed
  show "\<exists>p t. req_alloc env z l [] s = Done (p, t) \<and> p \<noteq> 0" if "\<not> A + n \<le> 4" "max 8 A + n \<le> 64"
  proof -
    let ?c = "max 8 A"
    have "chosen_pad l (whole l) = Some ?c" "unat (lay_size l) \<le> 64" using pad that by (simp_all add: n_def)
    then obtain raw p :: u64 and t where r: "unat p = aligned_up (unat raw) (padded_align l ?c) + ?c" "req_alloc env z l [] s =
        (if aligned_up (unat raw) (padded_align l ?c) + ?c < unat raw + 8 then Ub else Done (p, t))"
      by (rule whole_alloc_block [OF assms(1-4)])
    have "0 < padded_align l ?c" using padded_align_cases [of l ?c] by auto
    then have "unat raw \<le> aligned_up (unat raw) (padded_align l ?c)" by (rule aligned_up_bounds)
    then have "\<not> aligned_up (unat raw) (padded_align l ?c) + ?c < unat raw + 8" by linarith
    moreover have "p \<noteq> 0" using r(1) by auto
    ultimately show ?thesis using r(2) by auto
  qed
  show "\<exists>t. req_alloc env z l [] s = Done (0, t)" if "\<not> A + n \<le> 4" "\<not> max 8 A + n \<le> 64"
  proof -
    obtain q s1 where q: "c_malloc env ((lay_size l + 7) div 8) s = (q, s1)" by fastforce
    have "chosen_pad l (asked l []) = None" using pad that by (simp add: asked_def)
    then show ?thesis
      using req_alloc_no_bitmap [OF assms(3), of env s s1 z "[]"] req_alloc_outcome [OF assms(1-3) q, of z "[]"] q
      by (cases "q = 0") auto
  qed
qed

section \<open>A concrete allocator\<close>

text \<open>A list of live blocks; a new block starts above the end of all of them.\<close>

definition list_top :: "(u64 \<times> nat) list \<Rightarrow> nat" where
  "list_top h = 16 * Suc (fold max (map (\<lambda>(q, m). unat q + m) h) 0)"

definition list_alloc :: "(u64 \<times> nat) list alloc_ext" where
  "list_alloc =
     \<lparr> c_malloc = (\<lambda>n s. if list_top (hp_lib s) + unat n < 2 ^ 64
         then (of_nat (list_top (hp_lib s)), s \<lparr> hp_lib := (of_nat (list_top (hp_lib s)), unat n) # hp_lib s \<rparr>)
         else (0, s)),
       c_free = (\<lambda>p s. s \<lparr> hp_lib := filter (\<lambda>(q, m). q \<noteq> p) (hp_lib s) \<rparr>) \<rparr>"

lemma fold_max_ge: "x \<in> set xs \<Longrightarrow> x \<le> fold max xs (a :: nat)" "a \<le> fold max xs a"
proof -
  have *: "a \<le> fold max xs a" for xs and a :: nat by (induction xs arbitrary: a) (auto intro: le_trans [OF max.cobounded2])
  then show "a \<le> fold max xs a" .
  show "x \<in> set xs \<Longrightarrow> x \<le> fold max xs a"
    using * by (induction xs arbitrary: a) (auto intro: le_trans [OF max.cobounded1])
qed

lemma list_top_above: "(q, m) \<in> set h \<Longrightarrow> unat q + m < list_top h"
  using fold_max_ge(1) [of "unat q + m" "map (\<lambda>(q, m). unat q + m) h" 0] by (force simp: list_top_def)

lemma map_of_without: "map_of (filter (\<lambda>(q, m). q \<noteq> p) h) = (map_of h)(p := None)"
  by (induction h) (auto simp: fun_eq_iff)

lemma region_interval: "unat p + n < 2 ^ 64 \<Longrightarrow> a \<in> region p n \<Longrightarrow> unat p \<le> unat a \<and> unat a < unat p + n"
proof -
  assume n: "unat p + n < 2 ^ 64" and a: "a \<in> region p n"
  have "unat (p + (a - p)) = unat p + unat (a - p)"
    using a n by (intro unat_add_lem [THEN iffD1]) (simp add: region_def)
  then show ?thesis using a by (simp add: region_def)
qed

lemma list_alloc_spec: "malloc_spec list_alloc map_of"
  unfolding malloc_spec_def
proof (intro conjI allI impI)
  fix n :: usize and s t :: "(u64 \<times> nat) list heap" and p
  assume c: "c_malloc list_alloc n s = (p, t)"
  let ?top = "list_top (hp_lib s)"
  show "kept (map_of (hp_lib s)) s t"
    using c by (auto simp: list_alloc_def kept_def split: if_splits)
  show "if p = 0 then map_of (hp_lib t) = map_of (hp_lib s)
    else map_of (hp_lib s) p = None \<and> map_of (hp_lib t) = (map_of (hp_lib s))(p \<mapsto> unat n) \<and> 16 dvd unat p
      \<and> unat p + unat n < 2 ^ 64
      \<and> (\<forall>q m. map_of (hp_lib s) q = Some m \<longrightarrow> region p (unat n) \<inter> region q m = {})"
  proof (cases "?top + unat n < 2 ^ 64")
    case False
    then show ?thesis using c by (auto simp: list_alloc_def)
  next
    case True
    then have p: "p = of_nat ?top" "hp_lib t = (p, unat n) # hp_lib s" "unat p = ?top"
      using c by (auto simp: list_alloc_def unat_of_nat64)
    have "map_of (hp_lib s) p = None"
      using list_top_above [of p _ "hp_lib s"] p(3) by (force simp: map_of_eq_None_iff)
    moreover have "region p (unat n) \<inter> region q m = {}" if "map_of (hp_lib s) q = Some m" for q m
    proof -
      have q: "unat q + m < unat p" using list_top_above [OF map_of_SomeD [OF that]] p(3) by simp
      then have "unat q + m < 2 ^ 64" using True p(3) by linarith
      then show ?thesis using region_interval [of p "unat n"] region_interval [of q m] q True p(3) by fastforce
    qed
    moreover have "16 dvd unat p" "p \<noteq> 0" using p(3) by (auto simp: list_top_def)
    ultimately show ?thesis using True p by simp
  qed
next
  fix p and s :: "(u64 \<times> nat) list heap"
  show "map_of (hp_lib (c_free list_alloc p s)) = (map_of (hp_lib s))(p := None)"
    by (simp add: list_alloc_def map_of_without)
  show "kept ((map_of (hp_lib s))(p := None)) s (c_free list_alloc p s)"
    by (simp add: list_alloc_def kept_def)
qed

definition fresh_heap :: "(u64 \<times> nat) list heap" where
  "fresh_heap = \<lparr> hp_lib = [], hp_mem = \<lambda>_. 0 \<rparr>"

lemma fold_max_le: "\<forall>x\<in>set xs. x \<le> b \<Longrightarrow> a \<le> b \<Longrightarrow> fold max xs a \<le> (b :: nat)"
  by (induction xs arbitrary: a) auto

lemma list_top_Cons: "list_top ((of_nat (list_top h), n) # h) \<le> 16 * Suc (list_top h + n)" if "list_top h < 2 ^ 64"
proof -
  have "unat (of_nat (list_top h) :: u64) = list_top h" using that by (rule unat_of_nat64)
  moreover have "\<forall>x\<in>set (map (\<lambda>(q, m). unat q + m) h). x \<le> list_top h + n"
    using list_top_above [of _ _ h] by (fastforce intro: less_imp_le trans_less_add1)
  ultimately show ?thesis
    unfolding list_top_def [of "_ # h"] using fold_max_le [of "map (\<lambda>(q, m). unat q + m) h" "list_top h + n" "list_top h + n"]
    by simp
qed

lemma list_alloc_enough:
  assumes "list_top (hp_lib s) \<le> 2 ^ 20"
  shows "enough_memory list_alloc s"
  unfolding enough_memory_def
proof (intro allI impI conjI)
  have nonzero: "fst (c_malloc list_alloc m t) \<noteq> 0" if "m \<le> 256" "list_top (hp_lib t) \<le> 2 ^ 25" for m t
  proof -
    have "unat m \<le> 256" using that(1) by (simp add: word_le_nat_alt)
    then have m: "list_top (hp_lib t) + unat m < 2 ^ 64" using that(2) by simp
    then have "unat (fst (c_malloc list_alloc m t)) = list_top (hp_lib t)"
      by (simp add: list_alloc_def unat_of_nat64)
    then show ?thesis by (auto simp: list_top_def)
  qed
  fix n :: usize
  assume n: "n \<le> 256"
  then have n': "unat n \<le> 256" by (simp add: word_le_nat_alt)
  show "fst (c_malloc list_alloc n s) \<noteq> 0" using nonzero [OF n] assms by simp
  fix m :: usize and t :: "(u64 \<times> nat) list heap"
  assume m: "m \<le> 256" and t: "hp_lib t = hp_lib (snd (c_malloc list_alloc n s))"
  have "hp_lib t = (of_nat (list_top (hp_lib s)), unat n) # hp_lib s"
    using t n' assms by (simp add: list_alloc_def)
  then have "list_top (hp_lib t) \<le> 16 * Suc (list_top (hp_lib s) + unat n)"
    using list_top_Cons [of "hp_lib s" "unat n"] assms by simp
  then have "list_top (hp_lib t) \<le> 2 ^ 25" using n' assms by simp
  then show "fst (c_malloc list_alloc m t) \<noteq> 0" by (rule nonzero [OF m])
qed

lemma fresh_heap_enough: "enough_memory list_alloc fresh_heap"
  by (rule list_alloc_enough) (simp add: fresh_heap_def list_top_def)

section \<open>Correctness\<close>

text \<open>Where the bytes of an allocated object lie.\<close>

lemma shifted_placement:
  assumes "check_layout l" "chosen_pad l reqs = Some c" "b \<in> set (covered reqs)"
  shows "\<not> avoided ((aligned_up raw (padded_align l c) + c + b) mod 64)"
proof -
  have pad: "pad_ok (lay_align l) reqs c" "reqs_ok (lay_size l) reqs"
    using assms(2) by (auto simp: chosen_pad_def first_pad_Some split: if_splits)
  obtain k where k: "unat (lay_align l) = 2 ^ k" using check_layoutD(2) [OF assms(1)] by (auto simp: is_power_of_two_iff)
  have "b < unat (lay_size l)"
    using pad(2) assms(3) by (fastforce simp: reqs_ok_def covered_def req_bytes_def list_all_iff)
  moreover have "64 dvd unat (lay_align l)" if "64 < unat (lay_align l)"
  proof -
    have "(2 :: nat) ^ 6 < 2 ^ k" using that by (simp add: k)
    then have "6 < k" by (rule power_less_imp_less_exp [rotated]) simp
    then have "(2 :: nat) ^ 6 dvd 2 ^ k" by (intro le_imp_power_dvd) simp
    then show ?thesis by (simp add: k)
  qed
  ultimately have A: "padded_align l c \<in> {8, 16, 32, 64} \<or> 64 dvd padded_align l c"
      "c + b < padded_align l c \<or> 64 dvd padded_align l c"
    using padded_align_cases [of l c] by auto
  have "padded_align l c dvd aligned_up raw (padded_align l c)" by (simp add: aligned_up_def)
  moreover have "\<not> avoided ((c + b) mod 64)" using pad(1) assms(3) by (simp add: pad_ok_def list_all_iff)
  ultimately show ?thesis using position_in_line [OF A(1) _ _ A(2)] by (simp add: add.assoc)
qed

lemma req_alloc_placement:
  assumes "malloc_spec env live" "fits l" "req_alloc env z l reqs s = Done (p, t)" "p \<noteq> 0"
  shows "b \<in> set (covered (asked l reqs)) \<Longrightarrow> \<not> avoided ((unat p + b) mod 64)"
    and "unat (lay_align l) \<le> 8 \<or> unat (lay_align l) \<le> unat (lay_size l) \<Longrightarrow> unat (lay_align l) dvd unat p"
    and "\<exists>raw n. live (hp_lib s) raw = None \<and> live (hp_lib t) raw = Some n
      \<and> unat raw + 8 \<le> unat p \<and> unat p + unat (lay_size l) \<le> unat raw + n \<and> unat raw + n < 2 ^ 64"
proof -
  obtain q raw c n where a: "check_layout l" "chosen_pad l (asked l reqs) = Some c"
    and p: "unat p = aligned_up (unat raw) (padded_align l c) + c"
    and r: "live (hp_lib s) raw = None" "live (hp_lib t) = (live (hp_lib s))(q \<mapsto> (unat (lay_size l) + 7) div 8, raw \<mapsto> n)"
      "unat raw + 8 \<le> unat p" "unat p + unat (lay_size l) \<le> unat raw + n" "unat raw + n < 2 ^ 64"
    by (rule req_alloc_success [OF assms]) blast
  show "\<not> avoided ((unat p + b) mod 64)" if "b \<in> set (covered (asked l reqs))"
    using shifted_placement [OF a that] by (simp add: p)
  show "unat (lay_align l) dvd unat p" if small: "unat (lay_align l) \<le> 8 \<or> unat (lay_align l) \<le> unat (lay_size l)"
  proof -
    obtain k where k: "unat (lay_align l) = 2 ^ k" using check_layoutD(2) [OF a(1)] by (auto simp: is_power_of_two_iff)
    obtain j where j: "padded_align l c = 2 ^ j" by (metis padded_align_power [OF a(1)])
    have "unat (lay_align l) \<le> padded_align l c" using padded_align_cases [of l c] small by auto
    then have "unat (lay_align l) dvd padded_align l c"
      unfolding k j by (intro le_imp_power_dvd) (erule power_le_imp_le_exp [rotated], simp)
    moreover have "unat (lay_align l) dvd c"
      using a(2) by (auto simp: chosen_pad_def first_pad_Some pad_ok_def split: if_splits)
    ultimately show ?thesis by (simp add: p aligned_up_def dvd_add dvd_mult)
  qed
  show "\<exists>raw n. live (hp_lib s) raw = None \<and> live (hp_lib t) raw = Some n
      \<and> unat raw + 8 \<le> unat p \<and> unat p + unat (lay_size l) \<le> unat raw + n \<and> unat raw + n < 2 ^ 64"
    using r by (intro exI [of _ raw] exI [of _ n]) simp
qed


definition key_layout :: Layout where
  "key_layout = \<lparr> lay_size = 16, lay_align = 1 \<rparr>"

lemma key_layout_ok: "fits key_layout" "check_layout key_layout" "unat (lay_size key_layout) = 16"
  "unat (lay_align key_layout) = 1" "is_power_of_two 1"
proof -
  show "is_power_of_two 1" by (auto simp: is_power_of_two_iff intro!: exI [of _ 0])
  then show "check_layout key_layout" by (simp add: check_layout_def key_layout_def)
qed (simp_all add: fits_def key_layout_def)

lemma key_alloc: "\<exists>p t. req_alloc list_alloc z key_layout [] fresh_heap = Done (p, t) \<and> p \<noteq> 0"
  using whole_alloc_decision(2) [OF list_alloc_spec key_layout_ok(1,2) fresh_heap_enough] key_layout_ok(3,4) by simp


text \<open>
  The eight bytes before the object hold the address of its block as long as the program writes only
  to the object.
\<close>

lemma object_writes_keep_slot:
  assumes "unat raw + 8 \<le> unat p" "unat p + n < 2 ^ 64" "\<forall>a. a \<notin> region p n \<longrightarrow> hp_mem t' a = hp_mem t a"
  shows "get (p - 8) 8 t' = get (p - 8) 8 t"
proof -
  have "p - 8 + of_nat i \<notin> region p n" if "i < 8" for i
  proof -
    have "unat (p - 8) = unat p - 8" using assms(1) by (simp add: unat_sub word_le_nat_alt)
    then have "unat (p - 8 + of_nat i) = unat p - 8 + i"
      using that assms(1,2) by (simp add: unat_word_ariths unat_of_nat)
    then have "unat (p - 8 + of_nat i) < unat p" using that assms(1) by linarith
    then show ?thesis using region_interval [OF assms(2)] by (meson not_less)
  qed
  then show ?thesis using assms(3) by (simp add: get_def)
qed

lemma req_alloc_dealloc:
  assumes "malloc_spec env live" "fits l" "req_alloc env z l reqs s = Done (p, t)" "p \<noteq> 0"
    and "hp_lib t' = hp_lib t" "\<forall>a. a \<notin> region p (unat (lay_size l)) \<longrightarrow> hp_mem t' a = hp_mem t a"
  shows "\<exists>q. live (hp_lib s) q = None
    \<and> live (hp_lib (platform_dealloc env p l t')) = (live (hp_lib s))(q \<mapsto> (unat (lay_size l) + 7) div 8)"
proof -
  obtain q raw n where r: "live (hp_lib s) raw = None" "live (hp_lib s) q = None" "raw \<noteq> q"
      "live (hp_lib t) = (live (hp_lib s))(q \<mapsto> (unat (lay_size l) + 7) div 8, raw \<mapsto> n)"
      "unat raw + 8 \<le> unat p" "unat p + unat (lay_size l) \<le> unat raw + n" "unat raw + n < 2 ^ 64"
      "get (p - 8) 8 t = le_bytes 8 raw"
    by (rule req_alloc_success [OF assms(1-4)]) blast
  have "get (p - 8) 8 t' = le_bytes 8 raw"
    using object_writes_keep_slot [OF r(5) _ assms(6)] r(6-8) by simp
  then have "platform_dealloc env p l t' = c_free env raw t'"
    by (simp add: platform_dealloc_def le_word_le_bytes)
  moreover have "live (hp_lib t') raw \<noteq> None" using r(4) assms(5) by simp
  ultimately have "live (hp_lib (platform_dealloc env p l t')) = (live (hp_lib t))(raw := None)"
    using free_block [OF assms(1), of t' raw] assms(5) by simp
  then show ?thesis using r(1-4) by (intro exI [of _ q]) (auto simp: fun_eq_iff)
qed

text \<open>
  Freeing an aligned object releases its block, whatever the program stored in the object; but
  the bitmap with which the requests were checked stays allocated for ever, so every allocation
  leaks one block of an eighth of the size.
\<close>

theorem aligned_dealloc_leaks_bitmap:
  assumes "malloc_spec env live" "fits l" "p \<noteq> 0"
    and "platform_alloc_with_req env l reqs s = Done (p, t) \<or> platform_alloc_with_req_zeroed env l reqs s = Done (p, t)"
    and "hp_lib t' = hp_lib t" "\<forall>a. a \<notin> region p (unat (lay_size l)) \<longrightarrow> hp_mem t' a = hp_mem t a"
  shows "\<exists>q. live (hp_lib s) q = None
    \<and> live (hp_lib (platform_dealloc env p l t')) = (live (hp_lib s))(q \<mapsto> (unat (lay_size l) + 7) div 8)"
  using assms(4) req_alloc_dealloc [OF assms(1,2) _ assms(3,5,6)] unfolding alloc_shapes by blast

theorem aligned_dealloc_leaks_bitmap_witness:
  "\<exists>p t q. platform_alloc_with_req list_alloc key_layout [] fresh_heap = Done (p, t)
     \<and> map_of (hp_lib (platform_dealloc list_alloc p key_layout (put p (replicate 16 7) t))) = [q \<mapsto> 2]"
proof -
  obtain p t where a: "platform_alloc_with_req list_alloc key_layout [] fresh_heap = Done (p, t)" "p \<noteq> 0"
    using key_alloc [of False] unfolding alloc_shapes by blast
  have "\<forall>a. a \<notin> region p (unat (lay_size key_layout)) \<longrightarrow> hp_mem (put p (replicate 16 7) t) a = hp_mem t a"
    by (simp add: put_def region_def key_layout_ok(3))
  from aligned_dealloc_leaks_bitmap [OF list_alloc_spec key_layout_ok(1) a(2) disjI1 [OF a(1)] _ this] show ?thesis
    using a(1) by (auto simp: fresh_heap_def key_layout_ok(3))
qed

text \<open>
  C21.  Every outcome of allocating a whole object with enough memory.  The pointer is null exactly when
  the object does not fit behind the avoided positions of one cache line: the size and the alignment,
  taken as at least eight, add up to more than 64.  For an object of at most three bytes at alignment
  one, or at most two bytes at alignment two, the address of the block is stored before the start of
  the block.  In all other cases the allocation succeeds.
\<close>

theorem aligned_alloc_outcomes:
  assumes "malloc_spec env live" "fits l" "check_layout l" "enough_memory env s"
  defines "A \<equiv> unat (lay_align l)" and "n \<equiv> unat (lay_size l)"
  shows "(platform_alloc env l s = Ub \<longleftrightarrow> A + n \<le> 4) \<and> (platform_alloc_zeroed env l s = Ub \<longleftrightarrow> A + n \<le> 4)
    \<and> ((\<exists>t. platform_alloc env l s = Done (0, t)) \<longleftrightarrow> A + n > 4 \<and> max 8 A + n > 64)
    \<and> ((\<exists>p t. p \<noteq> 0 \<and> platform_alloc env l s = Done (p, t)) \<longleftrightarrow> A + n > 4 \<and> max 8 A + n \<le> 64)"
proof -
  note d = whole_alloc_decision [OF assms(1-4), folded A_def n_def]
  consider "A + n \<le> 4" | "\<not> A + n \<le> 4" "max 8 A + n \<le> 64" | "\<not> A + n \<le> 4" "\<not> max 8 A + n \<le> 64" by blast
  then show ?thesis
  proof cases
    case 1
    then show ?thesis unfolding alloc_shapes d(1) [OF 1] by simp
  next
    case 2
    from d(2) [OF 2, of False] d(2) [OF 2, of True] show ?thesis unfolding alloc_shapes using 2 by (elim exE conjE) simp
  next
    case 3
    from d(3) [OF 3, of False] d(3) [OF 3, of True] show ?thesis unfolding alloc_shapes using 3 by (elim exE conjE) simp
  qed
qed

theorem aligned_alloc_outcomes_witness:
  "platform_alloc list_alloc \<lparr> lay_size = 3, lay_align = 1 \<rparr> fresh_heap = Ub
   \<and> (\<exists>p t. p \<noteq> 0 \<and> platform_alloc list_alloc key_layout fresh_heap = Done (p, t))
   \<and> (\<exists>t. platform_alloc list_alloc \<lparr> lay_size = 57, lay_align = 1 \<rparr> fresh_heap = Done (0, t))"
proof -
  have ok: "fits \<lparr> lay_size = n, lay_align = 1 \<rparr> \<and> check_layout \<lparr> lay_size = n, lay_align = 1 \<rparr>" if "n \<in> {3, 57}" for n
    using that key_layout_ok(5) by (auto simp: fits_def check_layout_def)
  have "platform_alloc list_alloc \<lparr> lay_size = 3, lay_align = 1 \<rparr> fresh_heap = Ub"
    using aligned_alloc_outcomes [OF list_alloc_spec _ _ fresh_heap_enough, of "\<lparr> lay_size = 3, lay_align = 1 \<rparr>"] ok [of 3]
    by simp
  moreover have "\<exists>t. platform_alloc list_alloc \<lparr> lay_size = 57, lay_align = 1 \<rparr> fresh_heap = Done (0, t)"
    using aligned_alloc_outcomes [OF list_alloc_spec _ _ fresh_heap_enough, of "\<lparr> lay_size = 57, lay_align = 1 \<rparr>"] ok [of 57]
    by simp
  moreover have "\<exists>p t. p \<noteq> 0 \<and> platform_alloc list_alloc key_layout fresh_heap = Done (p, t)"
    using aligned_alloc_outcomes [OF list_alloc_spec key_layout_ok(1,2) fresh_heap_enough] key_layout_ok(3,4)
    by simp
  ultimately show ?thesis by blast
qed

end
