(* ===== verification/Align_Box.thy ===== *)
theory Align_Box
  imports Align_Alloc
begin

text \<open>
  \<open>sgx_alloc\<close> (alignbox.rs): the owning pointer built on the aligned allocator.  A type parameter is
  its size and alignment; a value is its bytes in memory; \<open>T::clone\<close> and the initialisation closures
  are functions on these bytes.  \<open>handle_alloc_error\<close> aborts, which is \<open>Panic\<close> here.
\<close>

section \<open>Model\<close>

record rust_type =
  ty_size :: usize
  ty_align :: usize

record AlignBox =
  bx_ptr :: u64
  align_layout :: Layout
  origin_layout :: Layout

definition AlignBox_allocate_in ::
  "'h alloc_ext \<Rightarrow> rust_type \<Rightarrow> bool \<Rightarrow> usize \<Rightarrow> AlignReq list \<Rightarrow> 'h heap \<Rightarrow> (AlignBox option \<times> 'h heap) outcome" where
  "AlignBox_allocate_in env T zeroed align align_req s =
     (if ty_size T = 0 then Done (None, s)
      else case Layout_from_size_align (ty_size T) align of
        None \<Rightarrow> Done (None, s)
      | Some layout \<Rightarrow>
          and_then (AlignAlloc_pad_align_to env layout align_req s) (\<lambda>(r, s1).
            case r of
              Inl _ \<Rightarrow> Done (None, s1)
            | Inr al \<Rightarrow>
                and_then
                  (if zeroed then AlignAlloc_alloc_with_req_zeroed env layout align_req s1
                   else AlignAlloc_alloc_with_req env layout align_req s1) (\<lambda>(result, s2).
                  case result of
                    Inl _ \<Rightarrow> Panic
                  | Inr ptr \<Rightarrow>
                      Done (Some \<lparr> bx_ptr = ptr, align_layout = al, origin_layout = layout \<rparr>, s2))))"

definition AlignBox_new_in :: "'h alloc_ext \<Rightarrow> rust_type \<Rightarrow> 'h heap \<Rightarrow> (AlignBox option \<times> 'h heap) outcome" where
  "AlignBox_new_in env T = AlignBox_allocate_in env T True (ty_align T) [\<lparr> ar_offset = 0, ar_len = ty_size T \<rparr>]"

definition AlignBox_new_with_align_in ::
  "'h alloc_ext \<Rightarrow> rust_type \<Rightarrow> usize \<Rightarrow> 'h heap \<Rightarrow> (AlignBox option \<times> 'h heap) outcome" where
  "AlignBox_new_with_align_in env T align =
     AlignBox_allocate_in env T True align [\<lparr> ar_offset = 0, ar_len = ty_size T \<rparr>]"

definition AlignBox_new_with_req_in ::
  "'h alloc_ext \<Rightarrow> rust_type \<Rightarrow> usize \<Rightarrow> AlignReq list \<Rightarrow> 'h heap \<Rightarrow> (AlignBox option \<times> 'h heap) outcome" where
  "AlignBox_new_with_req_in env T align align_req =
     (if align_req = [] then AlignBox_new_in env T else AlignBox_allocate_in env T True align align_req)"

definition AlignBox_new :: "'h alloc_ext \<Rightarrow> rust_type \<Rightarrow> 'h heap \<Rightarrow> (AlignBox option \<times> 'h heap) outcome" where
  "AlignBox_new env T = AlignBox_new_in env T"

definition AlignBox_new_with_align ::
  "'h alloc_ext \<Rightarrow> rust_type \<Rightarrow> usize \<Rightarrow> 'h heap \<Rightarrow> (AlignBox option \<times> 'h heap) outcome" where
  "AlignBox_new_with_align env T align = AlignBox_new_with_align_in env T align"

definition AlignBox_new_with_req ::
  "'h alloc_ext \<Rightarrow> rust_type \<Rightarrow> usize \<Rightarrow> AlignReq list \<Rightarrow> 'h heap \<Rightarrow> (AlignBox option \<times> 'h heap) outcome" where
  "AlignBox_new_with_req env T align align_req = AlignBox_new_with_req_in env T align align_req"

text \<open>The three \<open>heap_init\<close> functions run a closure on the value in the new box.\<close>

definition init_with ::
  "rust_type \<Rightarrow> (bytes \<Rightarrow> bytes) \<Rightarrow> (AlignBox option \<times> 'h heap) outcome \<Rightarrow> (AlignBox option \<times> 'h heap) outcome" where
  "init_with T initialize r = and_then r (\<lambda>(t, s). case t of
     None \<Rightarrow> Done (None, s)
   | Some b \<Rightarrow> Done (Some b, put (bx_ptr b) (initialize (get (bx_ptr b) (unat (ty_size T)) s)) s))"

definition AlignBox_heap_init ::
  "'h alloc_ext \<Rightarrow> rust_type \<Rightarrow> (bytes \<Rightarrow> bytes) \<Rightarrow> 'h heap \<Rightarrow> (AlignBox option \<times> 'h heap) outcome" where
  "AlignBox_heap_init env T initialize s = init_with T initialize (AlignBox_new_in env T s)"

definition AlignBox_heap_init_with_align ::
  "'h alloc_ext \<Rightarrow> rust_type \<Rightarrow> (bytes \<Rightarrow> bytes) \<Rightarrow> usize \<Rightarrow> 'h heap \<Rightarrow> (AlignBox option \<times> 'h heap) outcome" where
  "AlignBox_heap_init_with_align env T initialize align s =
     init_with T initialize (AlignBox_new_with_align env T align s)"

definition AlignBox_heap_init_with_req ::
  "'h alloc_ext \<Rightarrow> rust_type \<Rightarrow> (bytes \<Rightarrow> bytes) \<Rightarrow> usize \<Rightarrow> AlignReq list \<Rightarrow> 'h heap
    \<Rightarrow> (AlignBox option \<times> 'h heap) outcome" where
  "AlignBox_heap_init_with_req env T initialize align data s =
     init_with T initialize (AlignBox_new_with_req env T align data s)"

definition AlignBox_dealloc_buffer :: "'h alloc_ext \<Rightarrow> rust_type \<Rightarrow> AlignBox \<Rightarrow> 'h heap \<Rightarrow> 'h heap" where
  "AlignBox_dealloc_buffer env T b s =
     (if ty_size T \<noteq> 0 then AlignAlloc_dealloc env (bx_ptr b) (origin_layout b) s else s)"

definition AlignBox_drop :: "'h alloc_ext \<Rightarrow> rust_type \<Rightarrow> AlignBox \<Rightarrow> 'h heap \<Rightarrow> 'h heap" where
  "AlignBox_drop env T b s = AlignBox_dealloc_buffer env T b s"

text \<open>
  \<open>clone\<close> copies the bytes of a temporary clone into a new object; \<open>clone_from\<close> does so, and frees the
  old object, unless the padded layouts have the same size.
\<close>

definition copy_new ::
  "'h alloc_ext \<Rightarrow> rust_type \<Rightarrow> (bytes \<Rightarrow> bytes) \<Rightarrow> AlignBox \<Rightarrow> 'h heap \<Rightarrow> (u64 \<times> 'h heap) outcome" where
  "copy_new env T cl src s =
     and_then (AlignAlloc_alloc_with_pad_align_zeroed env (origin_layout src) (align_layout src) s) (\<lambda>(r, s1).
       case r of
         Inl _ \<Rightarrow> Panic
       | Inr ptr \<Rightarrow>
           Done (ptr, put ptr (take (unat (lay_size (origin_layout src))) (cl (get (bx_ptr src) (unat (ty_size T)) s1))) s1))"

definition AlignBox_clone ::
  "'h alloc_ext \<Rightarrow> rust_type \<Rightarrow> (bytes \<Rightarrow> bytes) \<Rightarrow> AlignBox \<Rightarrow> 'h heap \<Rightarrow> (AlignBox \<times> 'h heap) outcome" where
  "AlignBox_clone env T cl self s =
     and_then (copy_new env T cl self s) (\<lambda>(ptr, s1).
       Done (\<lparr> bx_ptr = ptr, align_layout = align_layout self, origin_layout = origin_layout self \<rparr>, s1))"

definition AlignBox_clone_from ::
  "'h alloc_ext \<Rightarrow> rust_type \<Rightarrow> (bytes \<Rightarrow> bytes) \<Rightarrow> AlignBox \<Rightarrow> AlignBox \<Rightarrow> 'h heap \<Rightarrow> (AlignBox \<times> 'h heap) outcome" where
  "AlignBox_clone_from env T cl self source s =
     and_then
       (if lay_size (align_layout source) \<noteq> lay_size (align_layout self)
        then and_then (copy_new env T cl source s) (\<lambda>(ptr, s1).
          Done (self \<lparr> bx_ptr := ptr \<rparr>, AlignBox_dealloc_buffer env T self s1))
        else Done (self, put (bx_ptr self) (cl (get (bx_ptr source) (unat (ty_size T)) s)) s)) (\<lambda>(self', s1).
       Done (self' \<lparr> align_layout := align_layout source, origin_layout := origin_layout source \<rparr>, s1))"

section \<open>Memory\<close>

lemma region_iff: "unat p + n < 2 ^ 64 \<Longrightarrow> a \<in> region p n \<longleftrightarrow> unat p \<le> unat a \<and> unat a < unat p + n"
  using region_interval [of p n a] by (auto simp: region_def unat_sub word_le_nat_alt)

lemma put_outside: "a \<notin> region p (length bs) \<Longrightarrow> hp_mem (put p bs s) a = hp_mem s a"
  by (simp add: put_def region_def)

lemma get_cong: "(\<And>a. a \<in> region p n \<Longrightarrow> hp_mem t a = hp_mem s a) \<Longrightarrow> n < 2 ^ 64 \<Longrightarrow> get p n t = get p n s"
  by (auto simp: get_def region_def unat_of_nat)

lemma length_get [simp]: "length (get p n s) = n"
  by (simp add: get_def)

lemma inner_region:
  assumes "unat raw \<le> unat p" "unat p + m \<le> unat raw + n" "unat raw + n < 2 ^ 64"
  shows "region p m \<subseteq> region raw n"
proof
  fix a
  assume "a \<in> region p m"
  then have "unat p \<le> unat a \<and> unat a < unat p + m" using assms by (simp add: region_iff)
  then show "a \<in> region raw n" using assms by (simp add: region_iff)
qed

section \<open>Boxes\<close>

text \<open>
  The invariant of a box with shift \<open>c\<close> in a heap: its layouts are a sound layout and its padded form,
  and the object lies \<open>c\<close> bytes above an aligned address of a live block whose address is stored in
  the eight bytes before the object.
\<close>

definition box_at :: "('h \<Rightarrow> u64 \<rightharpoonup> nat) \<Rightarrow> nat \<Rightarrow> u64 \<Rightarrow> nat \<Rightarrow> AlignBox \<Rightarrow> 'h heap \<Rightarrow> bool" where
  "box_at live c raw n b s \<longleftrightarrow>
     fits (origin_layout b) \<and> check_layout (origin_layout b) \<and> c < 64
     \<and> unat (lay_align (origin_layout b)) dvd c \<and> align_layout b = padded (origin_layout b) c
     \<and> live (hp_lib s) raw = Some n \<and> unat raw + n < 2 ^ 64
     \<and> unat (bx_ptr b) = aligned_up (unat raw) (padded_align (origin_layout b) c) + c
     \<and> unat raw + 8 \<le> unat (bx_ptr b) \<and> unat (bx_ptr b) + unat (lay_size (origin_layout b)) \<le> unat raw + n
     \<and> get (bx_ptr b - 8) 8 s = le_bytes 8 raw"

lemma from_size_align_layout:
  "Layout_from_size_align sz al = Some l \<Longrightarrow> sz \<noteq> 0 \<Longrightarrow> l = \<lparr> lay_size = sz, lay_align = al \<rparr> \<and> check_layout l"
  by (auto simp: Layout_from_size_align_def check_layout_def split: if_splits)

lemma pad_align_to_success:
  assumes "malloc_spec env live" "fits l" "check_layout l" "pad_align_to env l reqs s = Done (Inr a, t)"
  obtains q c where "reqs \<noteq> []" "chosen_pad l reqs = Some c" "a = padded l c" "live (hp_lib s) q = None"
    and "live (hp_lib t) = (live (hp_lib s))(q \<mapsto> (unat (lay_size l) + 7) div 8)"
proof -
  have reqs: "reqs \<noteq> []" using assms(3,4)
    by (auto simp: pad_align_to_def padding_needed_for_def check_align_req_def)
  obtain q s1 where q: "c_malloc env ((lay_size l + 7) div 8) s = (q, s1)" by fastforce
  have "q \<noteq> 0" using assms(3,4) reqs q
    by (auto simp: pad_align_to_def padding_needed_for_def check_align_req_def Let_def)
  from pad_align_to_outcome [OF assms(1-3) reqs q this] assms(4)
  have o: "Inr a = (case chosen_pad l reqs of None \<Rightarrow> Inl AlignLayoutErr | Some c \<Rightarrow> Inr (padded l c))"
    "live (hp_lib t) = (if reqs_ok (lay_size l) reqs
        then (live (hp_lib s))(q \<mapsto> (unat (lay_size l) + 7) div 8) else live (hp_lib s))"
    by auto
  then obtain c where c: "chosen_pad l reqs = Some c" "a = padded l c" by (cases "chosen_pad l reqs") auto
  then have "reqs_ok (lay_size l) reqs" by (simp add: chosen_pad_def split: if_splits)
  then show thesis using that [OF reqs c malloc_block(1) [OF assms(1) q \<open>q \<noteq> 0\<close>]] o(2) by simp
qed

lemma nonnull_success: "nonnull r = Done (Inr p, t) \<longleftrightarrow> r = Done (p, t) \<and> p \<noteq> 0"
  by (cases r) (auto simp: nonnull_def split: if_splits)

lemma allocate_in_steps:
  assumes "AlignBox_allocate_in env T z align reqs s = Done (Some b, t)"
  defines "l \<equiv> \<lparr> lay_size = ty_size T, lay_align = align \<rparr>"
  obtains a s1 where "check_layout l" "pad_align_to env l reqs s = Done (Inr a, s1)"
    and "req_alloc env z l reqs s1 = Done (bx_ptr b, t)" "bx_ptr b \<noteq> 0" "align_layout b = a" "origin_layout b = l"
proof -
  have sz: "ty_size T \<noteq> 0" using assms(1) by (auto simp: AlignBox_allocate_in_def)
  have la: "Layout_from_size_align (ty_size T) align = Some l"
    using assms(1) sz from_size_align_layout [of "ty_size T" align]
    by (cases "Layout_from_size_align (ty_size T) align") (auto simp: AlignBox_allocate_in_def l_def)
  obtain r s1 where r1: "pad_align_to env l reqs s = Done (r, s1)"
    using assms(1) sz la by (cases "pad_align_to env l reqs s") (auto simp: AlignBox_allocate_in_def AlignAlloc_pad_align_to_def)
  obtain a where r: "r = Inr a"
    using assms(1) sz la r1 by (cases r) (auto simp: AlignBox_allocate_in_def AlignAlloc_pad_align_to_def)
  have "and_then (nonnull (req_alloc env z l reqs s1)) (\<lambda>(result, s2). case result of Inl _ \<Rightarrow> Panic
      | Inr ptr \<Rightarrow> Done (Some \<lparr> bx_ptr = ptr, align_layout = a, origin_layout = l \<rparr>, s2)) = Done (Some b, t)"
    using assms(1) sz la r1 r unfolding AlignBox_allocate_in_def AlignAlloc_pad_align_to_def
      AlignAlloc_alloc_with_req_zeroed_def AlignAlloc_alloc_with_req_def alloc_shapes by (cases z) auto
  then obtain res s2 where r2: "nonnull (req_alloc env z l reqs s1) = Done (res, s2)"
      "(case res of Inl _ \<Rightarrow> Panic
        | Inr ptr \<Rightarrow> Done (Some \<lparr> bx_ptr = ptr, align_layout = a, origin_layout = l \<rparr>, s2)) = Done (Some b, t)"
    unfolding and_then_Done_iff by auto
  then obtain p where "res = Inr p" by (cases res) auto
  with r2 have 1: "req_alloc env z l reqs s1 = Done (bx_ptr b, t)" "bx_ptr b \<noteq> 0" "align_layout b = a" "origin_layout b = l"
    by (auto simp: nonnull_success)
  show thesis by (rule that [OF conjunct2 [OF from_size_align_layout [OF la sz]] r1 [unfolded r] 1])
qed

lemma allocate_in_success:
  assumes "malloc_spec env live" "fits \<lparr> lay_size = ty_size T, lay_align = align \<rparr>"
    and "AlignBox_allocate_in env T z align reqs s = Done (Some b, t)"
  obtains c q1 q2 raw n where "origin_layout b = \<lparr> lay_size = ty_size T, lay_align = align \<rparr>"
    and "reqs \<noteq> []" "chosen_pad (origin_layout b) reqs = Some c" "box_at live c raw n b t"
    and "live (hp_lib s) q1 = None" "live (hp_lib s) q2 = None" "live (hp_lib s) raw = None" "distinct [q1, q2, raw]"
    and "live (hp_lib t) = (live (hp_lib s))(q1 \<mapsto> (unat (ty_size T) + 7) div 8, q2 \<mapsto> (unat (ty_size T) + 7) div 8, raw \<mapsto> n)"
proof -
  let ?l = "\<lparr> lay_size = ty_size T, lay_align = align \<rparr>"
  obtain a s1 where l: "check_layout ?l" and r1: "pad_align_to env ?l reqs s = Done (Inr a, s1)"
    and 1: "req_alloc env z ?l reqs s1 = Done (bx_ptr b, t)" "bx_ptr b \<noteq> 0" "align_layout b = a" "origin_layout b = ?l"
    by (rule allocate_in_steps [OF assms(3)])
  obtain q1 c where c: "reqs \<noteq> []" "chosen_pad ?l reqs = Some c" "a = padded ?l c" "live (hp_lib s) q1 = None"
      "live (hp_lib s1) = (live (hp_lib s))(q1 \<mapsto> (unat (lay_size ?l) + 7) div 8)"
    by (rule pad_align_to_success [OF assms(1,2) l r1])
  obtain q2 raw c' n where r: "chosen_pad ?l (asked ?l reqs) = Some c'"
      "unat (bx_ptr b) = aligned_up (unat raw) (padded_align ?l c') + c'"
      "live (hp_lib s1) raw = None" "live (hp_lib s1) q2 = None" "raw \<noteq> q2"
      "live (hp_lib t) = (live (hp_lib s1))(q2 \<mapsto> (unat (lay_size ?l) + 7) div 8, raw \<mapsto> n)"
      "unat raw + 8 \<le> unat (bx_ptr b)" "unat (bx_ptr b) + unat (lay_size ?l) \<le> unat raw + n" "unat raw + n < 2 ^ 64"
      "get (bx_ptr b - 8) 8 t = le_bytes 8 raw"
    by (rule req_alloc_success [OF assms(1,2) 1(1,2)]) blast
  have "c' = c" using r(1) c(1,2) by (simp add: asked_def)
  moreover have "unat align dvd c" "c < 64"
    using c(2) by (auto simp: chosen_pad_def first_pad_Some pad_ok_def split: if_splits)
  ultimately have "box_at live c raw n b t"
    using r assms(2) l 1(3,4) c(3) by (simp add: box_at_def)
  moreover have "live (hp_lib s) q2 = None" "live (hp_lib s) raw = None" "distinct [q1, q2, raw]"
    using r(3-5) c(4,5) by (auto split: if_splits)
  ultimately show thesis using that 1(4) c r(6) by simp
qed

lemma box_at_frame:
  assumes "box_at live c raw n b s" "live (hp_lib t) raw = Some n" "\<forall>a\<in>region raw n. hp_mem t a = hp_mem s a"
  shows "box_at live c raw n b t"
    and "get (bx_ptr b) (unat (lay_size (origin_layout b))) t = get (bx_ptr b) (unat (lay_size (origin_layout b))) s"
proof -
  have b: "unat raw + 8 \<le> unat (bx_ptr b)" "unat (bx_ptr b) + unat (lay_size (origin_layout b)) \<le> unat raw + n"
      "unat raw + n < 2 ^ 64" using assms(1) by (simp_all add: box_at_def)
  have "unat (bx_ptr b - 8) = unat (bx_ptr b) - 8" using b(1) by (simp add: unat_sub word_le_nat_alt)
  then have "region (bx_ptr b - 8) 8 \<subseteq> region raw n" using b by (intro inner_region) linarith+
  then have "get (bx_ptr b - 8) 8 t = get (bx_ptr b - 8) 8 s" using assms(3) by (intro get_cong) auto
  then show "box_at live c raw n b t" using assms(1,2) by (simp add: box_at_def)
  have "region (bx_ptr b) (unat (lay_size (origin_layout b))) \<subseteq> region raw n" using b by (intro inner_region) linarith+
  then show "get (bx_ptr b) (unat (lay_size (origin_layout b))) t = get (bx_ptr b) (unat (lay_size (origin_layout b))) s"
    using assms(3) b by (intro get_cong) auto
qed

lemma box_at_kept:
  assumes "box_at live c raw n b s" "kept B s t" "B raw = Some n" "live (hp_lib t) raw = Some n"
  shows "box_at live c raw n b t"
    and "get (bx_ptr b) (unat (lay_size (origin_layout b))) t = get (bx_ptr b) (unat (lay_size (origin_layout b))) s"
  using box_at_frame [OF assms(1,4)] assms(2,3) by (simp_all add: kept_def)

text \<open>Writes to the object keep the invariant.\<close>

lemma box_at_write:
  assumes "box_at live c raw n b s" "hp_lib t = hp_lib s"
    and "\<forall>a. a \<notin> region (bx_ptr b) (unat (lay_size (origin_layout b))) \<longrightarrow> hp_mem t a = hp_mem s a"
  shows "box_at live c raw n b t"
proof -
  have b: "unat raw + 8 \<le> unat (bx_ptr b)" "unat (bx_ptr b) + unat (lay_size (origin_layout b)) < 2 ^ 64"
    using assms(1) by (auto simp: box_at_def)
  have "get (bx_ptr b - 8) 8 t = get (bx_ptr b - 8) 8 s" by (rule object_writes_keep_slot [OF b assms(3)])
  then show ?thesis using assms(1,2) by (simp add: box_at_def)
qed

lemma box_drop:
  assumes "malloc_spec env live" "box_at live c raw n b s" "ty_size T \<noteq> 0"
  shows "live (hp_lib (AlignBox_dealloc_buffer env T b s)) = (live (hp_lib s))(raw := None)"
    and "kept ((live (hp_lib s))(raw := None)) s (AlignBox_dealloc_buffer env T b s)"
proof -
  have "AlignBox_dealloc_buffer env T b s = c_free env raw s"
    using assms(2,3) by (simp add: AlignBox_dealloc_buffer_def AlignAlloc_dealloc_def platform_dealloc_def box_at_def)
  moreover have "live (hp_lib s) raw \<noteq> None" using assms(2) by (simp add: box_at_def)
  ultimately show "live (hp_lib (AlignBox_dealloc_buffer env T b s)) = (live (hp_lib s))(raw := None)"
    "kept ((live (hp_lib s))(raw := None)) s (AlignBox_dealloc_buffer env T b s)"
    using assms(1) by (simp_all add: malloc_spec_def)
qed

text \<open>Allocating by a padded layout: a new block, nothing else changed.\<close>

lemma kept_inside:
  assumes "kept blocks s t" "\<And>r k. blocks r = Some k \<Longrightarrow> region raw n \<inter> region r k = {}"
    and "\<And>x. x \<notin> region raw n \<Longrightarrow> hp_mem t' x = hp_mem t x"
  shows "kept blocks s t'"
  unfolding kept_def
proof (intro allI impI ballI)
  fix r k x
  assume r: "blocks r = Some k" "x \<in> region r k"
  then have "x \<notin> region raw n" using assms(2) [OF r(1)] by blast
  then show "hp_mem t' x = hp_mem s x" using assms(1,3) r by (simp add: kept_def)
qed

lemma alloc_in_success:
  assumes "malloc_spec env live" "fits l" "check_layout l" "c < 64"
    and "alloc_with_pad_align_in env z l (padded l c) s = Done (p, t)" "p \<noteq> 0"
  obtains raw n where "live (hp_lib s) raw = None" "live (hp_lib t) = (live (hp_lib s))(raw \<mapsto> n)"
    and "unat p = aligned_up (unat raw) (padded_align l c) + c" "unat raw + 8 \<le> unat p"
    and "unat p + unat (lay_size l) \<le> unat raw + n" "unat raw + n < 2 ^ 64" "get (p - 8) 8 t = le_bytes 8 raw"
    and "kept (live (hp_lib s)) s t" "\<And>r k. live (hp_lib s) r = Some k \<Longrightarrow> region raw n \<inter> region r k = {}"
proof -
  obtain raw s1 where m: "c_malloc env (lay_size (padded l c) + 8) s = (raw, s1)" by fastforce
  define n where "n = unat (lay_size (padded l c) + 8)"
  note a = alloc_in_outcome [OF assms(1-4) m, folded n_def]
  have ok: "raw \<noteq> 0" "\<not> aligned_up (unat raw) (padded_align l c) + c < unat raw + 8"
    using assms(5,6) a(1) [of z] by (auto split: if_splits)
  define s2 where "s2 = (if z then put raw (replicate (unat (lay_size (padded l c))) 0) s1 else s1)"
  have t: "p = make_aligned_ptr raw (lay_align (padded l c)) (of_nat c)" "t = put (p - 8) (le_bytes 8 raw) s2"
    using assms(5) a(1) [of z] ok by (auto simp: s2_def)
  have p: "unat p = aligned_up (unat raw) (padded_align l c) + c" "unat raw + 8 \<le> unat p"
      "unat p + unat (lay_size l) \<le> unat raw + n" "unat raw + n < 2 ^ 64"
    using a(2-4) [OF ok(1)] ok(2) by (simp_all add: t(1))
  note b = malloc_block [OF assms(1) m ok(1)]
  have "unat (p - 8) = unat p - 8" using p(2) by (simp add: unat_sub word_le_nat_alt)
  then have in1: "region (p - 8) 8 \<subseteq> region raw n" using p by (intro inner_region; linarith)
  have "unat (lay_size (padded l c)) \<le> n"
    using unat_padded [OF assms(2,4)] by (simp add: n_def unat_word_ariths)
  then have in2: "region raw (unat (lay_size (padded l c))) \<subseteq> region raw n" by (auto simp: region_def)
  have same: "hp_mem t x = hp_mem s1 x" if "x \<notin> region raw n" for x
  proof -
    have "x \<notin> region (p - 8) 8" "x \<notin> region raw (unat (lay_size (padded l c)))" using that in1 in2 by blast+
    then show ?thesis unfolding t(2) s2_def by (simp add: put_outside)
  qed
  have kept: "kept (live (hp_lib s)) s t"
    by (rule kept_inside [OF conjunct1 [OF malloc_law [OF assms(1) m]] b(5) [folded n_def] same])
  have slot: "get (p - 8) 8 t = le_bytes 8 raw" unfolding t(2) by (rule get_put) simp_all
  have live: "live (hp_lib t) = (live (hp_lib s))(raw \<mapsto> n)" using b(2) by (simp add: t(2) s2_def n_def)
  show thesis by (rule that [OF b(1) live p slot kept b(5) [folded n_def]])
qed

text \<open>A copy of a box: the same shift in a new block, and the clone of the value.\<close>

lemma copy_new_success:
  assumes "malloc_spec env live" "box_at live c raw n src s" "copy_new env T cl src s = Done (p, t)"
    and "lay_size (origin_layout src) = ty_size T" "\<And>bs. length (cl bs) = length bs"
  obtains raw' n' where "live (hp_lib s) raw' = None" "live (hp_lib t) = (live (hp_lib s))(raw' \<mapsto> n')"
    and "box_at live c raw' n' (src \<lparr> bx_ptr := p \<rparr>) t" "kept (live (hp_lib s)) s t"
    and "get p (unat (ty_size T)) t = cl (get (bx_ptr src) (unat (ty_size T)) s)"
proof -
  let ?l = "origin_layout src" and ?k = "unat (ty_size T)"
  have src: "fits ?l" "check_layout ?l" "c < 64" "align_layout src = padded ?l c" "unat (lay_align ?l) dvd c"
      "live (hp_lib s) raw = Some n"
    using assms(2) by (simp_all add: box_at_def)
  have "unat raw + 8 \<le> unat (bx_ptr src)" "unat (bx_ptr src) + ?k \<le> unat raw + n" "unat raw + n < 2 ^ 64"
    using assms(2,4) by (simp_all add: box_at_def)
  then have obj: "region (bx_ptr src) ?k \<subseteq> region raw n" "?k < 2 ^ 64"
    using inner_region [of raw "bx_ptr src" ?k n] by simp_all
  obtain res s0 where r0: "nonnull (alloc_with_pad_align_in env True ?l (padded ?l c) s) = Done (res, s0)"
    using assms(3) src(4)
    by (cases "nonnull (alloc_with_pad_align_in env True ?l (padded ?l c) s)")
      (auto simp: copy_new_def AlignAlloc_alloc_with_pad_align_zeroed_def alloc_with_pad_align_zeroed_def)
  then obtain s2 where 2: "alloc_with_pad_align_in env True ?l (padded ?l c) s = Done (p, s2)" "p \<noteq> 0"
      "t = put p (take ?k (cl (get (bx_ptr src) ?k s2))) s2"
    using assms(3,4) src(4)
    by (cases res) (auto simp: copy_new_def AlignAlloc_alloc_with_pad_align_zeroed_def alloc_with_pad_align_zeroed_def
        nonnull_success nonnull_def [of "Done _"])
  obtain raw' n' where a: "live (hp_lib s) raw' = None" "live (hp_lib s2) = (live (hp_lib s))(raw' \<mapsto> n')"
      "unat p = aligned_up (unat raw') (padded_align ?l c) + c" "unat raw' + 8 \<le> unat p"
      "unat p + unat (lay_size ?l) \<le> unat raw' + n'" "unat raw' + n' < 2 ^ 64" "get (p - 8) 8 s2 = le_bytes 8 raw'"
      "kept (live (hp_lib s)) s s2" "\<And>r k. live (hp_lib s) r = Some k \<Longrightarrow> region raw' n' \<inter> region r k = {}"
    by (rule alloc_in_success [OF assms(1) src(1-3) 2(1,2)]) blast
  have "get (bx_ptr src) ?k s2 = get (bx_ptr src) ?k s"
    using a(8) src(6) obj by (intro get_cong) (auto simp: kept_def)
  then have t: "t = put p (cl (get (bx_ptr src) ?k s)) s2" using 2(3) by (simp add: assms(5))
  have out: "hp_mem t x = hp_mem s2 x" if "x \<notin> region p ?k" for x
    using that unfolding t by (simp add: put_outside assms(5))
  have inner: "region p ?k \<subseteq> region raw' n'" using a(4-6) assms(4) by (intro inner_region) simp_all
  then have same: "hp_mem t x = hp_mem s2 x" if "x \<notin> region raw' n'" for x using that out by blast
  have "kept (live (hp_lib s)) s t" by (rule kept_inside [OF a(8,9) same])
  moreover have "get p ?k t = cl (get (bx_ptr src) ?k s)"
    unfolding t using obj(2) by (intro get_put) (simp_all add: assms(5))
  moreover have "box_at live c raw' n' (src \<lparr> bx_ptr := p \<rparr>) s2"
    using src a assms(4) by (simp add: box_at_def)
  then have "box_at live c raw' n' (src \<lparr> bx_ptr := p \<rparr>) t"
    by (rule box_at_write) (use out in \<open>simp_all add: t assms(4)\<close>)
  ultimately show thesis using that a(1,2) by (simp add: t)
qed

text \<open>For objects of one size the size of the padded layout determines the shift and the alignment.\<close>

lemma large_align: "check_layout l \<Longrightarrow> 64 < unat (lay_align l) \<Longrightarrow> 128 \<le> unat (lay_align l)"
proof -
  assume l: "check_layout l" "64 < unat (lay_align l)"
  then obtain k where k: "unat (lay_align l) = 2 ^ k" using check_layoutD(2) by (auto simp: is_power_of_two_iff)
  have "(2 :: nat) ^ 6 < 2 ^ k" using l(2) by (simp add: k)
  then have "6 < k" by (rule power_less_imp_less_exp [rotated]) simp
  then have "(2 :: nat) ^ 7 \<le> 2 ^ k" by (intro power_increasing) auto
  then show ?thesis by (simp add: k)
qed

lemma same_padded_size:
  assumes "fits l" "check_layout l" "c < 64" "unat (lay_align l) dvd c"
    and "fits l'" "check_layout l'" "c' < 64" "unat (lay_align l') dvd c'"
    and "lay_size l = lay_size l'" "lay_size (padded l c) = lay_size (padded l' c')"
  shows "c = c' \<and> padded_align l c = padded_align l' c'"
proof -
  have sum: "c + padded_align l c = c' + padded_align l' c'"
    using unat_padded(2) [OF assms(1,3)] unat_padded(2) [OF assms(5,7)] assms(9,10) by simp
  have zero: "c = 0" if "64 < unat (lay_align l)" using that assms(3,4) by (auto dest: dvd_imp_le)
  have zero': "c' = 0" if "64 < unat (lay_align l')" using that assms(7,8) by (auto dest: dvd_imp_le)
  have large: "128 \<le> padded_align l c" "64 < unat (lay_align l)" if "64 < padded_align l c"
    using that large_align [OF assms(2)] padded_align_cases [of l c] by auto
  have large': "128 \<le> padded_align l' c'" "64 < unat (lay_align l')" if "64 < padded_align l' c'"
    using that large_align [OF assms(6)] padded_align_cases [of l' c'] by auto
  consider "64 < padded_align l c" "64 < padded_align l' c'" | "\<not> 64 < padded_align l c" "\<not> 64 < padded_align l' c'"
    using sum large large' zero zero' assms(3,7) by linarith
  then show ?thesis
  proof cases
    case 1
    then show ?thesis using sum zero [OF large(2)] zero' [OF large'(2)] by simp
  next
    case 2
    then have "unat (lay_align l) \<le> 64" "unat (lay_align l') \<le> 64"
      using padded_align_cases [of l c] padded_align_cases [of l' c'] by auto
    then show ?thesis
      using sum assms(3,7,9) by (simp add: padded_align_def Let_def split: if_splits)
  qed
qed

lemma box_at_live: "box_at live c raw n b s \<Longrightarrow> live (hp_lib s) raw = Some n"
  by (simp add: box_at_def)

lemma clone_success:
  assumes "malloc_spec env live" "box_at live c raw n b s" "AlignBox_clone env T cl b s = Done (b', t)"
    and "lay_size (origin_layout b) = ty_size T" "\<And>bs. length (cl bs) = length bs"
  shows "\<exists>raw' n'. raw' \<noteq> raw \<and> box_at live c raw' n' b' t \<and> box_at live c raw n b t
    \<and> get (bx_ptr b') (unat (ty_size T)) t = cl (get (bx_ptr b) (unat (ty_size T)) s)
    \<and> get (bx_ptr b) (unat (ty_size T)) t = get (bx_ptr b) (unat (ty_size T)) s"
proof -
  obtain p where p: "copy_new env T cl b s = Done (p, t)" "b' = b \<lparr> bx_ptr := p \<rparr>"
    using assms(3) by (cases "copy_new env T cl b s") (auto simp: AlignBox_clone_def)
  obtain raw' n' where r: "live (hp_lib s) raw' = None" "live (hp_lib t) = (live (hp_lib s))(raw' \<mapsto> n')"
      "box_at live c raw' n' (b \<lparr> bx_ptr := p \<rparr>) t" "kept (live (hp_lib s)) s t"
      "get p (unat (ty_size T)) t = cl (get (bx_ptr b) (unat (ty_size T)) s)"
    by (rule copy_new_success [OF assms(1,2) p(1) assms(4,5)])
  have "raw' \<noteq> raw" using r(1) box_at_live [OF assms(2)] by auto
  then show ?thesis
    using box_at_kept [OF assms(2) r(4) box_at_live [OF assms(2)]] r(2,3,5) box_at_live [OF assms(2)] assms(4) p(2)
    by (intro exI [of _ raw'] exI [of _ n']) simp
qed

lemma clone_from_new:
  assumes "malloc_spec env live" "box_at live c raw n src s" "box_at live c2 raw2 n2 b s" "raw2 \<noteq> raw"
    and "lay_size (align_layout src) \<noteq> lay_size (align_layout b)" "AlignBox_clone_from env T cl b src s = Done (b', t)"
    and "lay_size (origin_layout src) = ty_size T" "\<And>bs. length (cl bs) = length bs"
  shows "\<exists>raw' n'. raw' \<noteq> raw \<and> box_at live c raw' n' b' t \<and> box_at live c raw n src t
    \<and> get (bx_ptr b') (unat (ty_size T)) t = cl (get (bx_ptr src) (unat (ty_size T)) s)
    \<and> get (bx_ptr src) (unat (ty_size T)) t = get (bx_ptr src) (unat (ty_size T)) s"
proof -
  obtain p t1 where p: "copy_new env T cl src s = Done (p, t1)" "t = AlignBox_dealloc_buffer env T b t1"
      "b' = src \<lparr> bx_ptr := p \<rparr>"
    using assms(5,6) by (cases "copy_new env T cl src s") (auto simp: AlignBox_clone_from_def)
  obtain raw' n' where r: "live (hp_lib s) raw' = None" "live (hp_lib t1) = (live (hp_lib s))(raw' \<mapsto> n')"
      "box_at live c raw' n' (src \<lparr> bx_ptr := p \<rparr>) t1" "kept (live (hp_lib s)) s t1"
      "get p (unat (ty_size T)) t1 = cl (get (bx_ptr src) (unat (ty_size T)) s)"
    by (rule copy_new_success [OF assms(1,2) p(1) assms(7,8)])
  note l = box_at_live [OF assms(2)] box_at_live [OF assms(3)]
  have ne: "raw' \<noteq> raw" "raw' \<noteq> raw2" using r(1) l by auto
  have old: "box_at live c2 raw2 n2 b t1" "box_at live c raw n src t1"
      "get (bx_ptr src) (unat (ty_size T)) t1 = get (bx_ptr src) (unat (ty_size T)) s"
    using box_at_kept [OF assms(3) r(4) l(2)] box_at_kept [OF assms(2) r(4) l(1)] r(2) l ne assms(7) by simp_all
  have "ty_size T \<noteq> 0" using assms(2,7) check_layoutD(1) [of "origin_layout src"] by (auto simp: box_at_def)
  note d = box_drop [OF assms(1) old(1) this, folded p(2)]
  have "((live (hp_lib t1))(raw2 := None)) raw = Some n" "((live (hp_lib t1))(raw2 := None)) raw' = Some n'"
    using r(2) l(1) assms(4) ne by simp_all
  then have "box_at live c raw n src t" "get (bx_ptr src) (unat (ty_size T)) t = get (bx_ptr src) (unat (ty_size T)) t1"
      "box_at live c raw' n' b' t" "get p (unat (ty_size T)) t = get p (unat (ty_size T)) t1"
    using box_at_kept [OF old(2) d(2)] box_at_kept [OF r(3) d(2)] d(1) assms(7) by (simp_all add: p(3))
  then show ?thesis using r(5) old(3) ne(1) by (intro exI [of _ raw'] exI [of _ n']) (simp add: p(3))
qed

lemma clone_from_same:
  assumes "box_at live c raw n src s" "box_at live c2 raw2 n2 b s" "region raw2 n2 \<inter> region raw n = {}"
    and "lay_size (align_layout src) = lay_size (align_layout b)" "AlignBox_clone_from env T cl b src s = Done (b', t)"
    and "lay_size (origin_layout src) = ty_size T" "lay_size (origin_layout b) = ty_size T" "\<And>bs. length (cl bs) = length bs"
  shows "box_at live c raw2 n2 b' t \<and> box_at live c raw n src t
    \<and> get (bx_ptr b') (unat (ty_size T)) t = cl (get (bx_ptr src) (unat (ty_size T)) s)
    \<and> get (bx_ptr src) (unat (ty_size T)) t = get (bx_ptr src) (unat (ty_size T)) s"
proof -
  let ?k = "unat (ty_size T)"
  have t: "t = put (bx_ptr b) (cl (get (bx_ptr src) ?k s)) s"
      "b' = b \<lparr> align_layout := align_layout src, origin_layout := origin_layout src \<rparr>"
    using assms(4,5) by (auto simp: AlignBox_clone_from_def)
  have src: "fits (origin_layout src)" "check_layout (origin_layout src)" "c < 64"
      "unat (lay_align (origin_layout src)) dvd c" "align_layout src = padded (origin_layout src) c"
    using assms(1) by (simp_all add: box_at_def)
  have b: "fits (origin_layout b)" "check_layout (origin_layout b)" "c2 < 64"
      "unat (lay_align (origin_layout b)) dvd c2" "align_layout b = padded (origin_layout b) c2"
      "unat raw2 + 8 \<le> unat (bx_ptr b)" "unat (bx_ptr b) + ?k \<le> unat raw2 + n2" "unat raw2 + n2 < 2 ^ 64"
    using assms(2,7) by (simp_all add: box_at_def)
  have same: "c2 = c" "padded_align (origin_layout b) c2 = padded_align (origin_layout src) c"
    using same_padded_size [OF b(1-4) src(1-4)] assms(4,6,7) src(5) b(5) by auto
  have inner: "region (bx_ptr b) ?k \<subseteq> region raw2 n2" "?k < 2 ^ 64"
    using inner_region [of raw2 "bx_ptr b" ?k n2] b(6-8) by simp_all
  have out: "hp_mem t x = hp_mem s x" if "x \<notin> region (bx_ptr b) ?k" for x
    using that unfolding t(1) by (simp add: put_outside assms(8))
  have "box_at live c2 raw2 n2 b t"
    by (rule box_at_write [OF assms(2)]) (use out in \<open>simp_all add: t(1) assms(7)\<close>)
  then have "box_at live c raw2 n2 b' t" using src assms(6,7) same by (simp add: box_at_def t(2))
  moreover have "get (bx_ptr b') ?k t = cl (get (bx_ptr src) ?k s)"
    using get_put [of "cl (get (bx_ptr src) ?k s)" ?k "bx_ptr b" s] inner(2) by (simp add: t assms(8))
  moreover have "\<forall>a\<in>region raw n. hp_mem t a = hp_mem s a" using out inner(1) assms(3) by blast
  then have "box_at live c raw n src t" "get (bx_ptr src) ?k t = get (bx_ptr src) ?k s"
    using box_at_frame [OF assms(1), of t] box_at_live [OF assms(1)] assms(6) by (simp_all add: t(1))
  ultimately show ?thesis by blast
qed

section \<open>Correctness\<close>

text \<open>
  C19.  Copies are placed like the original.  Cloning a box gives a box in a block of its own with the
  same shift, holding the clone of the value; \<open>clone_from\<close> leaves its target as such a copy too, also when
  it reuses the old object because the padded sizes agree: for values of one type the padded size determines
  the shift.  The original and its contents are unchanged.
\<close>

theorem align_box_copies:
  assumes "malloc_spec env live" "box_at live c raw n src s" "lay_size (origin_layout src) = ty_size T"
    and "\<And>bs. length (cl bs) = length bs"
    and "AlignBox_clone env T cl src s = Done (b', t)
      \<or> (\<exists>c2 raw2 n2 b. box_at live c2 raw2 n2 b s \<and> lay_size (origin_layout b) = ty_size T \<and> raw2 \<noteq> raw
          \<and> region raw2 n2 \<inter> region raw n = {} \<and> AlignBox_clone_from env T cl b src s = Done (b', t))"
  shows "\<exists>raw' n'. raw' \<noteq> raw \<and> box_at live c raw' n' b' t \<and> box_at live c raw n src t
    \<and> get (bx_ptr b') (unat (ty_size T)) t = cl (get (bx_ptr src) (unat (ty_size T)) s)
    \<and> get (bx_ptr src) (unat (ty_size T)) t = get (bx_ptr src) (unat (ty_size T)) s"
  using assms(5)
proof (elim disjE exE conjE)
  fix c2 raw2 n2 b
  assume b: "box_at live c2 raw2 n2 b s" "lay_size (origin_layout b) = ty_size T" "raw2 \<noteq> raw"
    "region raw2 n2 \<inter> region raw n = {}" "AlignBox_clone_from env T cl b src s = Done (b', t)"
  show ?thesis
    using clone_from_new [OF assms(1,2) b(1,3) _ b(5) assms(3,4)]
      clone_from_same [OF assms(2) b(1,4) _ b(5) assms(3) b(2) assms(4)] b(3) by blast
qed (rule clone_success [OF assms(1,2) _ assms(3,4)])

text \<open>A heap with one boxed 16-byte key.\<close>

definition key_type :: rust_type where
  "key_type = \<lparr> ty_size = 16, ty_align = 1 \<rparr>"

definition key_box :: AlignBox where
  "key_box = \<lparr> bx_ptr = 72, align_layout = padded key_layout 8, origin_layout = key_layout \<rparr>"

definition key_heap :: "(u64 \<times> nat) list heap" where
  "key_heap = put 64 (le_bytes 8 (64 :: u64)) \<lparr> hp_lib = [(64, 64)], hp_mem = \<lambda>_. 0 \<rparr>"

lemma key_padded: "padded_align key_layout 8 = 32" "unat (lay_size (padded key_layout 8)) = 56"
proof -
  show A: "padded_align key_layout 8 = 32" by (simp add: padded_align_def key_layout_ok)
  show "unat (lay_size (padded key_layout 8)) = 56"
    using unat_padded(2) [OF key_layout_ok(1), of 8] A by (simp add: key_layout_ok)
qed

lemma key_box_at: "box_at map_of 8 64 64 key_box key_heap"
proof -
  have "get 64 8 key_heap = le_bytes 8 (64 :: u64)" unfolding key_heap_def by (rule get_put) simp_all
  then show ?thesis
    using key_layout_ok key_padded by (simp add: box_at_def key_box_def key_heap_def aligned_up_def)
qed

lemma key_clone: "\<exists>b t. AlignBox_clone list_alloc key_type id key_box key_heap = Done (b, t)"
proof -
  let ?n = "lay_size (padded key_layout 8) + 8"
  have n: "unat ?n = 64" using key_padded(2) by (simp add: unat_word_ariths)
  obtain s1 where m: "c_malloc list_alloc ?n key_heap = (2064, s1)"
    using n by (simp add: list_alloc_def key_heap_def list_top_def)
  note a = alloc_in_outcome(1,2) [OF list_alloc_spec key_layout_ok(1,2) _ m]
  have up: "2064 \<le> aligned_up 2064 (padded_align key_layout 8)" by (rule aligned_up_bounds) (simp add: key_padded)
  obtain p t where p: "alloc_with_pad_align_in list_alloc True key_layout (padded key_layout 8) key_heap = Done (p, t)"
      "unat p = aligned_up 2064 (padded_align key_layout 8) + 8"
    using a(1) [where z = True] a(2) up by simp
  then have "p \<noteq> 0" by auto
  then show ?thesis
    using p(1) by (simp add: AlignBox_clone_def copy_new_def AlignAlloc_alloc_with_pad_align_zeroed_def
        alloc_with_pad_align_zeroed_def nonnull_def key_box_def)
qed

theorem align_box_copies_witness:
  "\<exists>b t raw n. AlignBox_clone list_alloc key_type id key_box key_heap = Done (b, t) \<and> raw \<noteq> 64
     \<and> box_at map_of 8 raw n b t \<and> box_at map_of 8 64 64 key_box t"
proof -
  obtain b t where c: "AlignBox_clone list_alloc key_type id key_box key_heap = Done (b, t)" using key_clone by blast
  have "lay_size (origin_layout key_box) = ty_size key_type" by (simp add: key_box_def key_type_def key_layout_def)
  from align_box_copies [OF list_alloc_spec key_box_at this _ disjI1 [OF c]] c show ?thesis by auto
qed

text \<open>From the allocation of a box to its release.\<close>

lemma allocate_in_lifecycle:
  assumes "malloc_spec env live" "fits \<lparr> lay_size = ty_size T, lay_align = align \<rparr>"
    and "AlignBox_allocate_in env T z align reqs s = Done (Some b, t)" "hp_lib t' = hp_lib t"
    and "\<forall>a. a \<notin> region (bx_ptr b) (unat (ty_size T)) \<longrightarrow> hp_mem t' a = hp_mem t a"
  shows "(\<forall>x\<in>set (covered reqs). \<not> avoided ((unat (bx_ptr b) + x) mod 64))
    \<and> (\<exists>q1 q2. q1 \<noteq> q2 \<and> live (hp_lib s) q1 = None \<and> live (hp_lib s) q2 = None
        \<and> live (hp_lib (AlignBox_drop env T b t')) =
          (live (hp_lib s))(q1 \<mapsto> (unat (ty_size T) + 7) div 8, q2 \<mapsto> (unat (ty_size T) + 7) div 8))"
proof -
  obtain c q1 q2 raw n where a: "origin_layout b = \<lparr> lay_size = ty_size T, lay_align = align \<rparr>"
      "chosen_pad (origin_layout b) reqs = Some c" "box_at live c raw n b t"
      "live (hp_lib s) q1 = None" "live (hp_lib s) q2 = None" "live (hp_lib s) raw = None" "distinct [q1, q2, raw]"
      "live (hp_lib t) = (live (hp_lib s))(q1 \<mapsto> (unat (ty_size T) + 7) div 8, q2 \<mapsto> (unat (ty_size T) + 7) div 8, raw \<mapsto> n)"
    by (rule allocate_in_success [OF assms(1-3)]) blast
  have b: "check_layout (origin_layout b)" "unat (bx_ptr b) = aligned_up (unat raw) (padded_align (origin_layout b) c) + c"
    using a(3) by (simp_all add: box_at_def)
  have "ty_size T \<noteq> 0" using check_layoutD(1) [OF b(1)] a(1) by auto
  moreover have "box_at live c raw n b t'" using box_at_write [OF a(3) assms(4)] assms(5) a(1) by simp
  ultimately have "live (hp_lib (AlignBox_drop env T b t')) = (live (hp_lib t))(raw := None)"
    using box_drop(1) [OF assms(1)] assms(4) by (simp add: AlignBox_drop_def)
  then have "live (hp_lib (AlignBox_drop env T b t')) =
      (live (hp_lib s))(q1 \<mapsto> (unat (ty_size T) + 7) div 8, q2 \<mapsto> (unat (ty_size T) + 7) div 8)"
    using a(6-8) by (auto simp: fun_eq_iff)
  then show ?thesis using shifted_placement [OF b(1) a(2)] b(2) a(4,5,7) by auto
qed

text \<open>The box that \<open>heap_init_with_req\<close> returns is one of \<open>allocate_in\<close> with another value in it.\<close>

lemma heap_init_with_req_steps:
  assumes "AlignBox_heap_init_with_req env T f align reqs s = Done (Some b, t)" "\<And>bs. length (f bs) = length bs"
  obtains t0 where "AlignBox_allocate_in env T True (if reqs = [] then ty_align T else align)
      (if reqs = [] then [\<lparr> ar_offset = 0, ar_len = ty_size T \<rparr>] else reqs) s = Done (Some b, t0)"
    and "hp_lib t = hp_lib t0" "\<And>a. a \<notin> region (bx_ptr b) (unat (ty_size T)) \<Longrightarrow> hp_mem t a = hp_mem t0 a"
proof -
  from assms(1) obtain t0 where t0: "AlignBox_new_with_req env T align reqs s = Done (Some b, t0)"
      "t = put (bx_ptr b) (f (get (bx_ptr b) (unat (ty_size T)) t0)) t0"
    by (auto simp: AlignBox_heap_init_with_req_def init_with_def and_then_Done_iff split: option.splits)
  have "hp_mem t a = hp_mem t0 a" if "a \<notin> region (bx_ptr b) (unat (ty_size T))" for a
    using put_outside [of a "bx_ptr b" "f (get (bx_ptr b) (unat (ty_size T)) t0)" t0] that by (simp add: t0(2) assms(2))
  moreover have "hp_lib t = hp_lib t0" by (simp add: t0(2) put_def)
  ultimately show thesis using that [of t0] t0(1)
    by (simp add: AlignBox_new_with_req_def AlignBox_new_with_req_in_def AlignBox_new_in_def split: if_splits)
qed

text \<open>
  C20.  The life of a box.  When a box is made and initialised, no requested byte of the value (no byte at
  all, if nothing is requested) lies on an avoided position of its cache line.  When it is dropped,
  whatever the program stored in the value, its block is released; two bitmaps, one for each of the two
  times the requests are checked, stay allocated.
\<close>

theorem align_box_lifecycle:
  assumes "malloc_spec env live" "fits \<lparr> lay_size = ty_size T, lay_align = (if reqs = [] then ty_align T else align) \<rparr>"
    and "\<And>bs. length (initialize bs) = length bs"
    and "AlignBox_heap_init_with_req env T initialize align reqs s = Done (Some b, t)" "hp_lib t' = hp_lib t"
    and "\<forall>a. a \<notin> region (bx_ptr b) (unat (ty_size T)) \<longrightarrow> hp_mem t' a = hp_mem t a"
  shows "(\<forall>x\<in>set (covered (if reqs = [] then [\<lparr> ar_offset = 0, ar_len = ty_size T \<rparr>] else reqs)).
          \<not> avoided ((unat (bx_ptr b) + x) mod 64))
    \<and> (\<exists>q1 q2. q1 \<noteq> q2 \<and> live (hp_lib s) q1 = None \<and> live (hp_lib s) q2 = None
        \<and> live (hp_lib (AlignBox_drop env T b t')) =
          (live (hp_lib s))(q1 \<mapsto> (unat (ty_size T) + 7) div 8, q2 \<mapsto> (unat (ty_size T) + 7) div 8))"
proof -
  from heap_init_with_req_steps [OF assms(4,3)] obtain t0
    where t0: "AlignBox_allocate_in env T True (if reqs = [] then ty_align T else align)
      (if reqs = [] then [\<lparr> ar_offset = 0, ar_len = ty_size T \<rparr>] else reqs) s = Done (Some b, t0)"
      "hp_lib t = hp_lib t0" "\<And>a. a \<notin> region (bx_ptr b) (unat (ty_size T)) \<Longrightarrow> hp_mem t a = hp_mem t0 a" by blast
  show ?thesis by (rule allocate_in_lifecycle [OF assms(1,2) t0(1)]) (use t0(2,3) assms(5,6) in simp_all)
qed

lemma key_new: "\<exists>b t. AlignBox_allocate_in list_alloc key_type z 1 (whole key_layout) fresh_heap = Done (Some b, t)"
proof -
  have l: "Layout_from_size_align (ty_size key_type) 1 = Some key_layout"
    using key_layout_ok(5) by (simp add: Layout_from_size_align_def key_type_def key_layout_def)
  have asked: "whole key_layout \<noteq> []" "asked key_layout [] = asked key_layout (whole key_layout)"
    by (simp_all add: whole_def asked_def)
  have pad: "chosen_pad key_layout (whole key_layout) = Some 8"
    using chosen_pad_whole [OF key_layout_ok(2)] key_layout_ok(3,4) by simp
  then have ok: "reqs_ok (lay_size key_layout) (whole key_layout)" by (simp add: chosen_pad_def split: if_splits)
  obtain s1 where m: "c_malloc list_alloc ((lay_size key_layout + 7) div 8) fresh_heap = (16, s1)"
      "hp_lib s1 = [(16, 2)]"
    using bitmap_len [OF key_layout_ok(1)] by (simp add: list_alloc_def fresh_heap_def list_top_def key_layout_ok(3))
  obtain t where t: "pad_align_to list_alloc key_layout (whole key_layout) fresh_heap = Done (Inr (padded key_layout 8), t)"
      "hp_lib t = [(16, 2)]"
    using pad_align_to_outcome [OF list_alloc_spec key_layout_ok(1,2) asked(1) m(1)] pad ok m(2) by auto
  have "enough_memory list_alloc t" by (rule list_alloc_enough) (simp add: t(2) list_top_def)
  from whole_alloc_decision(2) [OF list_alloc_spec key_layout_ok(1,2) this, of z]
  obtain p t2 where "req_alloc list_alloc z key_layout [] t = Done (p, t2)" "p \<noteq> 0" using key_layout_ok(3,4) by auto
  then have "nonnull (req_alloc list_alloc z key_layout (whole key_layout) t) = Done (Inr p, t2)"
    unfolding nonnull_success req_alloc_def asked(2) by simp
  then show ?thesis
    using l t(1) by (cases z) (simp_all add: AlignBox_allocate_in_def AlignAlloc_pad_align_to_def
        AlignAlloc_alloc_with_req_zeroed_def AlignAlloc_alloc_with_req_def alloc_shapes key_type_def)
qed

theorem align_box_lifecycle_witness:
  "\<exists>b t q1 q2. AlignBox_heap_init_with_req list_alloc key_type rev 1 (whole key_layout) fresh_heap = Done (Some b, t)
     \<and> \<not> avoided (unat (bx_ptr b) mod 64) \<and> q1 \<noteq> q2
     \<and> map_of (hp_lib (AlignBox_drop list_alloc key_type b t)) = [q1 \<mapsto> 2, q2 \<mapsto> 2]"
proof -
  have w: "whole key_layout \<noteq> []" by (simp add: whole_def)
  obtain b t where a: "AlignBox_heap_init_with_req list_alloc key_type rev 1 (whole key_layout) fresh_heap = Done (Some b, t)"
    using key_new [of True] w by (auto simp: AlignBox_heap_init_with_req_def init_with_def AlignBox_new_with_req_def AlignBox_new_with_req_in_def)
  have "fits \<lparr> lay_size = ty_size key_type, lay_align = (if whole key_layout = [] then ty_align key_type else 1) \<rparr>"
    using key_layout_ok(1) w by (simp add: key_layout_def key_type_def)
  from align_box_lifecycle [OF list_alloc_spec this _ a] w have *:
    "\<forall>x\<in>set (covered (whole key_layout)). \<not> avoided ((unat (bx_ptr b) + x) mod 64)"
    "\<exists>q1 q2. q1 \<noteq> q2 \<and> map_of (hp_lib (AlignBox_drop list_alloc key_type b t)) = [q1 \<mapsto> 2, q2 \<mapsto> 2]"
    by (auto simp: fresh_heap_def key_type_def)
  have "0 \<in> set (covered (whole key_layout))" by (simp add: whole_def req_bytes_def key_layout_ok(3))
  from bspec [OF *(1) this] *(2) a show ?thesis by auto
qed

end
