(* ===== verification/Spec2Isabelle.thy ===== *)
theory Spec2Isabelle
  imports Serialize_Types Io_Retry Io_Buf_Reader Tseal_Typed Thread_Condvar Thread_RwLock Tdh_Session Align_Box
begin

text \<open>
  A verification library for the Teaclave SGX SDK: the Rust crates that run inside an SGX enclave.

  Theories (the header is completed below as components are added).
\<close>

end
